(* ===== verification/Go_Prelude.thy ===== *)
theory Go_Prelude
  imports Main "HOL-Library.Word" "HOL-Library.Monad_Syntax" "HOL-Library.Multiset"
    "HOL-Library.AList"
begin

section \<open>The parts of the Go run time that every component uses\<close>

text \<open>
  This theory holds what the components share: the source of nondeterminism of a run (map
  iteration order, random numbers, the progress of the clock), Go maps as association lists,
  and error values with their chain of sentinels.

  A function of the program that may panic (and so take the process down) has an \<open>option\<close>
  result, with \<open>None\<close> for the panic; a function that returns a Go \<open>error\<close> has
  a sum result or a \<open>gerror option\<close> beside its value, as the source has.
\<close>

named_theorems go_order \<open>facts about the iteration order of a Go map\<close>
named_theorems go_map \<open>lookups after updates of a Go map\<close>
named_theorems go_eval \<open>definitions that unfold when a closed instance is evaluated\<close>

type_synonym int64 = "64 word"

subsection \<open>Nondeterminism as a stream of draws\<close>

text \<open>
  Everything the language leaves open is decided by a stream of numbers that the model
  threads through the code: the order in which \<open>range\<close> visits a map, the order in which
  goroutines finish, the bits of \<open>math/rand\<close> and of the uuid package, the time that passes
  between two readings of the clock. A property that holds for every stream holds for every
  choice the run time can make.
\<close>

type_synonym entropy = "nat \<Rightarrow> nat"

definition draw :: "entropy \<Rightarrow> nat \<times> entropy" where
  "draw e = (e 0, \<lambda>n. e (Suc n))"

text \<open>\<open>go_range\<close> puts a list in the order chosen by the stream: every permutation is possible
  (\<open>go_range_complete\<close>) and nothing but permutations (\<open>mset_go_range\<close>).\<close>

function go_range :: "'a list \<Rightarrow> entropy \<Rightarrow> 'a list \<times> entropy" where
  "go_range [] e = ([], e)"
| "go_range (x # xs) e =
     (let i = e 0 mod Suc (length xs);
          (ys, e') = go_range (take i (x # xs) @ drop (Suc i) (x # xs)) (\<lambda>n. e (Suc n))
      in ((x # xs) ! i # ys, e'))"
  by pat_completeness auto
termination
  by (relation "measure (\<lambda>(xs, e). length xs)") auto

declare go_range.simps [simp del]

lemma go_range_Nil [simp]: "go_range [] e = ([], e)"
  by (simp add: go_range.simps)

lemma mset_pick:
  assumes "i < length xs"
  shows "add_mset (xs ! i) (mset (take i xs @ drop (Suc i) xs)) = mset xs"
proof -
  have "mset xs = mset (take i xs @ xs ! i # drop (Suc i) xs)"
    using assms by (simp add: id_take_nth_drop[symmetric])
  then show ?thesis by simp
qed

lemma mset_go_range [go_order]: "mset (fst (go_range xs e)) = mset xs"
proof (induction xs e rule: go_range.induct)
  case (1 e)
  then show ?case by simp
next
  case (2 x xs e)
  let ?i = "e 0 mod Suc (length xs)"
  have i: "?i < length (x # xs)" by simp
  from 2 have "mset (fst (go_range (take ?i (x # xs) @ drop (Suc ?i) (x # xs)) (\<lambda>n. e (Suc n)))) =
      mset (take ?i (x # xs) @ drop (Suc ?i) (x # xs))"
    by blast
  with mset_pick [OF i] show ?case
    by (simp only: go_range.simps Let_def fst_conv split_beta mset.simps)
qed

lemma set_go_range [go_order, simp]: "set (fst (go_range xs e)) = set xs"
  using mset_go_range [of xs e] by (rule mset_eq_setD)

lemma length_go_range [go_order, simp]: "length (fst (go_range xs e)) = length xs"
  using mset_go_range [of xs e] by (rule mset_eq_length)

lemma distinct_keys_go_range [go_order]:
  "distinct (map fst (fst (go_range m e))) = distinct (map fst m)"
  using mset_go_range [of m e] by (metis mset_map mset_eq_imp_distinct_iff)

lemma go_range_singleton [simp]: "go_range [x] e = ([x], \<lambda>n. e (Suc n))"
  by (simp add: go_range.simps)

lemma go_range_in_order [simp]: "go_range xs (\<lambda>_. 0) = (xs, \<lambda>_. 0)"
  by (induction xs) (simp_all add: go_range.simps)

lemma go_range_complete:
  assumes "mset ys = mset xs"
  shows "\<exists>e. fst (go_range xs e) = ys"
  using assms
proof (induction ys arbitrary: xs)
  case Nil
  then show ?case by simp
next
  case (Cons y ys)
  then have "y \<in> set xs" by (metis list.set_intros(1) mset_eq_setD)
  then obtain i where i: "i < length xs" "xs ! i = y" by (auto simp: in_set_conv_nth)
  let ?rest = "take i xs @ drop (Suc i) xs"
  have "add_mset y (mset ys) = add_mset y (mset ?rest)"
    using mset_pick [OF i(1)] i(2) Cons.prems by (metis mset.simps(2))
  then have "mset ys = mset ?rest" by simp
  from Cons.IH [OF this] obtain e where e: "fst (go_range ?rest e) = ys" by blast
  from i obtain z zs where xs: "xs = z # zs" by (cases xs) auto
  with i have "i mod Suc (length zs) = i" by simp
  with e i xs have "fst (go_range xs (case_nat i e)) = y # ys"
    by (simp add: go_range.simps Let_def split_beta)
  then show ?case by blast
qed

subsection \<open>Go maps\<close>

text \<open>
  A Go map is an association list with distinct keys. Its own order is not observable: a
  loop over a map goes through \<open>go_range\<close>. Reading a missing key gives the zero value,
  which \<open>go_index\<close> models for maps to strings; \<open>m, ok := m[k]\<close> is \<open>map_of m k\<close>.
\<close>

type_synonym ('k, 'v) gomap = "('k \<times> 'v) list"
type_synonym strmap = "(string, string) gomap"

abbreviation go_wf :: "('k, 'v) gomap \<Rightarrow> bool" where
  "go_wf m \<equiv> distinct (map fst m)"

definition go_index :: "strmap \<Rightarrow> string \<Rightarrow> string" where
  "go_index m k = (case map_of m k of None \<Rightarrow> [] | Some v \<Rightarrow> v)"

lemma go_wf_update [simp]: "go_wf m \<Longrightarrow> go_wf (AList.update k v m)"
  by (rule distinct_update)

lemma map_of_update [simp, go_map]: "map_of (AList.update k v m) = (map_of m)(k \<mapsto> v)"
  by (rule update_conv')

lemma go_wf_delete [simp]: "go_wf m \<Longrightarrow> go_wf (AList.delete k m)"
  by (rule distinct_delete)

lemma map_of_delete [simp, go_map]: "map_of (AList.delete k m) = (map_of m)(k := None)"
  by (rule delete_conv')

declare go_index_def [go_eval]

lemma go_index_update [simp, go_map]:
  "go_index (AList.update k v m) k' = (if k' = k then v else go_index m k')"
  by (simp add: go_index_def)

text \<open>A loop \<open>for k, v := range src { dst[k] = v }\<close> (and \<open>maps.Copy\<close>): the keys of the
  source are distinct, so its order does not matter.\<close>

fun go_copy :: "('k, 'v) gomap \<Rightarrow> ('k, 'v) gomap \<Rightarrow> ('k, 'v) gomap" where
  "go_copy dst [] = dst"
| "go_copy dst ((k, v) # src) = go_copy (AList.update k v dst) src"

lemma go_wf_copy [simp]: "go_wf dst \<Longrightarrow> go_wf (go_copy dst src)"
  by (induction dst src rule: go_copy.induct) simp_all

lemma map_of_go_copy [go_map]: "go_wf src \<Longrightarrow> map_of (go_copy dst src) = map_of dst ++ map_of src"
proof (induction dst src rule: go_copy.induct)
  case (1 dst)
  then show ?case by simp
next
  case (2 dst k v src)
  have "map_of (go_copy dst ((k, v) # src)) = map_of (AList.update k v dst) ++ map_of src"
    using "2.IH" "2.prems" unfolding go_copy.simps by (metis distinct.simps(2) list.map(2))
  moreover have "k \<notin> dom (map_of src)"
    using "2.prems" by (auto simp: dom_map_of_conv_image_fst)
  ultimately show ?case
    by (simp only: map_of_update map_of.simps fst_conv snd_conv map_add_upd map_add_upd_left not_False_eq_True)
qed

lemma map_of_go_range [go_order]:
  assumes "go_wf m"
  shows "map_of (fst (go_range m e)) = map_of m"
  using assms distinct_keys_go_range [of m e] set_go_range [of m e]
  by (intro map_of_inject_set [THEN iffD2]) simp_all

subsection \<open>Errors\<close>

text \<open>
  The sentinels of \<open>internal/core/domain/errors.go\<close>. An error value is the chain of
  sentinels that \<open>errors.Is\<close> finds, and the text of \<open>Error()\<close>: \<open>fmt.Errorf\<close>
  keeps the chain of an argument printed with the verb \<open>w\<close> and drops that of one printed
  with \<open>v\<close>.
\<close>

datatype sentinel =
    ErrConfiguration | ErrTriggerFailed | ErrTimeout | ErrNotFound
  | ErrValidation | ErrInternal | ErrUnimplemented | ErrUnauthorized

fun sentinel_text :: "sentinel \<Rightarrow> string" where
  "sentinel_text ErrConfiguration = ''configuration error''"
| "sentinel_text ErrTriggerFailed = ''trigger failed''"
| "sentinel_text ErrTimeout = ''timeout exceeded''"
| "sentinel_text ErrNotFound = ''not found''"
| "sentinel_text ErrValidation = ''validation failed''"
| "sentinel_text ErrInternal = ''internal system error''"
| "sentinel_text ErrUnimplemented = ''unimplemented feature''"
| "sentinel_text ErrUnauthorized = ''unauthorized''"

datatype gerror = GErr (echain: "sentinel list") (etext: string)

definition errors_Is :: "gerror \<Rightarrow> sentinel \<Rightarrow> bool" where
  "errors_Is err s \<longleftrightarrow> s \<in> set (echain err)"

text \<open>\<open>fmt.Errorf("%w: ...", sentinel, ...)\<close>: the common shape of the program's errors.\<close>

definition errorf :: "sentinel \<Rightarrow> string \<Rightarrow> gerror" where
  "errorf s txt = GErr [s] (sentinel_text s @ '': '' @ txt)"

text \<open>\<open>errorwrapper.Wrap\<close>: the second error is printed with \<open>v\<close>.\<close>

definition Wrap :: "sentinel \<Rightarrow> gerror option \<Rightarrow> gerror" where
  "Wrap domainErr err =
     (case err of
        None \<Rightarrow> GErr [domainErr] (sentinel_text domainErr)
      | Some e \<Rightarrow> GErr [domainErr] (sentinel_text domainErr @ '': '' @ etext e))"

lemma errors_Is_errorf [simp]: "errors_Is (errorf s txt) s' \<longleftrightarrow> s' = s"
  by (auto simp: errors_Is_def errorf_def)

lemma errors_Is_Wrap [simp]: "errors_Is (Wrap s err) s' \<longleftrightarrow> s' = s"
  by (auto simp: errors_Is_def Wrap_def split: option.splits)

lemma etext_errorf: "etext (errorf s txt) = sentinel_text s @ '': '' @ txt"
  by (simp add: errorf_def)

end
