(* ===== verification/Go_Strings.thy ===== *)
theory Go_Strings
  imports Go_Prelude "HOL-Library.Sublist" "HOL-Library.List_Lexorder" "HOL-Library.Char_ord"
begin

section \<open>The functions of \<open>strings\<close>, \<open>strconv\<close> and \<open>fmt\<close> that the program calls\<close>

text \<open>
  A Go string is its list of bytes. \<open>ToLower\<close> and \<open>Quote\<close> are exact on ASCII and leave
  the bytes of other characters as they are; \<open>TrimSpace\<close> knows the encodings of all of
  Unicode's white space; everything else is exact. The second half models the shape shared by
  the program's regular expressions: a scan from the left for non-overlapping matches of a
  matcher, and their replacement one by one (\<open>ReplaceAllStringFunc\<close>).
\<close>

subsection \<open>Prefixes and substrings\<close>

fun strip_prefix :: "string \<Rightarrow> string \<Rightarrow> string option" where
  "strip_prefix [] s = Some s"
| "strip_prefix (p # ps) [] = None"
| "strip_prefix (p # ps) (c # s) = (if p = c then strip_prefix ps s else None)"

lemma strip_prefix_Some: "strip_prefix p s = Some r \<longleftrightarrow> s = p @ r"
  by (induction p s rule: strip_prefix.induct) auto

lemma strip_prefix_append [simp]: "strip_prefix p (p @ r) = Some r"
  by (simp add: strip_prefix_Some)

lemma strip_prefix_None: "strip_prefix p s = None \<longleftrightarrow> (\<forall>r. s \<noteq> p @ r)"
  by (metis not_None_eq strip_prefix_Some)

definition HasPrefix :: "string \<Rightarrow> string \<Rightarrow> bool" where
  "HasPrefix s p \<longleftrightarrow> strip_prefix p s \<noteq> None"

definition TrimPrefix :: "string \<Rightarrow> string \<Rightarrow> string" where
  "TrimPrefix s p = (case strip_prefix p s of Some r \<Rightarrow> r | None \<Rightarrow> s)"

fun Contains :: "string \<Rightarrow> string \<Rightarrow> bool" where
  "Contains s sub =
     (strip_prefix sub s \<noteq> None \<or> (case s of [] \<Rightarrow> False | c # t \<Rightarrow> Contains t sub))"

declare Contains.simps [simp del]

lemma Contains_iff: "Contains s sub \<longleftrightarrow> (\<exists>a b. s = a @ sub @ b)"
proof (induction s)
  case Nil
  then show ?case by (simp add: Contains.simps strip_prefix_Some)
next
  case (Cons c s)
  have "(\<exists>a b. c # s = a @ sub @ b) \<longleftrightarrow> (\<exists>b. c # s = sub @ b) \<or> (\<exists>a b. s = a @ sub @ b)"
    by (metis append_Cons append_Nil list.sel(3) tl_append2)
  then show ?case
    by (simp add: Contains.simps [of "c # s"] Cons.IH strip_prefix_Some)
qed

lemma Contains_sublist: "Contains s sub \<longleftrightarrow> sublist sub s"
  by (simp add: Contains_iff sublist_def)

text \<open>\<open>strings.ReplaceAll\<close>: leftmost, non-overlapping. The program never calls it with an
  empty \<open>old\<close> (it is always a placeholder in double braces); there the model returns \<open>s\<close>.\<close>

function ReplaceAll :: "string \<Rightarrow> string \<Rightarrow> string \<Rightarrow> string" where
  "ReplaceAll [] old new = []"
| "ReplaceAll (c # s) old new =
     (case strip_prefix old (c # s) of
        None \<Rightarrow> c # ReplaceAll s old new
      | Some r \<Rightarrow> if old = [] then c # s
                  else new @ ReplaceAll (drop (length old - 1) s) old new)"
  by pat_completeness auto
termination
  by (relation "measure (\<lambda>(s, old, new). length s)") auto

lemma ReplaceAll_no_occurrence: "\<not> Contains s old \<Longrightarrow> ReplaceAll s old new = s"
  by (induction s old new rule: ReplaceAll.induct) (auto simp: Contains.simps split: option.splits)

lemma ReplaceAll_at: "old \<noteq> [] \<Longrightarrow> ReplaceAll (old @ r) old new = new @ ReplaceAll r old new"
  by (cases old) simp_all

fun Join :: "string list \<Rightarrow> string \<Rightarrow> string" where
  "Join [] sep = []"
| "Join [x] sep = x"
| "Join (x # y # xs) sep = x @ sep @ Join (y # xs) sep"

text \<open>\<open>s[:strings.IndexByte(s, c)]\<close>, and \<open>s\<close> itself where \<open>c\<close> does not occur.\<close>

definition before_byte :: "string \<Rightarrow> char \<Rightarrow> string" where
  "before_byte s c = takeWhile (\<lambda>x. x \<noteq> c) s"

subsection \<open>Case and white space\<close>

definition lower_char :: "char \<Rightarrow> char" where
  "lower_char c = (if 65 \<le> (of_char c :: nat) \<and> (of_char c :: nat) \<le> 90
                   then char_of ((of_char c :: nat) + 32) else c)"

definition ToLower :: "string \<Rightarrow> string" where
  "ToLower s = map lower_char s"

lemma lower_char_idem [simp]: "lower_char (lower_char c) = lower_char c"
  by (auto simp: lower_char_def)

lemma ToLower_idem [simp]: "ToLower (ToLower s) = ToLower s"
  by (simp add: ToLower_def)

lemma ToLower_append [simp]: "ToLower (s @ t) = ToLower s @ ToLower t"
  by (simp add: ToLower_def)

definition bytes :: "nat list \<Rightarrow> string" where
  "bytes ns = map char_of ns"

text \<open>The UTF-8 encodings of the code points for which \<open>unicode.IsSpace\<close> holds.\<close>

definition space_encodings :: "string list" where
  "space_encodings = map bytes
     ([[9], [10], [11], [12], [13], [32], [194, 133], [194, 160], [225, 154, 128],
       [226, 128, 168], [226, 128, 169], [226, 128, 175], [226, 129, 159], [227, 128, 128]]
      @ map (\<lambda>k. [226, 128, k]) [128, 129, 130, 131, 132, 133, 134, 135, 136, 137, 138])"

definition strip_space :: "string \<Rightarrow> string option" where
  "strip_space s = List.find (\<lambda>_. True) (List.map_filter (\<lambda>p. strip_prefix p s) space_encodings)"

lemma space_encodings_nonempty: "p \<in> set space_encodings \<Longrightarrow> p \<noteq> []"
  by (auto simp: space_encodings_def bytes_def)

lemma strip_space_Some:
  assumes "strip_space s = Some r"
  shows "\<exists>p \<in> set space_encodings. s = p @ r"
proof -
  from assms have "r \<in> set (List.map_filter (\<lambda>p. strip_prefix p s) space_encodings)"
    unfolding strip_space_def by (auto simp: find_Some_iff)
  then show ?thesis by (auto simp: map_filter_def strip_prefix_Some split: if_splits)
qed

lemma strip_space_shorter: "strip_space s = Some r \<Longrightarrow> length r < length s"
  using strip_space_Some space_encodings_nonempty by fastforce

function trim_left :: "string \<Rightarrow> string" where
  "trim_left s = (case strip_space s of None \<Rightarrow> s | Some r \<Rightarrow> trim_left r)"
  by pat_completeness auto
termination
  by (relation "measure length") (auto dest: strip_space_shorter)

declare trim_left.simps [simp del]

text \<open>Trimming on the right: the longest prefix whose last character is not a space. A string
  ends in white space when its reverse starts with the reverse of an encoding.\<close>

definition strip_space_rev :: "string \<Rightarrow> string option" where
  "strip_space_rev s =
     List.find (\<lambda>_. True) (List.map_filter (\<lambda>p. strip_prefix (rev p) s) space_encodings)"

lemma strip_space_rev_shorter: "strip_space_rev s = Some r \<Longrightarrow> length r < length s"
proof -
  assume "strip_space_rev s = Some r"
  then have "r \<in> set (List.map_filter (\<lambda>p. strip_prefix (rev p) s) space_encodings)"
    unfolding strip_space_rev_def by (auto simp: find_Some_iff)
  then obtain p where "p \<in> set space_encodings" and "s = rev p @ r"
    by (auto simp: map_filter_def strip_prefix_Some split: if_splits)
  with space_encodings_nonempty show ?thesis by auto
qed

function trim_rev :: "string \<Rightarrow> string" where
  "trim_rev s = (case strip_space_rev s of None \<Rightarrow> s | Some r \<Rightarrow> trim_rev r)"
  by pat_completeness auto
termination
  by (relation "measure length") (auto dest: strip_space_rev_shorter)

declare trim_rev.simps [simp del]

definition TrimSpace :: "string \<Rightarrow> string" where
  "TrimSpace s = rev (trim_rev (rev (trim_left s)))"

text \<open>A string whose first and last byte are printable ASCII other than the blank is trimmed
  already.\<close>

definition is_graph :: "char \<Rightarrow> bool" where
  "is_graph c \<longleftrightarrow> 33 \<le> (of_char c :: nat) \<and> (of_char c :: nat) \<le> 126"

lemma space_encodings_ends:
  "\<forall>p \<in> set space_encodings. \<not> is_graph (hd p) \<and> \<not> is_graph (last p)"
  by (simp add: space_encodings_def bytes_def is_graph_def)

lemma strip_space_graph: "is_graph c \<Longrightarrow> strip_space (c # s) = None"
  using space_encodings_ends space_encodings_nonempty strip_space_Some [of "c # s"]
  by (metis hd_append2 list.sel(1) not_None_eq)

lemma strip_space_rev_graph: "is_graph c \<Longrightarrow> strip_space_rev (c # s) = None"
proof (rule ccontr)
  assume c: "is_graph c" and "strip_space_rev (c # s) \<noteq> None"
  then obtain r where "strip_space_rev (c # s) = Some r" by blast
  then have "r \<in> set (List.map_filter (\<lambda>p. strip_prefix (rev p) (c # s)) space_encodings)"
    unfolding strip_space_rev_def by (auto simp: find_Some_iff)
  then obtain p where p: "p \<in> set space_encodings" "c # s = rev p @ r"
    by (auto simp: map_filter_def strip_prefix_Some split: if_splits)
  then have "last p = c"
    using space_encodings_nonempty by (metis hd_append2 hd_rev list.sel(1) rev_is_Nil_conv)
  with c p(1) space_encodings_ends show False by blast
qed

lemma strip_space_Nil [simp]: "strip_space [] = None" "strip_space_rev [] = None"
  using strip_space_shorter [of "[]"] strip_space_rev_shorter [of "[]"]
  by (metis less_nat_zero_code list.size(3) not_None_eq)+

lemma TrimSpace_Nil [simp]: "TrimSpace [] = []"
  by (simp add: TrimSpace_def trim_left.simps trim_rev.simps)

lemma TrimSpace_graph:
  assumes "s \<noteq> []" and "is_graph (hd s)" and "is_graph (last s)"
  shows "TrimSpace s = s"
proof -
  obtain c t where "s = c # t" using assms(1) by (cases s) auto
  with assms(2) have "trim_left s = s"
    by (simp add: trim_left.simps strip_space_graph)
  moreover obtain d u where "rev s = d # u" using assms(1) by (cases "rev s") auto
  then have "trim_rev (rev s) = rev s"
    using assms by (metis hd_rev list.sel(1) option.simps(4) strip_space_rev_graph trim_rev.simps)
  ultimately show ?thesis by (simp add: TrimSpace_def)
qed

end
