(* ===== verification/Go_Strconv.thy ===== *)
theory Go_Strconv
  imports Go_Strings
begin

section \<open>Numbers in text, quoting, and the scan for a regular expression\<close>

text \<open>
  \<open>strconv.ParseInt(s, 10, 64)\<close> and \<open>strconv.Atoi\<close> (an \<open>int\<close> has 64 bits),
  \<open>strconv.FormatInt\<close> and the verbs \<open>%d\<close> and \<open>%q\<close> of \<open>fmt\<close>. The round trip
  \<open>ParseInt64_FormatInt\<close> is what makes a counter variable survive from one template to the
  next. The last part tokenises a string for a matcher.
\<close>

subsection \<open>Decimal numbers\<close>

definition digit_char :: "nat \<Rightarrow> char" where
  "digit_char d = char_of (48 + d)"

definition is_digit :: "char \<Rightarrow> bool" where
  "is_digit c \<longleftrightarrow> 48 \<le> (of_char c :: nat) \<and> (of_char c :: nat) \<le> 57"

definition digit_val :: "char \<Rightarrow> nat" where
  "digit_val c = of_char c - 48"

fun nat_digits :: "nat \<Rightarrow> string" where
  "nat_digits n =
     (if n < 10 then [digit_char n] else nat_digits (n div 10) @ [digit_char (n mod 10)])"

declare nat_digits.simps [simp del]

definition digits_val :: "string \<Rightarrow> nat" where
  "digits_val s = foldl (\<lambda>acc c. acc * 10 + digit_val c) 0 s"

lemma digit_char_props [simp]:
  assumes "d < 10"
  shows "is_digit (digit_char d)" and "digit_val (digit_char d) = d"
  using assms by (simp_all add: is_digit_def digit_val_def digit_char_def)

lemma digit_char_eval [go_eval]:
  "digit_char 0 = CHR ''0''" "digit_char 1 = CHR ''1''" "digit_char (Suc 0) = CHR ''1''"
  "digit_char 2 = CHR ''2''" "digit_char 3 = CHR ''3''" "digit_char 4 = CHR ''4''"
  "digit_char 5 = CHR ''5''" "digit_char 6 = CHR ''6''" "digit_char 7 = CHR ''7''"
  "digit_char 8 = CHR ''8''" "digit_char 9 = CHR ''9''"
  by (simp_all add: digit_char_def char_of_def bit_simps)

lemma is_digit_graph: "is_digit c \<Longrightarrow> is_graph c"
  by (simp add: is_digit_def is_graph_def)

lemma nat_digits_nonempty [simp]: "nat_digits n \<noteq> []"
  by (subst nat_digits.simps) simp

lemma nat_digits_digits: "list_all is_digit (nat_digits n)"
proof (induction n rule: nat_digits.induct)
  case (1 n)
  then show ?case by (subst nat_digits.simps) simp
qed

lemma digits_val_nat_digits [simp]: "digits_val (nat_digits n) = n"
proof (induction n rule: nat_digits.induct)
  case (1 n)
  then show ?case by (subst nat_digits.simps) (simp add: digits_val_def)
qed

definition FormatInt :: "int \<Rightarrow> string" where
  "FormatInt i = (if i < 0 then CHR ''-'' # nat_digits (nat (- i)) else nat_digits (nat i))"

definition ParseInt64 :: "string \<Rightarrow> int64 option" where
  "ParseInt64 s =
     (let (neg, ds) = (case s of
                          c # r \<Rightarrow> if c = CHR ''-'' then (True, r)
                                   else if c = CHR ''+'' then (False, r) else (False, s)
                        | [] \<Rightarrow> (False, s));
          v = (if neg then - int (digits_val ds) else int (digits_val ds))
      in if ds = [] \<or> \<not> list_all is_digit ds then None
         else if v < - (2 ^ 63) \<or> 2 ^ 63 \<le> v then None
         else Some (word_of_int v))"

lemma sint_bounds64: "- (2 ^ 63) \<le> sint (w :: int64)" "sint (w :: int64) < 2 ^ 63"
  using sint_range_size [of w] by (simp_all add: word_size)

lemma sint_word_of_int64:
  "- (2 ^ 63) \<le> v \<Longrightarrow> v < 2 ^ 63 \<Longrightarrow> sint (word_of_int v :: int64) = v"
  unfolding sint_sbintrunc' by (simp add: signed_take_bit_int_eq_self)

lemma nat_digits_hd: "is_digit (hd (nat_digits n))"
  using nat_digits_digits [of n] by (metis hd_in_set list.pred_set nat_digits_nonempty)

lemma not_digit_sign: "\<not> is_digit CHR ''-''" "\<not> is_digit CHR ''+''"
  by (simp_all add: is_digit_def)

lemma ParseInt64_nat_digits:
  "int n < 2 ^ 63 \<Longrightarrow> ParseInt64 (nat_digits n) = Some (word_of_int (int n))"
proof -
  assume n: "int n < 2 ^ 63"
  obtain c r where cr: "nat_digits n = c # r" by (metis list.exhaust nat_digits_nonempty)
  with nat_digits_hd [of n] have "is_digit c" by simp
  with not_digit_sign have "c \<noteq> CHR ''-''" "c \<noteq> CHR ''+''" by auto
  then show ?thesis
    using n nat_digits_digits [of n] digits_val_nat_digits [of n]
    by (simp add: ParseInt64_def cr Let_def)
qed

lemma ParseInt64_minus:
  "int n \<le> 2 ^ 63 \<Longrightarrow> ParseInt64 (CHR ''-'' # nat_digits n) = Some (word_of_int (- int n))"
  using nat_digits_digits [of n] by (simp add: ParseInt64_def Let_def)

theorem ParseInt64_FormatInt [simp]: "ParseInt64 (FormatInt (sint (w :: int64))) = Some w"
proof (cases "sint w < 0")
  case True
  with sint_bounds64 [of w] have "int (nat (- sint w)) \<le> 2 ^ 63" by simp
  from ParseInt64_minus [OF this] True show ?thesis by (simp add: FormatInt_def)
next
  case False
  with sint_bounds64 [of w] have "int (nat (sint w)) < 2 ^ 63" by simp
  from ParseInt64_nat_digits [OF this] False show ?thesis by (simp add: FormatInt_def)
qed

lemma nat_digits_last: "is_digit (last (nat_digits n))"
  using nat_digits_digits [of n] by (metis last_in_set list.pred_set nat_digits_nonempty)

lemma FormatInt_nonempty [simp]: "FormatInt i \<noteq> []"
  by (simp add: FormatInt_def)

lemma TrimSpace_FormatInt [simp]: "TrimSpace (FormatInt i) = FormatInt i"
proof (rule TrimSpace_graph)
  show "FormatInt i \<noteq> []" by simp
  show "is_graph (hd (FormatInt i))"
    by (simp add: FormatInt_def nat_digits_hd is_digit_graph) (simp add: is_graph_def)
  show "is_graph (last (FormatInt i))"
    by (simp add: FormatInt_def nat_digits_last is_digit_graph)
qed

lemma FormatInt_chars: "c \<in> set (FormatInt i) \<Longrightarrow> is_digit c \<or> c = CHR ''-''"
  using nat_digits_digits by (auto simp: FormatInt_def list_all_iff split: if_splits)

lemma FormatInt_only_digits: "\<not> is_digit c \<Longrightarrow> c \<noteq> CHR ''-'' \<Longrightarrow> c \<notin> set (FormatInt i)"
  using FormatInt_chars by blast

lemma FormatInt_inject [simp]: "FormatInt i = FormatInt j \<longleftrightarrow> i = j"
proof
  assume eq: "FormatInt i = FormatInt j"
  have hd: "hd (FormatInt k) = CHR ''-'' \<longleftrightarrow> k < 0" for k
    using nat_digits_hd not_digit_sign by (metis FormatInt_def list.sel(1))
  from eq hd [of i] hd [of j] have "i < 0 \<longleftrightarrow> j < 0" by simp
  with eq have "nat_digits (nat \<bar>i\<bar>) = nat_digits (nat \<bar>j\<bar>)"
    by (auto simp: FormatInt_def split: if_splits)
  then have "nat \<bar>i\<bar> = nat \<bar>j\<bar>" by (metis digits_val_nat_digits)
  with \<open>i < 0 \<longleftrightarrow> j < 0\<close> show "i = j" by arith
qed simp

subsection \<open>Quoting\<close>

definition hex_digit :: "nat \<Rightarrow> char" where
  "hex_digit d = (if d < 10 then char_of (48 + d) else char_of (87 + d))"

definition quote_char :: "char \<Rightarrow> string" where
  "quote_char c = (let n = (of_char c :: nat) in
     if n = 34 then [char_of (92 :: nat), c]
     else if n = 92 then [c, c]
     else if n = 7 then [char_of (92 :: nat), CHR ''a'']
     else if n = 8 then [char_of (92 :: nat), CHR ''b'']
     else if n = 9 then [char_of (92 :: nat), CHR ''t'']
     else if n = 10 then [char_of (92 :: nat), CHR ''n'']
     else if n = 11 then [char_of (92 :: nat), CHR ''v'']
     else if n = 12 then [char_of (92 :: nat), CHR ''f'']
     else if n = 13 then [char_of (92 :: nat), CHR ''r'']
     else if n < 32 \<or> n = 127
       then [char_of (92 :: nat), CHR ''x'', hex_digit (n div 16), hex_digit (n mod 16)]
     else [c])"

definition Quote :: "string \<Rightarrow> string" where
  "Quote s = char_of (34 :: nat) # concat (map quote_char s) @ [char_of (34 :: nat)]"

text \<open>Quoting leaves braces and the characters between them as they are, so a placeholder
  quoted in an error text is still a placeholder.\<close>

lemma quote_char_graph: "is_graph c \<Longrightarrow> of_char c \<noteq> (34 :: nat) \<Longrightarrow> of_char c \<noteq> (92 :: nat)
    \<Longrightarrow> quote_char c = [c]"
  by (auto simp: quote_char_def is_graph_def Let_def)

subsection \<open>Scanning for a regular expression\<close>

text \<open>
  A matcher says whether its expression matches at the front of a string, and gives the
  captured groups and the text of the match. The scan goes from the left and continues after
  a match, as \<open>regexp.ReplaceAllStringFunc\<close> does; \<open>re_replace\<close> then calls the
  replacement function on the matches in order, threading the state it works on.
\<close>

datatype 'm token = Lit char | Tag 'm string

fun token_text :: "'m token \<Rightarrow> string" where
  "token_text (Lit c) = [c]"
| "token_text (Tag m tx) = tx"

function re_tokens :: "(string \<Rightarrow> ('m \<times> string) option) \<Rightarrow> string \<Rightarrow> 'm token list" where
  "re_tokens mt [] = []"
| "re_tokens mt (c # s) =
     (case mt (c # s) of
        None \<Rightarrow> Lit c # re_tokens mt s
      | Some (m, tx) \<Rightarrow> Tag m tx # re_tokens mt (drop (length tx - 1) s))"
  by pat_completeness auto
termination
  by (relation "measure (\<lambda>(mt, s). length s)") auto

fun re_replace ::
  "('m \<Rightarrow> string \<Rightarrow> 's \<Rightarrow> (string \<times> 's) option) \<Rightarrow> 'm token list \<Rightarrow> 's \<Rightarrow> (string \<times> 's) option"
where
  "re_replace f [] st = Some ([], st)"
| "re_replace f (Lit c # ts) st = do { (out, st') \<leftarrow> re_replace f ts st; Some (c # out, st') }"
| "re_replace f (Tag m tx # ts) st = do {
     (rep, st1) \<leftarrow> f m tx st;
     (out, st2) \<leftarrow> re_replace f ts st1;
     Some (rep @ out, st2)
   }"

definition sound_matcher :: "(string \<Rightarrow> ('m \<times> string) option) \<Rightarrow> bool" where
  "sound_matcher mt \<longleftrightarrow> (\<forall>s m tx. mt s = Some (m, tx) \<longrightarrow> tx \<noteq> [] \<and> (\<exists>r. s = tx @ r))"

lemma re_tokens_text:
  assumes "sound_matcher mt"
  shows "concat (map token_text (re_tokens mt s)) = s"
  using assms
proof (induction mt s rule: re_tokens.induct)
  case (1 mt)
  then show ?case by simp
next
  case (2 mt c s)
  show ?case
  proof (cases "mt (c # s)")
    case None
    with 2 show ?thesis by simp
  next
    case (Some a)
    obtain m tx where a: "a = (m, tx)" by fastforce
    with Some "2.prems" have "tx \<noteq> []" "\<exists>r. c # s = tx @ r"
      by (auto simp: sound_matcher_def)
    then have "tx @ drop (length tx - 1) s = c # s"
      by (cases tx) auto
    with 2 Some a show ?thesis by simp
  qed
qed

lemma re_tokens_none:
  "(\<And>a b. s = a @ b \<Longrightarrow> mt b = None) \<Longrightarrow> re_tokens mt s = map Lit s"
proof (induction mt s rule: re_tokens.induct)
  case (1 mt)
  then show ?case by simp
next
  case (2 mt c s)
  from "2.prems" [of "[]"] have "mt (c # s) = None" by simp
  moreover from "2.prems" [of "c # _"] have "\<And>a b. s = a @ b \<Longrightarrow> mt b = None" by simp
  ultimately show ?case using 2 by simp
qed

lemma re_replace_Lit [simp]: "re_replace f (map Lit s) st = Some (s, st)"
  by (induction s) simp_all

lemma re_replace_append:
  "re_replace f (ts @ us) st = do {
     (a, st1) \<leftarrow> re_replace f ts st;
     (b, st2) \<leftarrow> re_replace f us st1;
     Some (a @ b, st2)
   }"
  by (induction f ts st rule: re_replace.induct) (simp_all split: Option.bind_splits)

text \<open>A replacement that never panics gives a scan that never panics.\<close>

lemma re_replace_total:
  "(\<And>m tx st. f m tx st \<noteq> None) \<Longrightarrow> \<exists>out st'. re_replace f ts st = Some (out, st')"
proof (induction f ts st rule: re_replace.induct)
  case (3 f m tx ts st)
  from "3.prems" [of m tx st] obtain rep st1 where "f m tx st = Some (rep, st1)" by fastforce
  with "3.IH" [OF this refl] "3.prems" show ?case by fastforce
qed fastforce+

end
