(* ===== verification/Domain.thy ===== *)
theory Domain
  imports Go_Strconv
begin

section \<open>The domain model: \<open>internal/core/domain\<close>\<close>

text \<open>
  The structs of the domain as records and its string enumerations as datatypes. Field names
  carry a prefix for their struct (\<open>td_\<close> for \<open>TestDefinition\<close> and so on), since
  record selectors are global. Durations and points in time are nanoseconds (\<open>int\<close>); the
  zero time of Go is \<open>zero_time\<close>. A map that the code distinguishes from \<open>nil\<close> is an
  option; where it only ranges or indexes, \<open>nil\<close> is the empty map.

  The theory also holds the world that the stateful components thread: the stream of draws,
  the clock, and whatever lies outside of the component at hand.
\<close>

subsection \<open>Dynamic values (\<open>any\<close>)\<close>

text \<open>
  What YAML and JSON decoding put into an \<open>any\<close>: scalars, \<open>map[string]any\<close>,
  \<open>map[any]any\<close> (YAML mappings with a key that is not a string) and \<open>[]any\<close>. Floats
  are their bit pattern.
\<close>

datatype goval =
    VNil
  | VBool bool
  | VInt int
  | VFloat "64 word"
  | VStr string
  | VMap "(string \<times> goval) list"
  | VAnyMap "(goval \<times> goval) list"
  | VList "goval list"

type_synonym gobody = "(string, goval) gomap"

subsection \<open>Test definitions\<close>

record AssertionConfig =
  ac_Type :: string
  ac_Field :: string
  ac_Value :: string

record RetryConfig =
  rt_Enabled :: bool
  rt_Attempts :: int
  rt_Delay :: int

record ReceiverConfig =
  rc_Type :: string
  rc_Timeout :: int
  rc_Recipient :: string
  rc_Options :: strmap
  rc_Assertions :: "AssertionConfig list"
  rc_Interval :: int
  rc_Method :: string
  rc_URL :: string
  rc_Headers :: "strmap option"
  rc_Body :: "gobody option"
  rc_ExpectedStatus :: int
  rc_ResponseAsserts :: "AssertionConfig list"
  rc_Extract :: strmap

record TriggerConfig =
  tc_Type :: string
  tc_Options :: strmap
  tc_Method :: string
  tc_URL :: string
  tc_Timeout :: int
  tc_DelayBefore :: int
  tc_Headers :: "strmap option"
  tc_Body :: "gobody option"
  tc_Extract :: strmap
  tc_ExpectedStatus :: int
  tc_ResponseAssertions :: "AssertionConfig list"
  tc_Receivers :: "ReceiverConfig list"
  tc_WaitForReceivers :: bool

record CallAction =
  ca_Method :: string
  ca_URL :: string
  ca_Timeout :: int
  ca_DelayBefore :: int
  ca_Headers :: "strmap option"
  ca_Body :: "gobody option"
  ca_ExpectedStatus :: int

record OnFailureConfig =
  of_Calls :: "CallAction list"

record TestDefinition =
  td_Version :: string
  td_ID :: string
  td_Schedule :: string
  td_Enabled :: bool
  td_Async :: bool
  td_Retry :: RetryConfig
  td_Variables :: strmap
  td_Triggers :: "TriggerConfig list"
  td_OnFailure :: OnFailureConfig

text \<open>\<open>HTTPTriggerType\<close> and the receiver types.\<close>

definition HTTPTriggerType :: string where "HTTPTriggerType = ''http''"
definition WebhookReceiverType :: string where "WebhookReceiverType = ''webhook''"
definition ImapReceiverType :: string where "ImapReceiverType = ''imap''"
definition APIReceiverType :: string where "APIReceiverType = ''api''"

definition EffectiveType :: "TriggerConfig \<Rightarrow> string" where
  "EffectiveType t = (if tc_Type t = [] then HTTPTriggerType else tc_Type t)"

subsection \<open>Messages and results\<close>

definition zero_time :: int where "zero_time = - 62135596800 * 10 ^ 9"

record Message =
  m_RunID :: string
  m_ReceiverType :: string
  m_ReceivedAt :: int
  m_Headers :: strmap
  m_Fields :: strmap
  m_Raw :: string

definition IsZero :: "int \<Rightarrow> bool" where "IsZero t \<longleftrightarrow> t = zero_time"

datatype RunStatus = StatusPassed | StatusFailed | StatusError | StatusSkipped | StatusRunning

fun status_text :: "RunStatus \<Rightarrow> string" where
  "status_text StatusPassed = ''passed''"
| "status_text StatusFailed = ''failed''"
| "status_text StatusError = ''error''"
| "status_text StatusSkipped = ''skipped''"
| "status_text StatusRunning = ''running''"

text \<open>
  The order of severity. The receivers of a step only ever move a result up in it
  (\<open>merge_status\<close> in the orchestrator is \<open>max\<close> on the statuses that occur there).
\<close>

fun severity :: "RunStatus \<Rightarrow> nat" where
  "severity StatusSkipped = 0"
| "severity StatusRunning = 1"
| "severity StatusPassed = 2"
| "severity StatusFailed = 3"
| "severity StatusError = 4"

lemma severity_inject [simp]: "severity a = severity b \<longleftrightarrow> a = b"
  by (cases a; cases b) simp_all

instantiation RunStatus :: linorder
begin

definition less_eq_RunStatus :: "RunStatus \<Rightarrow> RunStatus \<Rightarrow> bool" where
  "less_eq_RunStatus a b \<longleftrightarrow> severity a \<le> severity b"

definition less_RunStatus :: "RunStatus \<Rightarrow> RunStatus \<Rightarrow> bool" where
  "less_RunStatus a b \<longleftrightarrow> severity a < severity b"

instance
  by standard (auto simp: less_eq_RunStatus_def less_RunStatus_def)

end

record ReceiverResult =
  rr_Type :: string
  rr_TriggerIndex :: int
  rr_Status :: RunStatus
  rr_DurationMs :: int
  rr_Error :: string
  rr_Message :: "Message option"

record TestResult =
  tr_TestID :: string
  tr_RunID :: string
  tr_Status :: RunStatus
  tr_Attempts :: nat
  tr_DurationMs :: int
  tr_Receivers :: "ReceiverResult list"
  tr_Error :: string
  tr_StartedAt :: int
  tr_FinishedAt :: int
  tr_TriggerVars :: strmap

definition is_failure :: "RunStatus \<Rightarrow> bool" where
  "is_failure s \<longleftrightarrow> s = StatusFailed \<or> s = StatusError"

subsection \<open>Libraries outside of the repository\<close>

text \<open>
  What the code takes from elsewhere, as parameters: the regular expressions of the user's
  assertions (\<open>regexp.Compile\<close> with the error text, then \<open>MatchString\<close>), gjson's path
  queries, the uuid package, the decoding of JSON to \<open>map[string]any\<close>, the shortest
  decimal form of a float (for \<open>fmt\<close> and for \<open>encoding/json\<close>, which refuses infinities), and
  the validation of a method and a URL by \<open>http.NewRequest\<close> (its error text, if it refuses), the
  decoding of a JSON array of strings and \<open>time.ParseDuration\<close>.

  A gjson result is seen through the three methods the code calls: \<open>IsArray\<close> with
  \<open>ForEach\<close> (\<open>GArray\<close>) and \<open>String\<close> (\<open>GLeaf\<close>).
\<close>

datatype gjson = GArray "gjson list" | GLeaf string

record lib =
  lib_regexp :: "string \<Rightarrow> string + (string \<Rightarrow> bool)"
  lib_gjson :: "string \<Rightarrow> string \<Rightarrow> gjson"
  lib_uuid :: "nat \<Rightarrow> string"
  lib_unmarshal :: "string \<Rightarrow> string + gobody"
  lib_float :: "64 word \<Rightarrow> string"
  lib_json_float :: "64 word \<Rightarrow> string + string"
  lib_new_request :: "string \<Rightarrow> string \<Rightarrow> string option"
  lib_unmarshal_strings :: "string \<Rightarrow> string + string list"
  lib_duration :: "string \<Rightarrow> string + int"

text \<open>A concrete library for evaluating the model on examples: plain substring search for
  regular expressions, no JSON, one fixed uuid.\<close>

definition example_lib :: lib where
  "example_lib =
     \<lparr>lib_regexp = (\<lambda>p. if p = ''('' then Inl ''missing closing )'' else Inr (\<lambda>s. Contains s p)),
      lib_gjson = (\<lambda>raw path. GLeaf []),
      lib_uuid = (\<lambda>_. ''00000000-0000-4000-8000-000000000000''),
      lib_unmarshal = (\<lambda>s. if s = ''{}'' then Inr [] else Inl ''invalid character''),
      lib_float = (\<lambda>_. ''0''),
      lib_json_float = (\<lambda>_. Inr ''0''),
      lib_new_request = (\<lambda>method url. if url = [] then Some ''empty url'' else None),
      lib_unmarshal_strings = (\<lambda>s. if s = ''[t]'' then Inr [''t''] else Inl ''invalid character''),
      lib_duration = (\<lambda>s. if s = ''2s'' then Inr 2000000000 else Inl ''invalid duration'')\<rparr>"

subsection \<open>The world of a run\<close>

record 'x world =
  draws :: entropy
  clock :: int
  outside :: 'x

text \<open>\<open>time.Now()\<close>: some time has passed since the last reading.\<close>

definition time_Now :: "'x world \<Rightarrow> int \<times> 'x world" where
  "time_Now w = (let (d, e) = draw (draws w); t = clock w + int d
                 in (t, w\<lparr>draws := e, clock := t\<rparr>))"

text \<open>\<open>time.Sleep\<close> waits for at least the given time, and not at all if it is not positive.\<close>

definition time_Sleep :: "int \<Rightarrow> 'x world \<Rightarrow> 'x world" where
  "time_Sleep d w = w\<lparr>clock := clock w + max 0 d\<rparr>"

text \<open>\<open>d.Milliseconds()\<close> truncates towards zero.\<close>

definition Milliseconds :: "int \<Rightarrow> int" where
  "Milliseconds d = sgn d * (\<bar>d\<bar> div 1000000)"

lemma outside_time_Now [simp]: "outside (snd (time_Now w)) = outside w"
  by (simp add: time_Now_def split_beta Let_def)

lemma outside_time_Sleep [simp]: "outside (time_Sleep d w) = outside w"
  by (simp add: time_Sleep_def)

lemma clock_time_Now: "fst (time_Now w) = clock (snd (time_Now w))"
  "clock w \<le> clock (snd (time_Now w))"
  by (simp_all add: time_Now_def draw_def Let_def)

lemma clock_time_Sleep: "clock w \<le> clock (time_Sleep d w)" "clock w + d \<le> clock (time_Sleep d w)"
  by (simp_all add: time_Sleep_def)

lemma Milliseconds_nonneg: "0 \<le> d \<Longrightarrow> 0 \<le> Milliseconds d"
  by (simp add: Milliseconds_def sgn_if)

text \<open>A deadline: that of a context, \<open>None\<close> where it has none (\<open>context.Background\<close>,
  \<open>context.WithoutCancel\<close>). \<open>context.WithTimeout\<close> keeps the earlier one.\<close>

type_synonym ctx = "int option"

definition WithTimeout :: "ctx \<Rightarrow> int \<Rightarrow> int \<Rightarrow> ctx" where
  "WithTimeout parent now d =
     Some (case parent of None \<Rightarrow> now + d | Some p \<Rightarrow> min p (now + d))"

end
