(* ===== verification/Generators.thy ===== *)
theory Generators
  imports Domain
begin

section \<open>The template generators: \<open>internal/pkg/template/generators\<close>\<close>

text \<open>
  A generator is one of the two implementations of the interface; the package-level registry
  is a map from names to generators that the \<open>init\<close> functions fill. \<open>Generate\<close> returns
  \<open>(result, ok)\<close> as the code does, inside an \<open>option\<close> whose \<open>None\<close> is a panic:
  \<open>rand.IntN\<close> panics on a bound that is not positive, and the bound \<open>10 ^ n\<close> is
  computed in an \<open>int\<close> of 64 bits.
\<close>

datatype Generator = RandomIntGenerator | UUIDGenerator

fun Generator_Name :: "Generator \<Rightarrow> string" where
  "Generator_Name RandomIntGenerator = ''randomInt''"
| "Generator_Name UUIDGenerator = ''uuid''"

text \<open>The loop \<open>for range n { max *= 10 }\<close>, in wrapping arithmetic.\<close>

fun mul10 :: "nat \<Rightarrow> int64 \<Rightarrow> int64" where
  "mul10 0 m = m"
| "mul10 (Suc k) m = mul10 k (m * 10)"

definition rand_IntN :: "int64 \<Rightarrow> entropy \<Rightarrow> (int \<times> entropy) option" where
  "rand_IntN m e =
     (if sint m \<le> 0 then None else let (d, e') = draw e in Some (int d mod sint m, e'))"

definition RandomInt_Generate :: "string \<Rightarrow> entropy \<Rightarrow> ((string \<times> bool) \<times> entropy) option" where
  "RandomInt_Generate args e =
     (case ParseInt64 (TrimSpace args) of
        None \<Rightarrow> Some (([], False), e)
      | Some n \<Rightarrow>
          if sint n \<le> 0 then Some (([], False), e)
          else do {
            (r, e') \<leftarrow> rand_IntN (mul10 (nat (sint n)) 1) e;
            Some ((FormatInt r, True), e')
          })"

definition UUID_Generate :: "lib \<Rightarrow> string \<Rightarrow> entropy \<Rightarrow> ((string \<times> bool) \<times> entropy) option" where
  "UUID_Generate L args e =
     (if args \<noteq> [] then Some (([], False), e)
      else let (d, e') = draw e in Some ((lib_uuid L d, True), e'))"

fun Generate ::
  "lib \<Rightarrow> Generator \<Rightarrow> string \<Rightarrow> entropy \<Rightarrow> ((string \<times> bool) \<times> entropy) option" where
  "Generate L RandomIntGenerator args e = RandomInt_Generate args e"
| "Generate L UUIDGenerator args e = UUID_Generate L args e"

type_synonym gen_registry = "(string, Generator) gomap"

definition Register :: "Generator option \<Rightarrow> gen_registry \<Rightarrow> gen_registry" where
  "Register g registry =
     (case g of None \<Rightarrow> registry | Some gen \<Rightarrow> AList.update (Generator_Name gen) gen registry)"

text \<open>The registry after the package's \<open>init\<close> functions.\<close>

definition registry :: gen_registry where
  "registry = Register (Some UUIDGenerator) (Register (Some RandomIntGenerator) [])"

definition Resolve ::
  "lib \<Rightarrow> string \<Rightarrow> string \<Rightarrow> entropy \<Rightarrow> ((string \<times> bool) \<times> entropy) option" where
  "Resolve L name args e =
     (case map_of registry name of
        None \<Rightarrow> Some (([], False), e)
      | Some g \<Rightarrow> Generate L g args e)"

subsection \<open>What the generators produce\<close>

lemma mul10_power: "mul10 k m = m * 10 ^ k"
  by (induction k arbitrary: m) (simp_all add: algebra_simps)

lemma registry_lookup:
  "map_of registry name =
     (if name = ''randomInt'' then Some RandomIntGenerator
      else if name = ''uuid'' then Some UUIDGenerator else None)"
  by (simp add: registry_def Register_def)

lemma Register_Resolve_other:
  "map_of (Register (Some g) r) name =
     (if name = Generator_Name g then Some g else map_of r name)"
  by (simp add: Register_def)

text \<open>Up to eighteen digits the bound is the power of ten; at nineteen it has wrapped to a
  negative number, and from sixty-four on it is zero.\<close>

lemma sint_power10:
  assumes "k \<le> 18"
  shows "sint ((10 :: int64) ^ k) = 10 ^ k"
proof -
  have "(10 :: int) ^ k \<le> 10 ^ 18" using assms by (intro power_increasing) simp_all
  then have "sint (word_of_int (10 ^ k) :: int64) = 10 ^ k"
    by (intro sint_word_of_int64) (simp_all add: order_trans [of _ 0])
  then show ?thesis by simp
qed

lemma power10_zero:
  assumes "64 \<le> k"
  shows "(10 :: int64) ^ k = 0"
proof -
  have "(10 :: int64) ^ k = 2 ^ k * 5 ^ k"
    by (simp flip: power_mult_distrib)
  moreover have "(2 :: int64) ^ k = 0" using assms by simp
  ultimately show ?thesis by simp
qed

lemma power10_19_negative: "sint ((10 :: int64) ^ 19) < 0"
  by simp

lemma RandomInt_number:
  assumes "sint (n :: int64) = int k" and "0 < k"
  shows "RandomInt_Generate (FormatInt (int k)) e =
     do { (r, e') \<leftarrow> rand_IntN (10 ^ k) e; Some ((FormatInt r, True), e') }"
  using assms ParseInt64_FormatInt [of n] by (simp add: RandomInt_Generate_def mul10_power)

lemma int64_of_nat: "int k < 2 ^ 63 \<Longrightarrow> sint (word_of_int (int k) :: int64) = int k"
  by (rule sint_word_of_int64) simp_all

lemma RandomInt_in_range:
  assumes "1 \<le> k" and "k \<le> 18"
  shows "\<exists>r e'. RandomInt_Generate (FormatInt (int k)) e = Some ((FormatInt r, True), e')
            \<and> 0 \<le> r \<and> r < 10 ^ k"
proof -
  from assms have "int k < 2 ^ 63" by simp
  note num = RandomInt_number [OF int64_of_nat [OF this]]
  from assms(2) have "sint ((10 :: int64) ^ k) = 10 ^ k" by (rule sint_power10)
  with assms(1) num show ?thesis
    by (simp add: rand_IntN_def split_beta not_le)
qed

lemma RandomInt_panics:
  assumes "k = 19 \<or> (64 \<le> k \<and> int k < 2 ^ 63)"
  shows "RandomInt_Generate (FormatInt (int k)) e = None"
proof -
  from assms have "int k < 2 ^ 63" and k: "0 < k" by auto
  note num = RandomInt_number [OF int64_of_nat [OF this(1)] k]
  from assms have "sint ((10 :: int64) ^ k) \<le> 0"
    using power10_19_negative power10_zero by auto
  with num show ?thesis by (simp add: rand_IntN_def)
qed

lemma UUID_total: "UUID_Generate L args e \<noteq> None"
  by (auto simp: UUID_Generate_def split_beta)

lemma Resolve_unknown:
  "name \<noteq> ''randomInt'' \<Longrightarrow> name \<noteq> ''uuid'' \<Longrightarrow> Resolve L name args e = Some (([], False), e)"
  by (simp add: Resolve_def registry_lookup)

end
