(* ===== verification/Template.thy ===== *)
theory Template
  imports Generators
begin

section \<open>The template engine: \<open>internal/pkg/template/template.go\<close>\<close>

text \<open>
  A template goes through three phases: the increment and decrement operators, which write
  the variable map; the placeholders of the variables, in the iteration order of the map; the
  generators. The regular expressions of the file are matchers: none of them needs
  backtracking, because the character after each repetition is outside of the repeated class.

  \<open>ReplaceString\<close> returns the text, the variable map after the operators and the rest of
  the draws, or \<open>None\<close> where a generator panics. The variable map is never \<open>nil\<close> where
  the program calls it.
\<close>

subsection \<open>Matchers\<close>

definition lbraces :: string where "lbraces = ''{{''"
definition rbraces :: string where "rbraces = ''}}''"

definition is_word :: "char \<Rightarrow> bool" where
  "is_word c \<longleftrightarrow> (let n = (of_char c :: nat) in
     (48 \<le> n \<and> n \<le> 57) \<or> (65 \<le> n \<and> n \<le> 90) \<or> n = 95 \<or> (97 \<le> n \<and> n \<le> 122))"

text \<open>\<open>\([^)]*\)\}\}\<close> after an opening \<open>pre\<close>.\<close>

definition call_match :: "string \<Rightarrow> string \<Rightarrow> (string \<times> string) option" where
  "call_match pre s = do {
     r1 \<leftarrow> strip_prefix (pre @ ''('') s;
     let args = takeWhile (\<lambda>c. c \<noteq> CHR '')'') r1;
     _ \<leftarrow> strip_prefix ('')'' @ rbraces) (dropWhile (\<lambda>c. c \<noteq> CHR '')'') r1);
     Some (args, pre @ ''('' @ args @ '')'' @ rbraces)
   }"

definition incrementRegex :: "string \<Rightarrow> (string \<times> string) option" where
  "incrementRegex = call_match (lbraces @ ''++'')"

definition decrementRegex :: "string \<Rightarrow> (string \<times> string) option" where
  "decrementRegex = call_match (lbraces @ ''--'')"

definition generatorRegex :: "string \<Rightarrow> ((string \<times> string) \<times> string) option" where
  "generatorRegex s = do {
     r1 \<leftarrow> strip_prefix lbraces s;
     let name = takeWhile is_word r1;
     (args, tx) \<leftarrow> (if name = [] then None else call_match (lbraces @ name) s);
     Some ((name, args), tx)
   }"

definition placeholderRegex :: "string \<Rightarrow> bool" where
  "placeholderRegex s =
     (case strip_prefix lbraces s of
        None \<Rightarrow> False
      | Some r \<Rightarrow> HasPrefix (dropWhile (\<lambda>c. c \<noteq> CHR ''{'' \<and> c \<noteq> CHR ''}'') r) rbraces)"

subsection \<open>The engine\<close>

type_synonym varmap = strmap

definition parseVarInt :: "string \<Rightarrow> int64 option" where
  "parseVarInt s = ParseInt64 (TrimSpace s)"

definition increment_func ::
  "int64 \<Rightarrow> string \<Rightarrow> string \<Rightarrow> varmap \<Rightarrow> (string \<times> varmap) option" where
  "increment_func delta sub matched vars =
     (let name = TrimSpace sub;
          cur = (case map_of vars name of
                   None \<Rightarrow> Some 0
                 | Some raw \<Rightarrow> parseVarInt raw)
      in case cur of
           None \<Rightarrow> Some (matched, vars)
         | Some n \<Rightarrow> let v = FormatInt (sint (n + delta)) in Some (v, AList.update name v vars))"

definition replaceIncrements ::
  "string \<Rightarrow> varmap \<Rightarrow> (string \<Rightarrow> (string \<times> string) option) \<Rightarrow> int64 \<Rightarrow> (string \<times> varmap) option" where
  "replaceIncrements s vars re delta = re_replace (increment_func delta) (re_tokens re s) vars"

definition resolveIncrements :: "string \<Rightarrow> varmap \<Rightarrow> (string \<times> varmap) option" where
  "resolveIncrements s vars = do {
     (s1, vars1) \<leftarrow> replaceIncrements s vars incrementRegex 1;
     replaceIncrements s1 vars1 decrementRegex (-1)
   }"

definition generator_func ::
  "lib \<Rightarrow> string \<times> string \<Rightarrow> string \<Rightarrow> entropy \<Rightarrow> (string \<times> entropy) option" where
  "generator_func L sub matched e = do {
     ((result, generated), e') \<leftarrow> Resolve L (fst sub) (snd sub) e;
     Some (if generated then result else matched, e')
   }"

definition resolveGenerators :: "lib \<Rightarrow> string \<Rightarrow> entropy \<Rightarrow> (string \<times> entropy) option" where
  "resolveGenerators L s e = re_replace (generator_func L) (re_tokens generatorRegex s) e"

fun substitute :: "(string \<times> string) list \<Rightarrow> string \<Rightarrow> string" where
  "substitute [] s = s"
| "substitute ((k, v) # vs) s = substitute vs (ReplaceAll s (lbraces @ k @ rbraces) v)"

definition ReplaceString ::
  "lib \<Rightarrow> string \<Rightarrow> varmap \<Rightarrow> entropy \<Rightarrow> (string \<times> varmap \<times> entropy) option" where
  "ReplaceString L s vars e = do {
     (s1, vars1) \<leftarrow> resolveIncrements s vars;
     let (ord, e1) = go_range vars1 e;
     (s2, e2) \<leftarrow> resolveGenerators L (substitute ord s1) e1;
     Some (s2, vars1, e2)
   }"

fun HasUnresolved :: "string \<Rightarrow> bool" where
  "HasUnresolved [] = False"
| "HasUnresolved (c # s) = (placeholderRegex (c # s) \<or> HasUnresolved s)"

fun ReplaceHeaders_loop ::
  "lib \<Rightarrow> (string \<times> string) list \<Rightarrow> strmap \<Rightarrow> varmap \<Rightarrow> entropy \<Rightarrow> (strmap \<times> varmap \<times> entropy) option"
  where
  "ReplaceHeaders_loop L [] res vars e = Some (res, vars, e)"
| "ReplaceHeaders_loop L ((k, v) # hs) res vars e = do {
     (v', vars1, e1) \<leftarrow> ReplaceString L v vars e;
     ReplaceHeaders_loop L hs (AList.update k v' res) vars1 e1
   }"

definition ReplaceHeaders ::
  "lib \<Rightarrow> strmap option \<Rightarrow> varmap \<Rightarrow> entropy \<Rightarrow> (strmap option \<times> varmap \<times> entropy) option" where
  "ReplaceHeaders L headers vars e =
     (case headers of
        None \<Rightarrow> Some (None, vars, e)
      | Some hs \<Rightarrow> do {
          let (ord, e1) = go_range hs e;
          (res, vars1, e2) \<leftarrow> ReplaceHeaders_loop L ord [] vars e1;
          Some (Some res, vars1, e2)
        })"

subsection \<open>Values: \<open>ReplaceMap\<close> and \<open>replaceAny\<close>\<close>

lemma size_list_mset: "mset xs = mset ys \<Longrightarrow> size_list f xs = size_list f ys"
  by (metis mset_eq_length mset_map size_list_conv_sum_list sum_mset_sum_list)

lemma size_go_range [simp]: "size_list f (fst (go_range xs e)) = size_list f xs"
  by (rule size_list_mset) (rule mset_go_range)

type_synonym 'a templated = "('a \<times> varmap \<times> entropy) option"

function (sequential) replaceAny :: "lib \<Rightarrow> goval \<Rightarrow> varmap \<Rightarrow> entropy \<Rightarrow> goval templated"
  and replaceEntries ::
    "lib \<Rightarrow> (string \<times> goval) list \<Rightarrow> gobody \<Rightarrow> varmap \<Rightarrow> entropy \<Rightarrow> gobody templated"
  and replaceAnyEntries ::
    "lib \<Rightarrow> (goval \<times> goval) list \<Rightarrow> gobody \<Rightarrow> varmap \<Rightarrow> entropy \<Rightarrow> gobody templated"
  and replaceItems :: "lib \<Rightarrow> goval list \<Rightarrow> varmap \<Rightarrow> entropy \<Rightarrow> goval list templated"
  where
  "replaceAny L (VStr s) vars e = do {
     (s', vars1, e1) \<leftarrow> ReplaceString L s vars e;
     Some (VStr s', vars1, e1)
   }"
| "replaceAny L (VMap m) vars e = do {
     (res, vars1, e1) \<leftarrow> replaceEntries L (fst (go_range m e)) [] vars (snd (go_range m e));
     Some (VMap res, vars1, e1)
   }"
| "replaceAny L (VAnyMap m) vars e = do {
     (res, vars1, e1) \<leftarrow> replaceAnyEntries L (fst (go_range m e)) [] vars (snd (go_range m e));
     Some (VMap res, vars1, e1)
   }"
| "replaceAny L (VList vs) vars e = do {
     (res, vars1, e1) \<leftarrow> replaceItems L vs vars e;
     Some (VList res, vars1, e1)
   }"
| "replaceAny L v vars e = Some (v, vars, e)"
| "replaceEntries L [] res vars e = Some (res, vars, e)"
| "replaceEntries L ((k, v) # kvs) res vars e = do {
     (v', vars1, e1) \<leftarrow> replaceAny L v vars e;
     replaceEntries L kvs (AList.update k v' res) vars1 e1
   }"
| "replaceAnyEntries L [] res vars e = Some (res, vars, e)"
| "replaceAnyEntries L ((VStr sk, v) # kvs) res vars e = do {
     (v', vars1, e1) \<leftarrow> replaceAny L v vars e;
     replaceAnyEntries L kvs (AList.update sk v' res) vars1 e1
   }"
| "replaceAnyEntries L (kv # kvs) res vars e = replaceAnyEntries L kvs res vars e"
| "replaceItems L [] vars e = Some ([], vars, e)"
| "replaceItems L (v # vs) vars e = do {
     (v', vars1, e1) \<leftarrow> replaceAny L v vars e;
     (vs', vars2, e2) \<leftarrow> replaceItems L vs vars1 e1;
     Some (v' # vs', vars2, e2)
   }"
  by pat_completeness auto
termination
  by (relation "measure (\<lambda>x. case x of
        Inl (Inl (L, v, vars, e)) \<Rightarrow> size v
      | Inl (Inr (L, kvs, res, vars, e)) \<Rightarrow> size_list (size_prod (\<lambda>_. 0) size) kvs
      | Inr (Inl (L, kvs, res, vars, e)) \<Rightarrow> size_list (size_prod size size) kvs
      | Inr (Inr (L, vs, vars, e)) \<Rightarrow> size_list size vs)") simp_all

definition ReplaceMap :: "lib \<Rightarrow> gobody option \<Rightarrow> varmap \<Rightarrow> entropy \<Rightarrow> gobody option templated" where
  "ReplaceMap L m vars e =
     (case m of
        None \<Rightarrow> Some (None, vars, e)
      | Some kvs \<Rightarrow> do {
          let (ord, e1) = go_range kvs e;
          (res, vars1, e2) \<leftarrow> replaceEntries L ord [] vars e1;
          Some (Some res, vars1, e2)
        })"

subsection \<open>Matches and the absence of matches\<close>

definition brace_free :: "string \<Rightarrow> bool" where
  "brace_free s \<longleftrightarrow> CHR ''{'' \<notin> set s \<and> CHR ''}'' \<notin> set s"

lemma brace_free_simps [simp]:
  "brace_free []"
  "brace_free (c # s) \<longleftrightarrow> c \<noteq> CHR ''{'' \<and> c \<noteq> CHR ''}'' \<and> brace_free s"
  "brace_free (s @ t) \<longleftrightarrow> brace_free s \<and> brace_free t"
  by (auto simp: brace_free_def)

lemma call_match_Some:
  assumes "call_match pre s = Some (args, tx)"
  shows "tx = pre @ ''('' @ args @ '')}}''" and "\<exists>r. s = tx @ r" and "CHR '')'' \<notin> set args"
proof -
  from assms obtain r1 r2 where s: "s = (pre @ ''('') @ r1"
    and r2: "dropWhile (\<lambda>c. c \<noteq> CHR '')'') r1 = '')}}'' @ r2"
    and args: "args = takeWhile (\<lambda>c. c \<noteq> CHR '')'') r1"
    and tx: "tx = pre @ ''('' @ args @ '')}}''"
    by (auto simp: call_match_def rbraces_def strip_prefix_Some Let_def split: Option.bind_split_asm)
  from args r2 have "r1 = args @ '')}}'' @ r2" by (metis takeWhile_dropWhile_id)
  with s tx show "\<exists>r. s = tx @ r" by simp
  show "tx = pre @ ''('' @ args @ '')}}''" by (rule tx)
  show "CHR '')'' \<notin> set args" using args set_takeWhileD by fastforce
qed

lemma call_match_at:
  assumes "CHR '')'' \<notin> set args"
  shows "call_match pre (pre @ ''('' @ args @ '')}}'' @ r) = Some (args, pre @ ''('' @ args @ '')}}'')"
proof -
  have "takeWhile (\<lambda>c. c \<noteq> CHR '')'') (args @ '')}}'' @ r) = args"
    and "dropWhile (\<lambda>c. c \<noteq> CHR '')'') (args @ '')}}'' @ r) = '')}}'' @ r"
    using assms by (simp_all add: takeWhile_append dropWhile_append)
  moreover have "strip_prefix (pre @ ''('') (pre @ ''('' @ args @ '')}}'' @ r) = Some (args @ '')}}'' @ r)"
    by (simp add: strip_prefix_Some)
  ultimately show ?thesis by (simp add: call_match_def rbraces_def)
qed

lemma generatorRegex_Some:
  assumes "generatorRegex s = Some ((name, args), tx)"
  shows "tx = ''{{'' @ name @ ''('' @ args @ '')}}''" and "\<exists>r. s = tx @ r" and "name \<noteq> []"
    and "list_all is_word name"
  using assms set_takeWhileD
  by (fastforce simp: generatorRegex_def lbraces_def list_all_iff Let_def dest: call_match_Some
      split: Option.bind_split_asm if_splits)+

lemma sound_matchers [simp]:
  "sound_matcher incrementRegex" "sound_matcher decrementRegex" "sound_matcher generatorRegex"
  using call_match_Some generatorRegex_Some
  by (fastforce simp: sound_matcher_def incrementRegex_def decrementRegex_def lbraces_def)+

text \<open>A match of one of the three starts with two opening braces, and no closing brace comes
  before the parenthesis.\<close>

definition opens_call :: "string \<Rightarrow> bool" where
  "opens_call s \<longleftrightarrow> (\<exists>name r. s = ''{{'' @ name @ ''('' @ r \<and> brace_free name \<and> CHR ''('' \<notin> set name)"

lemma is_word_not_brace: "is_word c \<Longrightarrow> c \<noteq> CHR ''{'' \<and> c \<noteq> CHR ''}'' \<and> c \<noteq> CHR ''(''"
  by (auto simp: is_word_def)

lemma call_match_opens:
  assumes "call_match (''{{'' @ name) s = Some (args, tx)" and "brace_free name" and "CHR ''('' \<notin> set name"
  shows "opens_call s"
proof -
  from call_match_Some [OF assms(1)] obtain r where "s = ''{{'' @ name @ ''('' @ r" by auto
  with assms(2,3) show ?thesis unfolding opens_call_def by blast
qed

lemma no_call_no_match:
  assumes "\<not> opens_call s"
  shows "incrementRegex s = None" and "decrementRegex s = None" and "generatorRegex s = None"
proof -
  show "incrementRegex s = None"
    using assms call_match_opens [of "''++''" s]
    by (cases "incrementRegex s") (auto simp: incrementRegex_def lbraces_def)
  show "decrementRegex s = None"
    using assms call_match_opens [of "''--''" s]
    by (cases "decrementRegex s") (auto simp: decrementRegex_def lbraces_def)
  show "generatorRegex s = None"
  proof (rule ccontr)
    assume "generatorRegex s \<noteq> None"
    then obtain name args t where g: "generatorRegex s = Some ((name, args), t)" by auto
    from generatorRegex_Some [OF g] obtain r where "s = ''{{'' @ name @ ''('' @ r" "list_all is_word name"
      by auto
    moreover from this(2) is_word_not_brace have "brace_free name" "CHR ''('' \<notin> set name"
      by (auto simp: brace_free_def list_all_iff)
    ultimately show False using assms unfolding opens_call_def by blast
  qed
qed


fun nowhere :: "(string \<Rightarrow> bool) \<Rightarrow> string \<Rightarrow> bool" where
  "nowhere P [] = True"
| "nowhere P (c # s) = (\<not> P (c # s) \<and> nowhere P s)"

lemma re_tokens_nowhere: "nowhere (\<lambda>b. mt b \<noteq> None) s \<Longrightarrow> re_tokens mt s = map Lit s"
  by (induction s) (auto split: option.splits)

lemma nowhere_mono: "nowhere P s \<Longrightarrow> (\<And>b. Q b \<Longrightarrow> P b) \<Longrightarrow> nowhere Q s"
  by (induction s) auto

lemma HasUnresolved_nowhere: "HasUnresolved s \<longleftrightarrow> \<not> nowhere placeholderRegex s"
  by (induction s) auto

lemma opens_call_brace: "opens_call (c # s) \<Longrightarrow> c = CHR ''{'' \<and> (\<exists>t. s = CHR ''{'' # t)"
  by (auto simp: opens_call_def)

lemma placeholder_brace: "placeholderRegex (c # s) \<Longrightarrow> c = CHR ''{'' \<and> (\<exists>t. s = CHR ''{'' # t)"
  by (cases s) (auto simp: placeholderRegex_def lbraces_def split: if_splits)

lemma nowhere_skip:
  assumes "\<And>c s. P (c # s) \<Longrightarrow> c = CHR ''{''" and "CHR ''{'' \<notin> set x"
  shows "nowhere P (x @ y) \<longleftrightarrow> nowhere P y"
  using assms(2) by (induction x) (auto dest: assms(1))

lemma no_call_no_tokens:
  assumes "nowhere opens_call s"
  shows "re_tokens incrementRegex s = map Lit s" and "re_tokens decrementRegex s = map Lit s"
    and "re_tokens generatorRegex s = map Lit s"
  by (rule re_tokens_nowhere, rule nowhere_mono [OF assms], use no_call_no_match in fastforce)+

subsection \<open>Templates of plain text and placeholders\<close>

datatype segment = Text string | Hole string

fun source :: "segment \<Rightarrow> string" where
  "source (Text t) = t"
| "source (Hole k) = ''{{'' @ k @ ''}}''"

definition template :: "segment list \<Rightarrow> string" where
  "template segs = concat (map source segs)"

fun plain :: "segment \<Rightarrow> bool" where
  "plain (Text t) \<longleftrightarrow> brace_free t"
| "plain (Hole k) \<longleftrightarrow> brace_free k \<and> CHR ''('' \<notin> set k"

fun fill :: "(string \<Rightarrow> string option) \<Rightarrow> segment \<Rightarrow> segment" where
  "fill m (Text t) = Text t"
| "fill m (Hole k) = (case m k of Some v \<Rightarrow> Text v | None \<Rightarrow> Hole k)"

lemma template_simps [simp]:
  "template [] = []"
  "template (Text t # segs) = t @ template segs"
  "template (Hole k # segs) = ''{{'' @ k @ ''}}'' @ template segs"
  by (simp_all add: template_def)

lemma takeWhile_hole: "brace_free k \<Longrightarrow> takeWhile (\<lambda>c. c \<noteq> CHR ''}'') (k @ ''}}'' @ r) = k"
  by (induction k) auto

lemma brace_free_append_eq:
  "brace_free k \<Longrightarrow> brace_free k' \<Longrightarrow> k @ ''}}'' @ r = k' @ ''}}'' @ r' \<Longrightarrow> k = k'"
  by (metis takeWhile_hole)

lemma hole_no_call:
  assumes "brace_free k" and "CHR ''('' \<notin> set k"
  shows "\<not> opens_call (''{{'' @ k @ ''}}'' @ r)"
proof
  assume "opens_call (''{{'' @ k @ ''}}'' @ r)"
  then obtain name r' where eq: "k @ ''}}'' @ r = name @ ''('' @ r'" and n: "brace_free name"
    by (auto simp: opens_call_def)
  from eq consider us where "k = name @ us" "us @ ''}}'' @ r = ''('' @ r'"
    | us where "name = k @ us" "''}}'' @ r = us @ ''('' @ r'"
    by (auto simp: append_eq_append_conv2)
  then show False
  proof cases
    case 1
    with assms show False by (cases us) auto
  next
    case 2
    with n show False by (cases us) auto
  qed
qed

lemma nowhere_hole:
  assumes "\<And>c s. P (c # s) \<Longrightarrow> c = CHR ''{'' \<and> (\<exists>t. s = CHR ''{'' # t)" and "brace_free k"
  shows "nowhere P (''{{'' @ k @ ''}}'' @ r) \<longleftrightarrow> \<not> P (''{{'' @ k @ ''}}'' @ r) \<and> nowhere P r"
proof -
  have "CHR ''{'' \<notin> set (k @ ''}}'')" using assms(2) by (auto simp: brace_free_def)
  then have "nowhere P ((k @ ''}}'') @ r) \<longleftrightarrow> nowhere P r"
    using assms(1) by (intro nowhere_skip) blast+
  moreover have "\<not> P (CHR ''{'' # k @ ''}}'' @ r)"
    using assms by (cases k) (auto simp: brace_free_def dest: assms(1))
  ultimately show ?thesis by auto
qed

lemmas nowhere_call_hole = nowhere_hole [of opens_call, OF opens_call_brace]
lemmas nowhere_placeholder_hole = nowhere_hole [of placeholderRegex, OF placeholder_brace]

lemma template_nowhere_call: "list_all plain segs \<Longrightarrow> nowhere opens_call (template segs)"
proof (induction segs)
  case Nil
  then show ?case by simp
next
  case (Cons g segs)
  show ?case
  proof (cases g)
    case (Text t)
    with Cons show ?thesis
      by (simp add: nowhere_skip brace_free_def opens_call_brace)
  next
    case (Hole k)
    with Cons have "nowhere opens_call (''{{'' @ k @ ''}}'' @ template segs)"
      by (subst nowhere_call_hole) (simp_all add: hole_no_call del: nowhere.simps append.simps)
    with Hole show ?thesis by simp
  qed
qed

lemma placeholder_hole: "brace_free k \<Longrightarrow> placeholderRegex (''{{'' @ k @ ''}}'' @ r)"
proof -
  assume "brace_free k"
  then have "dropWhile (\<lambda>c. c \<noteq> CHR ''{'' \<and> c \<noteq> CHR ''}'') (k @ ''}}'' @ r) = ''}}'' @ r"
    by (induction k) auto
  then show ?thesis
    by (simp add: placeholderRegex_def lbraces_def rbraces_def HasPrefix_def)
qed

lemma HasUnresolved_template:
  "list_all plain segs \<Longrightarrow> HasUnresolved (template segs) \<longleftrightarrow> (\<exists>k. Hole k \<in> set segs)"
proof (induction segs)
  case Nil
  then show ?case by simp
next
  case (Cons g segs)
  show ?case
  proof (cases g)
    case (Text t)
    with Cons show ?thesis
      by (simp add: HasUnresolved_nowhere nowhere_skip brace_free_def placeholder_brace)
  next
    case (Hole k)
    with Cons.prems have "\<not> nowhere placeholderRegex (''{{'' @ k @ ''}}'' @ template segs)"
      by (subst nowhere_placeholder_hole) (simp_all add: placeholder_hole del: nowhere.simps append.simps)
    with Hole show ?thesis by (auto simp: HasUnresolved_nowhere simp del: nowhere.simps)
  qed
qed

lemma ReplaceAll_skip:
  "CHR ''{'' \<notin> set x \<Longrightarrow>
     ReplaceAll (x @ r) (''{{'' @ k @ ''}}'') v = x @ ReplaceAll r (''{{'' @ k @ ''}}'') v"
  by (induction x) auto

lemma ReplaceAll_other_hole:
  assumes "brace_free k'" and "brace_free k" and "k' \<noteq> k"
  shows "ReplaceAll (''{{'' @ k' @ ''}}'' @ r) (''{{'' @ k @ ''}}'') v =
     ''{{'' @ k' @ ''}}'' @ ReplaceAll r (''{{'' @ k @ ''}}'') v"
proof -
  have n1: "strip_prefix (''{{'' @ k @ ''}}'') (''{{'' @ k' @ ''}}'' @ r) = None"
    using brace_free_append_eq [OF assms(1,2)] assms(3) by (auto simp: strip_prefix_None)
  have n2: "strip_prefix (''{{'' @ k @ ''}}'') (CHR ''{'' # k' @ ''}}'' @ r) = None"
    using assms(1) by (cases k') auto
  have "ReplaceAll ((k' @ ''}}'') @ r) (''{{'' @ k @ ''}}'') v =
      (k' @ ''}}'') @ ReplaceAll r (''{{'' @ k @ ''}}'') v"
    using assms(1) by (intro ReplaceAll_skip) (auto simp: brace_free_def)
  with n1 n2 show ?thesis by simp
qed

lemma ReplaceAll_fill:
  assumes "list_all plain segs" and "brace_free k" and "m k = None"
    and "\<forall>v \<in> ran m. brace_free v"
  shows "ReplaceAll (template (map (fill m) segs)) (''{{'' @ k @ ''}}'') v =
     template (map (fill (m(k \<mapsto> v))) segs)"
  using assms(1)
proof (induction segs)
  case Nil
  then show ?case by simp
next
  case (Cons g segs)
  show ?case
  proof (cases g)
    case (Text t)
    with Cons show ?thesis using ReplaceAll_skip [of t _ k v] by (simp add: brace_free_def)
  next
    case (Hole h)
    show ?thesis
    proof (cases "m h")
      case None
      have IH: "ReplaceAll (template (map (fill m) segs)) (''{{'' @ k @ ''}}'') v =
          template (map (fill (m(k \<mapsto> v))) segs)"
        using Cons by (simp del: fun_upd_apply)
      show ?thesis
      proof (cases "h = k")
        case True
        with Hole assms(3) show ?thesis
          using ReplaceAll_at [of "''{{'' @ k @ ''}}''" "template (map (fill m) segs)" v]
          by (simp only: list.map fill.simps template_simps option.case fun_upd_same append_assoc IH
              None) (simp del: fun_upd_apply)
      next
        case False
        have "brace_free h" using Hole Cons.prems by simp
        from ReplaceAll_other_hole [OF this assms(2) False] Hole None False show ?thesis
          by (simp only: list.map fill.simps template_simps option.case fun_upd_other IH
              not_False_eq_True)
      qed
    next
      case (Some w)
      with assms(4) have "brace_free w" by (auto simp: ran_def)
      moreover have "h \<noteq> k" using Some assms(3) by auto
      ultimately show ?thesis
        using Hole Cons Some ReplaceAll_skip [of w _ k v] by (simp add: brace_free_def)
    qed
  qed
qed

lemma substitute_fill:
  assumes "list_all plain segs" and "go_wf ord" and "\<forall>(k, v) \<in> set ord. brace_free k \<and> brace_free v"
    and "\<forall>v \<in> ran m. brace_free v" and "dom m \<inter> fst ` set ord = {}"
  shows "substitute ord (template (map (fill m) segs)) = template (map (fill (m ++ map_of ord)) segs)"
  using assms(2-)
proof (induction ord arbitrary: m)
  case Nil
  then show ?case by simp
next
  case (Cons kv ord)
  obtain k v where kv: "kv = (k, v)" by fastforce
  with Cons.prems have m: "m k = None" by auto
  have "ran (m(k \<mapsto> v)) \<subseteq> insert v (ran m)" by (auto simp: ran_def)
  with Cons.prems kv have "\<forall>w \<in> ran (m(k \<mapsto> v)). brace_free w" by auto
  moreover have "dom (m(k \<mapsto> v)) \<inter> fst ` set ord = {}" using Cons.prems kv by auto
  ultimately have "substitute ord (template (map (fill (m(k \<mapsto> v))) segs)) =
      template (map (fill (m(k \<mapsto> v) ++ map_of ord)) segs)"
    using Cons.prems(1,2) kv by (intro Cons.IH) (simp_all del: fun_upd_apply)
  moreover have "m(k \<mapsto> v) ++ map_of ord = m ++ map_of (kv # ord)"
    using Cons.prems kv by (simp add: map_add_upd_left dom_map_of_conv_image_fst)
  ultimately show ?case
    using ReplaceAll_fill [of segs k m v] assms(1) Cons.prems kv m
    by (simp add: lbraces_def rbraces_def del: fun_upd_apply)
qed

lemma fill_empty [simp]: "map (fill Map.empty) segs = segs"
  by (rule map_idI) (case_tac x; simp)

definition plain_vars :: "varmap \<Rightarrow> bool" where
  "plain_vars vars \<longleftrightarrow> go_wf vars \<and> (\<forall>(k, v) \<in> set vars. brace_free k \<and> brace_free v)"

lemma plain_fill:
  assumes "plain_vars vars" and "list_all plain segs"
  shows "list_all plain (map (fill (map_of vars)) segs)"
proof -
  have "plain (fill (map_of vars) g)" if "plain g" for g
    using that assms(1)
    by (cases g) (auto simp: plain_vars_def split: option.splits dest!: map_of_SomeD)
  with assms(2) show ?thesis by (simp add: list_all_iff)
qed

lemma ReplaceString_render:
  assumes "list_all plain segs" and "plain_vars vars"
  shows "ReplaceString L (template segs) vars e =
     Some (template (map (fill (map_of vars)) segs), vars, snd (go_range vars e))"
proof -
  let ?ord = "fst (go_range vars e)"
  have ord: "go_wf ?ord" "set ?ord = set vars" "map_of ?ord = map_of vars"
    using assms(2) by (simp_all add: plain_vars_def distinct_keys_go_range map_of_go_range)
  have "resolveIncrements (template segs) vars = Some (template segs, vars)"
    using no_call_no_tokens [OF template_nowhere_call [OF assms(1)]]
    by (simp add: resolveIncrements_def replaceIncrements_def)
  moreover have "substitute ?ord (template segs) = template (map (fill (map_of vars)) segs)"
    using substitute_fill [of segs ?ord Map.empty] assms ord by (simp add: plain_vars_def)
  moreover have "resolveGenerators L (template (map (fill (map_of vars)) segs)) e' =
      Some (template (map (fill (map_of vars)) segs), e')" for e'
    using no_call_no_tokens [OF template_nowhere_call [OF plain_fill [OF assms(2,1)]]]
    by (simp add: resolveGenerators_def)
  ultimately show ?thesis by (simp add: ReplaceString_def split_beta)
qed

subsection \<open>The operators\<close>

definition operator_tag :: "string \<Rightarrow> string \<Rightarrow> string" where
  "operator_tag op x = ''{{'' @ op @ ''('' @ x @ '')}}''"

text \<open>The number a variable stands for: a missing one counts as zero.\<close>

definition current_value :: "varmap \<Rightarrow> string \<Rightarrow> int64 option" where
  "current_value vars name = (case map_of vars name of None \<Rightarrow> Some 0 | Some raw \<Rightarrow> parseVarInt raw)"

fun counter_text :: "int64 \<Rightarrow> string list \<Rightarrow> string" where
  "counter_text n [] = []"
| "counter_text n (t # ts) = FormatInt (sint (n + 1)) @ t @ counter_text (n + 1) ts"

lemma re_tokens_at: "mt (t @ r) = Some (m, t) \<Longrightarrow> t \<noteq> [] \<Longrightarrow> re_tokens mt (t @ r) = Tag m t # re_tokens mt r"
  by (cases t) simp_all

lemma re_tokens_skip:
  assumes "\<And>c s. mt (c # s) \<noteq> None \<Longrightarrow> c = CHR ''{''" and "CHR ''{'' \<notin> set x"
  shows "re_tokens mt (x @ r) = map Lit x @ re_tokens mt r"
  using assms(2)
proof (induction x)
  case Nil
  then show ?case by simp
next
  case (Cons c x)
  then have "mt (c # x @ r) = None" using assms(1) [of c "x @ r"] by (metis list.set_intros(1))
  with Cons show ?case by simp
qed

lemma matchers_brace:
  "incrementRegex (c # s) \<noteq> None \<Longrightarrow> c = CHR ''{''"
  "decrementRegex (c # s) \<noteq> None \<Longrightarrow> c = CHR ''{''"
  "generatorRegex (c # s) \<noteq> None \<Longrightarrow> c = CHR ''{''"
  by (metis no_call_no_match opens_call_brace)+

lemma brace_free_tokens:
  assumes "CHR ''{'' \<notin> set s"
  shows "re_tokens incrementRegex s = map Lit s" "re_tokens decrementRegex s = map Lit s"
    "re_tokens generatorRegex s = map Lit s"
proof -
  have "nowhere opens_call s"
    using nowhere_skip [of opens_call s "[]"] assms opens_call_brace by auto
  from no_call_no_tokens [OF this]
  show "re_tokens incrementRegex s = map Lit s" "re_tokens decrementRegex s = map Lit s"
    "re_tokens generatorRegex s = map Lit s" .
qed

lemma increment_at:
  "CHR '')'' \<notin> set x \<Longrightarrow> incrementRegex (operator_tag ''++'' x @ r) = Some (x, operator_tag ''++'' x)"
  "CHR '')'' \<notin> set x \<Longrightarrow> decrementRegex (operator_tag ''--'' x @ r) = Some (x, operator_tag ''--'' x)"
  using call_match_at [of x "''{{++''" r] call_match_at [of x "''{{--''" r]
  by (simp_all add: incrementRegex_def decrementRegex_def operator_tag_def lbraces_def)

lemma increment_func_number:
  "current_value vars (TrimSpace x) = Some n \<Longrightarrow>
     increment_func d x tg vars =
       Some (FormatInt (sint (n + d)), AList.update (TrimSpace x) (FormatInt (sint (n + d))) vars)"
  by (simp add: increment_func_def current_value_def Let_def)

lemma increment_func_stuck:
  "current_value vars (TrimSpace x) = None \<Longrightarrow> increment_func d x tg vars = Some (tg, vars)"
  by (simp add: increment_func_def current_value_def Let_def)

lemma parseVarInt_FormatInt [simp]: "parseVarInt (FormatInt (sint (n :: int64))) = Some n"
  by (simp add: parseVarInt_def)

lemma current_value_update [simp]:
  "current_value (AList.update k (FormatInt (sint (n :: int64))) vars) k = Some n"
  by (simp add: current_value_def)

lemma replaceIncrements_counter:
  assumes "CHR '')'' \<notin> set x" and "list_all brace_free ts"
    and "current_value vars (TrimSpace x) = Some n"
  shows "replaceIncrements (concat (map (\<lambda>t. operator_tag ''++'' x @ t) ts)) vars incrementRegex 1 =
     Some (counter_text n ts,
       if ts = [] then vars
       else AList.update (TrimSpace x) (FormatInt (sint (n + word_of_nat (length ts)))) vars)"
  using assms(2,3)
proof (induction ts arbitrary: n vars)
  case Nil
  then show ?case by (simp add: replaceIncrements_def)
next
  case (Cons t ts)
  let ?tag = "operator_tag ''++'' x" and ?rest = "concat (map (\<lambda>t. operator_tag ''++'' x @ t) ts)"
  let ?vars = "AList.update (TrimSpace x) (FormatInt (sint (n + 1))) vars"
  have "re_tokens incrementRegex (?tag @ t @ ?rest) = Tag x ?tag # map Lit t @ re_tokens incrementRegex ?rest"
    using re_tokens_at [of incrementRegex ?tag "t @ ?rest" x] increment_at(1) [OF assms(1)]
      re_tokens_skip [where mt = incrementRegex and x = t, OF matchers_brace(1)] Cons.prems(1)
    by (simp add: operator_tag_def brace_free_def)
  moreover have "current_value ?vars (TrimSpace x) = Some (n + 1)" by simp
  note Cons.IH [OF _ this]
  ultimately show ?case
    using Cons.prems increment_func_number [of vars x n 1 ?tag]
    by (simp add: replaceIncrements_def re_replace_append algebra_simps)
qed

lemma counter_text_brace_free: "list_all brace_free ts \<Longrightarrow> brace_free (counter_text n ts)"
proof (induction n ts rule: counter_text.induct)
  case (2 n t ts)
  have "brace_free (FormatInt i)" for i
    using FormatInt_chars [of "CHR ''{''" i] FormatInt_chars [of "CHR ''}''" i]
    by (auto simp: brace_free_def is_digit_def)
  with 2 show ?case by simp
qed simp

lemma substitute_brace_free: "CHR ''{'' \<notin> set s \<Longrightarrow> substitute ord s = s"
proof (induction ord)
  case (Cons kv ord)
  then show ?case
    using ReplaceAll_skip [of s "[]"] by (cases kv) (simp add: lbraces_def rbraces_def)
qed simp

lemma ReplaceString_brace_free:
  assumes "resolveIncrements s vars = Some (s1, vars1)" and "CHR ''{'' \<notin> set s1"
  shows "ReplaceString L s vars e = Some (s1, vars1, snd (go_range vars1 e))"
  using assms brace_free_tokens [OF assms(2)]
  by (simp add: ReplaceString_def substitute_brace_free resolveGenerators_def split_beta)

lemma ReplaceString_text: "CHR ''{'' \<notin> set s \<Longrightarrow> ReplaceString L s vars e = Some (s, vars, snd (go_range vars e))"
  by (rule ReplaceString_brace_free)
    (simp_all add: resolveIncrements_def replaceIncrements_def brace_free_tokens)

lemma ReplaceString_counter:
  assumes "CHR '')'' \<notin> set x" and "list_all brace_free ts" and "ts \<noteq> []"
    and "current_value vars (TrimSpace x) = Some n"
  defines "vars' \<equiv> AList.update (TrimSpace x) (FormatInt (sint (n + word_of_nat (length ts)))) vars"
  shows "ReplaceString L (concat (map (\<lambda>t. operator_tag ''++'' x @ t) ts)) vars e =
     Some (counter_text n ts, vars', snd (go_range vars' e))"
proof (rule ReplaceString_brace_free)
  have bf: "CHR ''{'' \<notin> set (counter_text n ts)"
    using counter_text_brace_free [OF assms(2)] by (simp add: brace_free_def)
  then show "CHR ''{'' \<notin> set (counter_text n ts)" .
  show "resolveIncrements (concat (map (\<lambda>t. operator_tag ''++'' x @ t) ts)) vars = Some (counter_text n ts, vars')"
    using replaceIncrements_counter [OF assms(1,2,4)] assms(3) brace_free_tokens(2) [OF bf]
    by (simp add: resolveIncrements_def vars'_def replaceIncrements_def [of "counter_text n ts"])
qed

text \<open>An operator on a variable that is not an integer stays in the text, and the text is then
  reported as unresolved.\<close>

lemma stuck_increment:
  assumes "CHR '')'' \<notin> set x" and "current_value vars (TrimSpace x) = None"
  shows "replaceIncrements (operator_tag ''++'' x) vars incrementRegex d = Some (operator_tag ''++'' x, vars)"
  using re_tokens_at [of incrementRegex "operator_tag ''++'' x" "[]" x] increment_at(1) [OF assms(1), of "[]"]
    increment_func_stuck [OF assms(2)]
  by (simp add: replaceIncrements_def operator_tag_def)

subsection \<open>Values\<close>

text \<open>No \<open>map[any]any\<close> inside: what \<open>json.Marshal\<close> can encode.\<close>

fun string_keyed :: "goval \<Rightarrow> bool" where
  "string_keyed (VMap m) \<longleftrightarrow> (\<forall>kv \<in> set m. string_keyed (snd kv))"
| "string_keyed (VAnyMap m) \<longleftrightarrow> False"
| "string_keyed (VList vs) \<longleftrightarrow> (\<forall>v \<in> set vs. string_keyed v)"
| "string_keyed v \<longleftrightarrow> True"

lemma set_update_subset: "set (AList.update k v m) \<subseteq> insert (k, v) (set m)"
  by (induction m) auto

lemma replaceAny_string_keyed:
  "replaceAny L v vars e = Some (v', vars', e') \<Longrightarrow> string_keyed v'"
  "replaceEntries L kvs res vars e = Some (res', vars', e') \<Longrightarrow>
     \<forall>kv \<in> set res. string_keyed (snd kv) \<Longrightarrow> \<forall>kv \<in> set res'. string_keyed (snd kv)"
  "replaceAnyEntries L akvs res vars e = Some (res', vars', e') \<Longrightarrow>
     \<forall>kv \<in> set res. string_keyed (snd kv) \<Longrightarrow> \<forall>kv \<in> set res'. string_keyed (snd kv)"
  "replaceItems L vs vars e = Some (vs', vars', e') \<Longrightarrow> \<forall>v \<in> set vs'. string_keyed v"
proof (induction L v vars e and L kvs res vars e and L akvs res vars e and L vs vars e
    arbitrary: v' vars' e' and res' vars' e' and res' vars' e' and vs' vars' e'
    rule: replaceAny_replaceEntries_replaceAnyEntries_replaceItems.induct)
qed (fastforce split: Option.bind_split_asm dest: set_update_subset [THEN subsetD])+

declare lbraces_def [go_eval] rbraces_def [go_eval] call_match_def [go_eval] incrementRegex_def [go_eval]
  decrementRegex_def [go_eval] generatorRegex_def [go_eval] placeholderRegex_def [go_eval]
  parseVarInt_def [go_eval] increment_func_def [go_eval] replaceIncrements_def [go_eval]
  resolveIncrements_def [go_eval] generator_func_def [go_eval] resolveGenerators_def [go_eval]
  ReplaceString_def [go_eval] ReplaceHeaders_def [go_eval] ReplaceMap_def [go_eval] is_word_def [go_eval]
  HasPrefix_def [go_eval]

subsection \<open>What a template can change\<close>

lemma re_replace_inv:
  assumes "\<And>m tx st out st'. f m tx st = Some (out, st') \<Longrightarrow> P st \<Longrightarrow> P st'"
  shows "re_replace f ts st = Some (out, st') \<Longrightarrow> P st \<Longrightarrow> P st'"
proof (induction ts arbitrary: st out)
  case (Cons t ts)
  then show ?case using assms by (cases t) (fastforce split: Option.bind_split_asm)+
qed simp

lemma increment_func_inv:
  assumes "increment_func d x tx vars = Some (out, vars')"
  shows "go_wf vars \<Longrightarrow> go_wf vars'" and "dom (map_of vars) \<subseteq> dom (map_of vars')"
  using assms by (auto simp: increment_func_def Let_def split: option.splits)

lemma resolveIncrements_inv:
  assumes "resolveIncrements s vars = Some (s', vars')"
  shows "go_wf vars \<Longrightarrow> go_wf vars'" and "dom (map_of vars) \<subseteq> dom (map_of vars')"
proof -
  from assms obtain s1 vars1 where
    1: "re_replace (increment_func 1) (re_tokens incrementRegex s) vars = Some (s1, vars1)" and
    2: "re_replace (increment_func (-1)) (re_tokens decrementRegex s1) vars1 = Some (s', vars')"
    by (auto simp: resolveIncrements_def replaceIncrements_def split: Option.bind_split_asm)
  show "go_wf vars \<Longrightarrow> go_wf vars'"
    using re_replace_inv [where P = go_wf, OF _ 1] re_replace_inv [where P = go_wf, OF _ 2]
      increment_func_inv(1) by metis
  let ?P = "\<lambda>v. dom (map_of vars) \<subseteq> dom (map_of v)"
  have "?P vars1"
    using re_replace_inv [where P = ?P, OF _ 1] increment_func_inv(2) by blast
  then show "?P vars'"
    using re_replace_inv [where P = ?P, OF _ 2] increment_func_inv(2) by blast
qed

lemma ReplaceString_inv:
  assumes "ReplaceString L s vars e = Some (s', vars', e')"
  shows "go_wf vars \<Longrightarrow> go_wf vars'" and "dom (map_of vars) \<subseteq> dom (map_of vars')"
proof -
  from assms obtain s1 where r: "resolveIncrements s vars = Some (s1, vars')"
    by (auto simp: ReplaceString_def split_beta split: Option.bind_split_asm)
  from resolveIncrements_inv [OF r] show "go_wf vars \<Longrightarrow> go_wf vars'"
    and "dom (map_of vars) \<subseteq> dom (map_of vars')" by simp_all
qed

text \<open>Without a parenthesis in the text or in the values there is neither an operator nor a
  generator, so the call returns and leaves the variables alone.\<close>

definition paren_free :: "string \<Rightarrow> bool" where
  "paren_free s \<longleftrightarrow> CHR ''('' \<notin> set s"

definition paren_free_vars :: "varmap \<Rightarrow> bool" where
  "paren_free_vars vars \<longleftrightarrow> (\<forall>v \<in> snd ` set vars. paren_free v)"

lemma set_ReplaceAll: "set (ReplaceAll s old new) \<subseteq> set s \<union> set new"
proof (induction s old new rule: ReplaceAll.induct)
  case (2 c s old new)
  have "set (drop (length old - 1) s) \<subseteq> set s" by (rule set_drop_subset)
  with 2 show ?case by (cases "strip_prefix old (c # s)") (simp, blast, simp, blast)
qed simp

lemma paren_free_nowhere: "paren_free s \<Longrightarrow> nowhere opens_call s"
  by (induction s) (auto simp: paren_free_def opens_call_def)

lemma paren_free_substitute:
  "paren_free s \<Longrightarrow> \<forall>v \<in> snd ` set ord. paren_free v \<Longrightarrow> paren_free (substitute ord s)"
proof (induction ord arbitrary: s)
  case (Cons kv ord)
  obtain k v where kv: "kv = (k, v)" by fastforce
  with Cons.prems have "paren_free (ReplaceAll s (lbraces @ k @ rbraces) v)"
    using set_ReplaceAll [of s "lbraces @ k @ rbraces" v] by (auto simp: paren_free_def)
  with Cons kv show ?case by simp
qed simp

lemma ReplaceString_paren_free:
  assumes "paren_free s" and "paren_free_vars vars"
  shows "ReplaceString L s vars e =
      Some (substitute (fst (go_range vars e)) s, vars, snd (go_range vars e))"
    and "paren_free (substitute (fst (go_range vars e)) s)"
proof -
  show pf: "paren_free (substitute (fst (go_range vars e)) s)"
    using assms by (intro paren_free_substitute) (auto simp: paren_free_vars_def)
  have "resolveIncrements s vars = Some (s, vars)"
    using no_call_no_tokens [OF paren_free_nowhere [OF assms(1)]]
    by (simp add: resolveIncrements_def replaceIncrements_def)
  then show "ReplaceString L s vars e =
      Some (substitute (fst (go_range vars e)) s, vars, snd (go_range vars e))"
    using no_call_no_tokens [OF paren_free_nowhere [OF pf]]
    by (simp add: ReplaceString_def resolveGenerators_def split_beta)
qed

lemma replaceEntries_keys:
  "replaceEntries L kvs res vars e = Some (res', vars', e') \<Longrightarrow> fst ` set res' = fst ` set res \<union> fst ` set kvs"
proof (induction kvs arbitrary: res vars e)
  case (Cons kv kvs)
  obtain k v where kv: "kv = (k, v)" by fastforce
  with Cons.prems obtain v' vars1 e1 where
    "replaceEntries L kvs (AList.update k v' res) vars1 e1 = Some (res', vars', e')"
    by (auto split: Option.bind_split_asm)
  from Cons.IH [OF this] kv show ?case by (simp add: dom_update)
qed simp

lemma replaceEntries_wf:
  "replaceEntries L kvs res vars e = Some (res', vars', e') \<Longrightarrow> go_wf res \<Longrightarrow> go_wf res'"
proof (induction kvs arbitrary: res vars e)
  case (Cons kv kvs)
  obtain k v where kv: "kv = (k, v)" by fastforce
  with Cons.prems obtain v' vars1 e1 where
    "replaceEntries L kvs (AList.update k v' res) vars1 e1 = Some (res', vars', e')"
    by (auto split: Option.bind_split_asm)
  from Cons.IH [OF this] Cons.prems show ?case by simp
qed simp

lemma ReplaceMap_Some:
  assumes "ReplaceMap L (Some m) vars e = Some (r, vars', e')"
  obtains ord e1 res where "r = Some res" "set ord = set m"
    "replaceEntries L ord [] vars e1 = Some (res, vars', e')"
proof -
  from assms obtain res where "r = Some res"
    "replaceEntries L (fst (go_range m e)) [] vars (snd (go_range m e)) = Some (res, vars', e')"
    by (auto simp: ReplaceMap_def split_beta split: Option.bind_split_asm)
  with that [of res "fst (go_range m e)"] show thesis by simp
qed

subsection \<open>Generator tags\<close>

lemma substitute_other:
  assumes "brace_free body" and "\<forall>(k, v) \<in> set ord. brace_free k \<and> k \<noteq> body"
  shows "substitute ord (''{{'' @ body @ ''}}'') = ''{{'' @ body @ ''}}''"
  using assms(2)
proof (induction ord)
  case (Cons kv ord)
  obtain k v where kv: "kv = (k, v)" by fastforce
  with Cons.prems have k: "brace_free k" "body \<noteq> k" by auto
  have "ReplaceAll (''{{'' @ body @ ''}}'') (''{{'' @ k @ ''}}'') v = ''{{'' @ body @ ''}}''"
    using ReplaceAll_other_hole [OF assms(1) k, of "[]" v]
    by (simp only: append_Nil2 ReplaceAll.simps(1))
  with kv Cons show ?case by (simp add: lbraces_def rbraces_def del: ReplaceAll.simps append.simps)
qed simp

lemma generator_at:
  assumes "name \<noteq> []" and "list_all is_word name" and "CHR '')'' \<notin> set args"
  shows "generatorRegex (''{{'' @ name @ ''('' @ args @ '')}}'' @ r) =
     Some ((name, args), ''{{'' @ name @ ''('' @ args @ '')}}'')"
proof -
  have "\<not> is_word CHR ''(''" by (simp add: is_word_def)
  with assms(2) have "takeWhile is_word (name @ ''('' @ args @ '')}}'' @ r) = name"
    by (simp add: takeWhile_append list_all_iff)
  with assms call_match_at [of args "''{{'' @ name" r] show ?thesis
    by (simp add: generatorRegex_def lbraces_def Let_def)
qed

lemma ReplaceString_generator:
  assumes "name \<noteq> []" and "list_all is_word name" and "CHR '')'' \<notin> set args" and "brace_free args"
    and "plain_vars vars" and "map_of vars (name @ ''('' @ args @ '')'') = None"
  shows "ReplaceString L (''{{'' @ name @ ''('' @ args @ '')}}'') vars e = do {
     ((r, ok), e') \<leftarrow> Resolve L name args (snd (go_range vars e));
     Some (if ok then r else ''{{'' @ name @ ''('' @ args @ '')}}'', vars, e')
   }"
proof -
  let ?body = "name @ ''('' @ args @ '')''" and ?tag = "''{{'' @ name @ ''('' @ args @ '')}}''"
  have word: "\<not> is_word c" if "c \<in> {CHR ''{'', CHR ''}'', CHR ''+'', CHR ''-''}" for c
    using that by (auto simp: is_word_def)
  obtain c name' where nm: "name = c # name'" "is_word c" using assms(1,2) by (cases name) auto
  have bf: "brace_free ?body"
    using assms(2,4) word by (auto simp: brace_free_def list_all_iff)
  have notin: "CHR ''{'' \<notin> set (?body @ ''}}'')" using bf by (simp add: brace_free_def)
  have inc: "incrementRegex ?tag = None" "decrementRegex ?tag = None"
    using nm word by (auto simp: incrementRegex_def decrementRegex_def call_match_def lbraces_def)
  have inc2: "incrementRegex (CHR ''{'' # ?body @ ''}}'') = None" "decrementRegex (CHR ''{'' # ?body @ ''}}'') = None"
    using nm word by (auto simp: incrementRegex_def decrementRegex_def call_match_def lbraces_def)
  have "re_tokens incrementRegex ?tag = map Lit ?tag" "re_tokens decrementRegex ?tag = map Lit ?tag"
    using inc inc2 brace_free_tokens [OF notin] by simp_all
  then have 1: "resolveIncrements ?tag vars = Some (?tag, vars)"
    by (simp add: resolveIncrements_def replaceIncrements_def del: append.simps map_append)
  have "\<forall>(k, v) \<in> set (fst (go_range vars e)). brace_free k \<and> k \<noteq> ?body"
    using assms(5,6) by (fastforce simp: plain_vars_def map_of_eq_None_iff image_iff)
  then have 2: "substitute (fst (go_range vars e)) ?tag = ?tag"
    using substitute_other [OF bf] by simp
  have "re_tokens generatorRegex ?tag = [Tag (name, args) ?tag]"
    using re_tokens_at [of generatorRegex ?tag "[]" "(name, args)"] generator_at [OF assms(1-3), of "[]"]
    by simp
  with 1 2 show ?thesis
    by (simp add: ReplaceString_def resolveGenerators_def generator_func_def split_beta del: append.simps)
      (cases "Resolve L name args (snd (go_range vars e))"; simp add: split_beta)
qed

subsection \<open>Properties\<close>



text \<open>A row of increment operators on a variable writes the successive
  values of the counter, in wrapping 64-bit arithmetic, and leaves the last one in the map,
  where a later template reads it; a missing variable starts from zero.\<close>

theorem template_counter:
  assumes "CHR '')'' \<notin> set x" and "list_all brace_free ts" and "ts \<noteq> []"
    and "current_value vars (TrimSpace x) = Some n"
  shows "\<exists>vars' e'. ReplaceString L (concat (map (\<lambda>t. operator_tag ''++'' x @ t) ts)) vars e =
       Some (counter_text n ts, vars', e')
     \<and> map_of vars' = (map_of vars)(TrimSpace x \<mapsto> FormatInt (sint (n + word_of_nat (length ts))))
     \<and> current_value vars' (TrimSpace x) = Some (n + word_of_nat (length ts))"
  using ReplaceString_counter [OF assms] by simp

theorem template_counter_witness:
  "\<exists>vars' e'. ReplaceString example_lib ''{{++(c)}},{{++(c)}}.'' [(''c'', ''9223372036854775806'')] (\<lambda>_. 0) =
       Some (''9223372036854775807,-9223372036854775808.'', vars', e')"
proof -
  have n: "current_value [(''c'', ''9223372036854775806'')] (TrimSpace ''c'') = Some 9223372036854775806"
    by (simp add: TrimSpace_graph is_graph_def current_value_def parseVarInt_def ParseInt64_def Let_def
        is_digit_def digits_val_def digit_val_def)
  have d: "nat_digits 9223372036854775807 = ''9223372036854775807''"
    "nat_digits 9223372036854775808 = ''9223372036854775808''"
    by (simp_all add: nat_digits.simps digit_char_eval)
  show ?thesis
    using template_counter [OF _ _ _ n, of "['','', ''.'']" example_lib "\<lambda>_. 0"]
    by (auto simp: operator_tag_def FormatInt_def d)
qed

text \<open>An operator on a variable that exists and is not an integer
  changes neither the text nor the variables, and the text counts as unresolved.\<close>

theorem template_stuck_operator:
  assumes "CHR '')'' \<notin> set x" and "brace_free x" and "map_of vars (TrimSpace x) = Some raw"
    and "parseVarInt raw = None"
  shows "replaceIncrements (operator_tag ''++'' x) vars incrementRegex d = Some (operator_tag ''++'' x, vars)
     \<and> HasUnresolved (operator_tag ''++'' x)"
  using stuck_increment [OF assms(1), of vars d] assms(2-4) placeholder_hole [of "''++('' @ x @ '')''" "[]"]
  by (simp add: current_value_def operator_tag_def)

theorem template_stuck_operator_witness:
  "replaceIncrements ''{{++(c)}}'' [(''c'', ''abc'')] incrementRegex 1 = Some (''{{++(c)}}'', [(''c'', ''abc'')])"
proof -
  have "TrimSpace ''c'' = ''c''" "TrimSpace ''abc'' = ''abc''"
    by (simp_all add: TrimSpace_graph is_graph_def)
  then show ?thesis
    using template_stuck_operator [of "''c''" "[(''c'', ''abc'')]" "''abc''" 1]
    by (simp add: operator_tag_def parseVarInt_def ParseInt64_def is_digit_def)
qed

text \<open>\<open>{{randomInt(k)}}\<close> gives a number below \<open>10 ^ k\<close> for one
  to eighteen digits; at nineteen digits and from sixty-four on the power has wrapped around to a
  bound that is not positive, and the whole template call panics.\<close>

theorem randomInt_range_and_panic:
  assumes "plain_vars vars" and "map_of vars (''randomInt('' @ FormatInt (int k) @ '')'') = None"
  shows "let result = ReplaceString L (''{{randomInt('' @ FormatInt (int k) @ '')}}'') vars e in
     (1 \<le> k \<and> k \<le> 18 \<longrightarrow> (\<exists>r e'. result = Some (FormatInt r, vars, e') \<and> 0 \<le> r \<and> r < 10 ^ k))
     \<and> (k = 19 \<or> 64 \<le> k \<and> int k < 2 ^ 63 \<longrightarrow> result = None)"
proof -
  have w: "list_all is_word ''randomInt''" by (simp add: is_word_def)
  have p: "CHR '')'' \<notin> set (FormatInt (int k))" "brace_free (FormatInt (int k))"
    using FormatInt_only_digits by (simp_all add: brace_free_def is_digit_def)
  have reg: "map_of registry ''randomInt'' = Some RandomIntGenerator" by (simp add: registry_lookup)
  define tag where "tag = ''{{randomInt('' @ FormatInt (int k) @ '')}}''"
  have t: "''{{'' @ ''randomInt'' @ ''('' @ FormatInt (int k) @ '')}}'' = tag"
    by (simp add: tag_def)
  have r: "ReplaceString L tag vars e = do {
      ((r, ok), e') \<leftarrow> RandomInt_Generate (FormatInt (int k)) (snd (go_range vars e));
      Some (if ok then r else tag, vars, e')
    }"
    using ReplaceString_generator [OF _ w p assms(1), of L e] assms(2) reg
    unfolding t by (simp add: Resolve_def)
  show ?thesis
    unfolding tag_def [symmetric]
    using RandomInt_in_range [of k "snd (go_range vars e)"] RandomInt_panics [of k "snd (go_range vars e)"]
    by (auto simp: r Let_def)
qed

theorem randomInt_range_and_panic_witness:
  "ReplaceString example_lib ''{{randomInt(19)}}'' [] (\<lambda>_. 0) = None"
proof -
  have "FormatInt 19 = ''19''" by (simp add: FormatInt_def nat_digits.simps digit_char_eval)
  then show ?thesis
    using randomInt_range_and_panic [of "[]" 19 example_lib "\<lambda>_. 0"] by (simp add: plain_vars_def)
qed

text \<open>The generators run on the text after substitution, so
  the value of a variable is itself evaluated: a value that names a generator of nineteen digits
  makes any template that mentions the variable panic.\<close>

theorem template_value_is_evaluated:
  "ReplaceString L ''{{x}}'' [(''x'', ''{{uuid()}}'')] e = Some (lib_uuid L (e 1), [(''x'', ''{{uuid()}}'')], \<lambda>n. e (n + 2))
   \<and> ReplaceString L ''{{x}}'' [(''x'', ''{{randomInt(19)}}'')] e = None"
proof -
  have "TrimSpace ''19'' = ''19''" by (simp add: TrimSpace_graph is_graph_def)
  moreover have "ParseInt64 ''19'' = Some 19"
    by (simp add: ParseInt64_def Let_def is_digit_def digits_val_def digit_val_def)
  ultimately show ?thesis
    by (simp add: go_eval Resolve_def registry_lookup UUID_Generate_def RandomInt_Generate_def rand_IntN_def
        mul10_power draw_def Let_def)
qed

text \<open>When the value of one variable mentions another, the result
  depends on the iteration order of the Go map: the same call can leave the inner placeholder in
  the text or resolve it.\<close>

theorem template_order_matters:
  "let vars = [(''a'', ''{{b}}''), (''b'', ''1'')] in
     (\<exists>e. map_option fst (ReplaceString L ''{{a}}'' vars e) = Some ''1'')
   \<and> (\<exists>e. map_option fst (ReplaceString L ''{{a}}'' vars e) = Some ''{{b}}'')"
proof -
  let ?vars = "[(''a'', ''{{b}}''), (''b'', ''1'')]"
  have "map_option fst (ReplaceString L ''{{a}}'' ?vars (\<lambda>_. 0)) = Some ''1''"
    by (simp add: go_eval)
  moreover have "map_option fst (ReplaceString L ''{{a}}'' ?vars (\<lambda>_. 1)) = Some ''{{b}}''"
    by (simp add: go_eval go_range.simps)
  ultimately show ?thesis by (auto simp: Let_def)
qed

text \<open>\<open>ReplaceMap\<close> keeps the keys of the body, and whatever the body
  held, its result has no map with keys that are not strings, so it can be encoded as JSON; the
  entries of such maps under other keys are dropped.\<close>

theorem replaceMap_shape:
  assumes "ReplaceMap L (Some m) vars e = Some (r, vars', e')"
  shows "\<exists>res. r = Some res \<and> fst ` set res = fst ` set m \<and> go_wf res \<and> string_keyed (VMap res)"
proof -
  from assms obtain ord e1 res where r: "r = Some res" "set ord = set m"
    "replaceEntries L ord [] vars e1 = Some (res, vars', e')"
    by (rule ReplaceMap_Some)
  from replaceEntries_keys [OF r(3)] replaceEntries_wf [OF r(3)] replaceAny_string_keyed(2) [OF r(3)] r(1,2)
  show ?thesis by simp
qed

theorem replaceMap_shape_witness:
  "ReplaceMap example_lib (Some [(''a'', VAnyMap [(VInt 1, VStr ''x''), (VStr ''k'', VStr ''{{v}}'')])])
       [(''v'', ''9'')] (\<lambda>_. 0) = Some (Some [(''a'', VMap [(''k'', VStr ''9'')])], [(''v'', ''9'')], \<lambda>_. 0)
   \<and> string_keyed (VMap [(''a'', VMap [(''k'', VStr ''9'')])])"
proof -
  have ev: "ReplaceMap example_lib (Some [(''a'', VAnyMap [(VInt 1, VStr ''x''), (VStr ''k'', VStr ''{{v}}'')])])
       [(''v'', ''9'')] (\<lambda>_. 0) = Some (Some [(''a'', VMap [(''k'', VStr ''9'')])], [(''v'', ''9'')], \<lambda>_. 0)"
    by (simp add: go_eval)
  with replaceMap_shape [OF ev] show ?thesis by auto
qed

end
