(* ===== verification/Assertions.thy ===== *)
theory Assertions
  imports Template
begin

section \<open>Assertions: \<open>internal/pkg/assertion\<close>\<close>

text \<open>
  An assertion is one of the eight implementations of the interface \<open>ports.Assertion\<close>; the
  five integer comparisons share one struct with the type name inside. A factory is what
  \<open>NewDefaultRegistry\<close> registers under a type name. \<open>Assert\<close> returns the error, or
  \<open>None\<close> where the code returns \<open>nil\<close>. \<open>Run\<close> is what the triggers and the API
  receiver call: it expands the placeholders of every assertion before it is created.
\<close>

subsection \<open>\<open>util.go\<close>\<close>

definition ParseInt :: "string \<Rightarrow> int64 option" where
  "ParseInt s = ParseInt64 (TrimSpace s)"

definition CompareInts :: "string \<Rightarrow> int64 \<Rightarrow> int64 \<Rightarrow> bool \<times> string" where
  "CompareInts typ a b =
     (if typ = ''int_eq'' then (a = b, ''='')
      else if typ = ''int_gt'' then (sint b < sint a, ''>'')
      else if typ = ''int_gte'' then (sint b \<le> sint a, ''>='')
      else if typ = ''int_lt'' then (sint a < sint b, ''<'')
      else if typ = ''int_lte'' then (sint a \<le> sint b, ''<='')
      else (False, typ))"

fun WalkFind :: "gjson \<Rightarrow> string \<Rightarrow> bool"
  and WalkElems :: "gjson list \<Rightarrow> string \<Rightarrow> bool" where
  "WalkFind (GArray vs) target = WalkElems vs target"
| "WalkFind (GLeaf s) target = (s = target)"
| "WalkElems [] target = False"
| "WalkElems (v # vs) target = (if WalkFind v target then True else WalkElems vs target)"

subsection \<open>The assertions\<close>

datatype Assertion =
    EqualsAssertion string string
  | ContainsAssertion string string
  | NotContainsAssertion string string
  | PresentAssertion string
  | MatchesAssertion string "string \<Rightarrow> bool" string
  | ArrayContainsAssertion string string
  | MapContainsAssertion string string
  | LengthAssertion string string
  | IntAssertion string string string

text \<open>The start of every error of an assertion: the sentinel and the field as configured.\<close>

definition field_error :: "string \<Rightarrow> string \<Rightarrow> gerror" where
  "field_error field tx = errorf ErrValidation (''field '' @ Quote field @ '': '' @ tx)"

definition equals_Assert :: "string \<Rightarrow> string \<Rightarrow> Message \<Rightarrow> gerror option" where
  "equals_Assert field value msg =
     (let actual = go_index (m_Fields msg) (ToLower field) in
      if actual \<noteq> value
      then Some (field_error field (''expected '' @ Quote value @ '', got '' @ Quote actual))
      else None)"

definition contains_Assert :: "string \<Rightarrow> string \<Rightarrow> Message \<Rightarrow> gerror option" where
  "contains_Assert field value msg =
     (let actual = go_index (m_Fields msg) (ToLower field) in
      if \<not> Contains actual value
      then Some (field_error field (''expected to contain '' @ Quote value @ '', got '' @ Quote actual))
      else None)"

definition not_contains_Assert :: "string \<Rightarrow> string \<Rightarrow> Message \<Rightarrow> gerror option" where
  "not_contains_Assert field value msg =
     (let actual = go_index (m_Fields msg) (ToLower field) in
      if Contains actual value
      then Some (field_error field (''expected not to contain '' @ Quote value @ '', got '' @ Quote actual))
      else None)"

definition present_Assert :: "string \<Rightarrow> Message \<Rightarrow> gerror option" where
  "present_Assert field msg =
     (case map_of (m_Fields msg) (ToLower field) of
        None \<Rightarrow> Some (field_error field ''expected to be present, but was empty or missing'')
      | Some actual \<Rightarrow>
          if actual = [] then Some (field_error field ''expected to be present, but was empty or missing'')
          else None)"

definition matches_Assert :: "string \<Rightarrow> (string \<Rightarrow> bool) \<Rightarrow> string \<Rightarrow> Message \<Rightarrow> gerror option" where
  "matches_Assert field pattern raw msg =
     (let actual = go_index (m_Fields msg) (ToLower field) in
      if \<not> pattern actual
      then Some (field_error field (''expected to match pattern '' @ Quote raw @ '', got '' @ Quote actual))
      else None)"

definition array_contains_Assert :: "lib \<Rightarrow> string \<Rightarrow> string \<Rightarrow> Message \<Rightarrow> gerror option" where
  "array_contains_Assert L field value msg =
     (if \<not> WalkFind (lib_gjson L (m_Raw msg) field) value
      then Some (field_error field (''no element with value '' @ Quote value @ '' found''))
      else None)"

definition map_contains_Assert :: "lib \<Rightarrow> string \<Rightarrow> string \<Rightarrow> Message \<Rightarrow> gerror option" where
  "map_contains_Assert L field value msg =
     (if \<not> WalkFind (lib_gjson L (m_Raw msg) field) value
      then Some (field_error field (''no element with value '' @ Quote value @ '' found''))
      else None)"

definition length_Assert :: "string \<Rightarrow> string \<Rightarrow> Message \<Rightarrow> gerror option" where
  "length_Assert field value msg =
     (case map_of (m_Fields msg) (ToLower field @ ''.__len__'') of
        None \<Rightarrow> Some (field_error field ''field is not an array or does not exist'')
      | Some actualLen \<Rightarrow>
          if actualLen \<noteq> value
          then Some (field_error field (''expected length '' @ value @ '', got '' @ actualLen))
          else None)"

definition int_Assert :: "string \<Rightarrow> string \<Rightarrow> string \<Rightarrow> Message \<Rightarrow> gerror option" where
  "int_Assert field value typ msg =
     (let actual = go_index (m_Fields msg) (ToLower field) in
      case ParseInt actual of
        None \<Rightarrow> Some (field_error field (typ @ '' requires an integer field value, got '' @ Quote actual))
      | Some actualNum \<Rightarrow>
          (case ParseInt value of
             None \<Rightarrow> Some (field_error field (typ @ '' requires an integer expected value, got '' @ Quote value))
           | Some valueNum \<Rightarrow>
               (let (passes, symbol) = CompareInts typ actualNum valueNum in
                if \<not> passes
                then Some (field_error field
                       (typ @ '' failed: got '' @ FormatInt (sint actualNum) @ '', want '' @ symbol @ '' ''
                         @ FormatInt (sint valueNum)))
                else None)))"

fun Assert :: "lib \<Rightarrow> Assertion \<Rightarrow> Message \<Rightarrow> gerror option" where
  "Assert L (EqualsAssertion field value) msg = equals_Assert field value msg"
| "Assert L (ContainsAssertion field value) msg = contains_Assert field value msg"
| "Assert L (NotContainsAssertion field value) msg = not_contains_Assert field value msg"
| "Assert L (PresentAssertion field) msg = present_Assert field msg"
| "Assert L (MatchesAssertion field pattern raw) msg = matches_Assert field pattern raw msg"
| "Assert L (ArrayContainsAssertion field value) msg = array_contains_Assert L field value msg"
| "Assert L (MapContainsAssertion field value) msg = map_contains_Assert L field value msg"
| "Assert L (LengthAssertion field value) msg = length_Assert field value msg"
| "Assert L (IntAssertion field value typ) msg = int_Assert field value typ msg"

subsection \<open>The factories and their registry\<close>

type_synonym AssertionFactory = "AssertionConfig \<Rightarrow> gerror + Assertion"

definition NewEqualsAssertion :: AssertionFactory where
  "NewEqualsAssertion cfg = Inr (EqualsAssertion (ac_Field cfg) (ac_Value cfg))"

definition NewContainsAssertion :: AssertionFactory where
  "NewContainsAssertion cfg = Inr (ContainsAssertion (ac_Field cfg) (ac_Value cfg))"

definition NewNotContainsAssertion :: AssertionFactory where
  "NewNotContainsAssertion cfg = Inr (NotContainsAssertion (ac_Field cfg) (ac_Value cfg))"

definition NewPresentAssertion :: AssertionFactory where
  "NewPresentAssertion cfg = Inr (PresentAssertion (ac_Field cfg))"

definition NewMatchesAssertion :: "lib \<Rightarrow> AssertionFactory" where
  "NewMatchesAssertion L cfg =
     (case lib_regexp L (ac_Value cfg) of
        Inl err \<Rightarrow> Inl (errorf ErrConfiguration (''invalid regex pattern '' @ Quote (ac_Value cfg) @ '': '' @ err))
      | Inr pattern \<Rightarrow> Inr (MatchesAssertion (ac_Field cfg) pattern (ac_Value cfg)))"

definition NewArrayContainsAssertion :: AssertionFactory where
  "NewArrayContainsAssertion cfg = Inr (ArrayContainsAssertion (ac_Field cfg) (ac_Value cfg))"

definition NewMapContainsAssertion :: AssertionFactory where
  "NewMapContainsAssertion cfg = Inr (MapContainsAssertion (ac_Field cfg) (ac_Value cfg))"

definition NewLengthAssertion :: AssertionFactory where
  "NewLengthAssertion cfg = Inr (LengthAssertion (ac_Field cfg) (ac_Value cfg))"

text \<open>\<open>NewIntEqAssertion\<close> and its four siblings, which differ in the type name only.\<close>

definition NewIntAssertion :: "string \<Rightarrow> AssertionFactory" where
  "NewIntAssertion typ cfg = Inr (IntAssertion (ac_Field cfg) (ac_Value cfg) typ)"

type_synonym AssertionRegistry = "(string, AssertionFactory) gomap"

definition AssertionRegistry_Register ::
  "string \<Rightarrow> AssertionFactory \<Rightarrow> AssertionRegistry \<Rightarrow> AssertionRegistry" where
  "AssertionRegistry_Register typeName factory r = AList.update typeName factory r"

definition Create :: "AssertionRegistry \<Rightarrow> AssertionConfig \<Rightarrow> gerror + Assertion" where
  "Create r cfg =
     (case map_of r (ac_Type cfg) of
        Some factory \<Rightarrow> factory cfg
      | None \<Rightarrow> Inl (errorf ErrConfiguration (''unknown assertion type: '' @ Quote (ac_Type cfg))))"

definition NewDefaultRegistry :: "lib \<Rightarrow> AssertionRegistry" where
  "NewDefaultRegistry L =
     fold (\<lambda>(typeName, factory). AssertionRegistry_Register typeName factory)
       [(''equals'', NewEqualsAssertion),
        (''contains'', NewContainsAssertion),
        (''not_contains'', NewNotContainsAssertion),
        (''present'', NewPresentAssertion),
        (''matches'', NewMatchesAssertion L),
        (''array_contains'', NewArrayContainsAssertion),
        (''map_contains'', NewMapContainsAssertion),
        (''length'', NewLengthAssertion),
        (''int_eq'', NewIntAssertion ''int_eq''),
        (''int_gt'', NewIntAssertion ''int_gt''),
        (''int_gte'', NewIntAssertion ''int_gte''),
        (''int_lt'', NewIntAssertion ''int_lt''),
        (''int_lte'', NewIntAssertion ''int_lte'')] []"

text \<open>The message that \<open>Run\<close> builds for every assertion.\<close>

definition synthetic_message :: "strmap \<Rightarrow> string \<Rightarrow> Message" where
  "synthetic_message flatResp rawBody =
     \<lparr>m_RunID = [], m_ReceiverType = [], m_ReceivedAt = zero_time, m_Headers = [],
      m_Fields = flatResp, m_Raw = rawBody\<rparr>"

definition run_error :: "gerror \<Rightarrow> string \<Rightarrow> gerror" where
  "run_error err rawBody =
     errorf ErrTriggerFailed (''assertion failed: '' @ etext err @ '' | response body: '' @ rawBody)"

fun Run :: "lib \<Rightarrow> AssertionRegistry \<Rightarrow> AssertionConfig list \<Rightarrow> strmap \<Rightarrow> string \<Rightarrow> varmap \<Rightarrow> entropy
    \<Rightarrow> (gerror option \<times> varmap \<times> entropy) option" where
  "Run L r [] flatResp rawBody vars e = Some (None, vars, e)"
| "Run L r (cfg # assertions) flatResp rawBody vars e = do {
     (field, vars, e) \<leftarrow> ReplaceString L (ac_Field cfg) vars e;
     (val, vars, e) \<leftarrow> ReplaceString L (ac_Value cfg) vars e;
     case Create r (cfg\<lparr>ac_Field := field, ac_Value := val\<rparr>) of
       Inl err \<Rightarrow> Some (Some (run_error err rawBody), vars, e)
     | Inr a \<Rightarrow>
         (case Assert L a (synthetic_message flatResp rawBody) of
            Some err \<Rightarrow> Some (Some (run_error err rawBody), vars, e)
          | None \<Rightarrow> Run L r assertions flatResp rawBody vars e)
   }"

subsection \<open>One check of a message by a configured assertion\<close>

definition check :: "lib \<Rightarrow> AssertionRegistry \<Rightarrow> AssertionConfig \<Rightarrow> Message \<Rightarrow> gerror option" where
  "check L r cfg msg = (case Create r cfg of Inl err \<Rightarrow> Some err | Inr a \<Rightarrow> Assert L a msg)"

definition int_types :: "string list" where
  "int_types = [''int_eq'', ''int_gt'', ''int_gte'', ''int_lt'', ''int_lte'']"

definition assertion_types :: "string list" where
  "assertion_types =
     [''equals'', ''contains'', ''not_contains'', ''present'', ''matches'', ''array_contains'',
      ''map_contains'', ''length''] @ int_types"

lemmas factory_defs = NewEqualsAssertion_def NewContainsAssertion_def NewNotContainsAssertion_def
  NewPresentAssertion_def NewMatchesAssertion_def NewArrayContainsAssertion_def
  NewMapContainsAssertion_def NewLengthAssertion_def NewIntAssertion_def

lemmas Assert_defs = equals_Assert_def contains_Assert_def not_contains_Assert_def present_Assert_def
  matches_Assert_def array_contains_Assert_def map_contains_Assert_def length_Assert_def int_Assert_def

lemma default_lookup:
  "map_of (NewDefaultRegistry L) t =
     (if t = ''equals'' then Some NewEqualsAssertion
      else if t = ''contains'' then Some NewContainsAssertion
      else if t = ''not_contains'' then Some NewNotContainsAssertion
      else if t = ''present'' then Some NewPresentAssertion
      else if t = ''matches'' then Some (NewMatchesAssertion L)
      else if t = ''array_contains'' then Some NewArrayContainsAssertion
      else if t = ''map_contains'' then Some NewMapContainsAssertion
      else if t = ''length'' then Some NewLengthAssertion
      else if t \<in> set int_types then Some (NewIntAssertion t) else None)"
  by (simp add: NewDefaultRegistry_def AssertionRegistry_Register_def int_types_def)

lemma check_default:
  "check L (NewDefaultRegistry L) cfg msg =
     (let t = ac_Type cfg; f = ac_Field cfg; v = ac_Value cfg in
      if t = ''equals'' then equals_Assert f v msg
      else if t = ''contains'' then contains_Assert f v msg
      else if t = ''not_contains'' then not_contains_Assert f v msg
      else if t = ''present'' then present_Assert f msg
      else if t = ''matches''
        then (case lib_regexp L v of
                Inl err \<Rightarrow> Some (errorf ErrConfiguration (''invalid regex pattern '' @ Quote v @ '': '' @ err))
              | Inr p \<Rightarrow> matches_Assert f p v msg)
      else if t = ''array_contains'' then array_contains_Assert L f v msg
      else if t = ''map_contains'' then map_contains_Assert L f v msg
      else if t = ''length'' then length_Assert f v msg
      else if t \<in> set int_types then int_Assert f v t msg
      else Some (errorf ErrConfiguration (''unknown assertion type: '' @ Quote t)))"
  unfolding check_def Create_def default_lookup Let_def
  by (simp add: factory_defs split: sum.split)

lemma field_error_Is [simp]: "errors_Is (field_error f tx) s \<longleftrightarrow> s = ErrValidation"
  by (simp add: field_error_def)

lemma Assert_error: "Assert L a msg = Some err \<Longrightarrow> errors_Is err s \<longleftrightarrow> s = ErrValidation"
  by (cases a) (auto simp: Assert_defs Let_def split: option.splits if_splits prod.splits)

lemma ParseInt_FormatInt [simp]: "ParseInt (FormatInt (sint (w :: int64))) = Some w"
  by (simp add: ParseInt_def)

text \<open>The integer comparison that a type name stands for.\<close>

fun gjson_leaves :: "gjson \<Rightarrow> string list"
  and gjson_list_leaves :: "gjson list \<Rightarrow> string list" where
  "gjson_leaves (GArray vs) = gjson_list_leaves vs"
| "gjson_leaves (GLeaf s) = [s]"
| "gjson_list_leaves [] = []"
| "gjson_list_leaves (v # vs) = gjson_leaves v @ gjson_list_leaves vs"

lemma WalkFind_leaves:
  "WalkFind g x \<longleftrightarrow> x \<in> set (gjson_leaves g)"
  "WalkElems gs x \<longleftrightarrow> x \<in> set (gjson_list_leaves gs)"
  by (induction g x and gs x rule: WalkFind_WalkElems.induct) auto

text \<open>What \<open>Run\<close> does when no field and no value holds a brace: the first check that fails
  decides, and the assertions after it are not looked at.\<close>

definition no_braces :: "AssertionConfig \<Rightarrow> bool" where
  "no_braces cfg \<longleftrightarrow> CHR ''{'' \<notin> set (ac_Field cfg) \<and> CHR ''{'' \<notin> set (ac_Value cfg)"

fun first_error :: "('a \<Rightarrow> 'e option) \<Rightarrow> 'a list \<Rightarrow> 'e option" where
  "first_error f [] = None"
| "first_error f (x # xs) = (case f x of Some err \<Rightarrow> Some err | None \<Rightarrow> first_error f xs)"

lemma first_error_None: "first_error f xs = None \<longleftrightarrow> (\<forall>x \<in> set xs. f x = None)"
  by (induction xs) (auto split: option.splits)

lemma first_error_Some:
  "first_error f xs = Some err \<longleftrightarrow>
     (\<exists>a x b. xs = a @ x # b \<and> (\<forall>y \<in> set a. f y = None) \<and> f x = Some err)"
proof (induction xs)
  case Nil
  then show ?case by simp
next
  case (Cons x xs)
  show ?case
  proof (cases "f x")
    case None
    have "(\<exists>a y b. x # xs = a @ y # b \<and> (\<forall>z \<in> set a. f z = None) \<and> f y = Some err) \<longleftrightarrow>
      (\<exists>a y b. xs = a @ y # b \<and> (\<forall>z \<in> set a. f z = None) \<and> f y = Some err)" (is "?l = ?r")
    proof
      assume ?l
      then obtain a y b where "x # xs = a @ y # b" "\<forall>z \<in> set a. f z = None" "f y = Some err" by blast
      with None show ?r by (cases a) auto
    next
      assume ?r
      then obtain a y b where "xs = a @ y # b" "\<forall>z \<in> set a. f z = None" "f y = Some err" by blast
      with None show ?l by (intro exI [of _ "x # a"] exI [of _ y] exI [of _ b]) simp
    qed
    with None Cons show ?thesis by simp
  next
    case (Some e)
    have "(\<exists>a y b. x # xs = a @ y # b \<and> (\<forall>z \<in> set a. f z = None) \<and> f y = Some err) \<longleftrightarrow> e = err"
    proof
      assume "\<exists>a y b. x # xs = a @ y # b \<and> (\<forall>z \<in> set a. f z = None) \<and> f y = Some err"
      then obtain a y b where "x # xs = a @ y # b" "\<forall>z \<in> set a. f z = None" "f y = Some err" by blast
      with Some show "e = err" by (cases a) auto
    next
      assume "e = err"
      with Some show "\<exists>a y b. x # xs = a @ y # b \<and> (\<forall>z \<in> set a. f z = None) \<and> f y = Some err"
        by (intro exI [of _ "[]"] exI [of _ x] exI [of _ xs]) simp
    qed
    with Some show ?thesis by simp
  qed
qed

lemma Run_no_braces:
  assumes "list_all no_braces cfgs"
  shows "\<exists>e'. Run L r cfgs flatResp rawBody vars e =
     Some (map_option (\<lambda>err. run_error err rawBody)
             (first_error (\<lambda>cfg. check L r cfg (synthetic_message flatResp rawBody)) cfgs), vars, e')"
  using assms
proof (induction cfgs arbitrary: e)
  case Nil
  then show ?case by simp
next
  case (Cons cfg cfgs)
  from Cons.prems have b: "CHR ''{'' \<notin> set (ac_Field cfg)" "CHR ''{'' \<notin> set (ac_Value cfg)"
    by (simp_all add: no_braces_def)
  from Cons show ?case
    by (auto simp: ReplaceString_text [OF b(1)] ReplaceString_text [OF b(2)] check_def
        split: sum.splits option.splits)
qed

lemma Run_error:
  assumes "Run L r cfgs flatResp rawBody vars e = Some (Some err, vars', e')"
  shows "errors_Is err s \<longleftrightarrow> s = ErrTriggerFailed"
  using assms
  by (induction cfgs arbitrary: vars e)
    (fastforce split: Option.bind_split_asm sum.splits option.splits simp: run_error_def)+

lemma Run_total:
  assumes "paren_free_vars vars" and "\<forall>cfg \<in> set cfgs. paren_free (ac_Field cfg) \<and> paren_free (ac_Value cfg)"
  shows "\<exists>err e'. Run L r cfgs flatResp rawBody vars e = Some (err, vars, e')"
  using assms(2)
proof (induction cfgs arbitrary: e)
  case Nil
  then show ?case by simp
next
  case (Cons cfg cfgs)
  then show ?case
    using ReplaceString_paren_free(1) [OF _ assms(1)]
    by (auto split: sum.splits option.splits)
qed

subsection \<open>Properties\<close>

text \<open>On a field that prints an \<open>int64\<close> and an expected value
  that prints one, the five integer assertions are the five comparisons of the numbers; on a
  field that is no integer they all fail, as a validation error.\<close>

theorem int_assertions_compare:
  "let pass = (\<lambda>t f v msg. check L (NewDefaultRegistry L) \<lparr>ac_Type = t, ac_Field = f, ac_Value = v\<rparr> msg = None);
       value_of = (\<lambda>msg f. go_index (m_Fields msg) (ToLower f))
   in (\<forall>msg f (a :: int64) (b :: int64). value_of msg f = FormatInt (sint a) \<longrightarrow>
          (pass ''int_eq'' f (FormatInt (sint b)) msg \<longleftrightarrow> a = b)
        \<and> (pass ''int_gt'' f (FormatInt (sint b)) msg \<longleftrightarrow> sint b < sint a)
        \<and> (pass ''int_gte'' f (FormatInt (sint b)) msg \<longleftrightarrow> sint b \<le> sint a)
        \<and> (pass ''int_lt'' f (FormatInt (sint b)) msg \<longleftrightarrow> sint a < sint b)
        \<and> (pass ''int_lte'' f (FormatInt (sint b)) msg \<longleftrightarrow> sint a \<le> sint b))
    \<and> (\<forall>msg f v t. t \<in> set int_types \<longrightarrow> ParseInt (value_of msg f) = None \<longrightarrow> \<not> pass t f v msg)"
  by (auto simp: check_default int_types_def int_Assert_def CompareInts_def Let_def)

theorem int_assertions_compare_witness:
  "check example_lib (NewDefaultRegistry example_lib)
     \<lparr>ac_Type = ''int_gt'', ac_Field = ''Count'', ac_Value = FormatInt (sint (3 :: int64))\<rparr>
     \<lparr>m_RunID = [], m_ReceiverType = [], m_ReceivedAt = 0, m_Headers = [],
      m_Fields = [(''count'', FormatInt (sint (7 :: int64)))], m_Raw = []\<rparr> = None"
proof -
  have f: "ToLower ''Count'' = ''count''" by (simp add: ToLower_def lower_char_def char_of_def bit_simps)
  have s: "sint (3 :: int64) < sint (7 :: int64)" by simp
  show ?thesis
    using int_assertions_compare [of example_lib, unfolded Let_def, THEN conjunct1, rule_format,
        of "\<lparr>m_RunID = [], m_ReceiverType = [], m_ReceivedAt = 0, m_Headers = [],
      m_Fields = [(''count'', FormatInt (sint (7 :: int64)))], m_Raw = []\<rparr>" "''Count''" 7 3] s
    unfolding f by (simp add: go_index_def)
qed

text \<open>\<open>not_contains\<close> passes exactly when \<open>contains\<close> fails, and
  \<open>present\<close> passes exactly when \<open>equals\<close> with the empty value fails (a field that is missing
  reads as empty); and every assertion that reads a flat field finds it whatever the case of its
  name.\<close>

theorem assertion_complements:
  "let pass = (\<lambda>t f v. check L (NewDefaultRegistry L) \<lparr>ac_Type = t, ac_Field = f, ac_Value = v\<rparr> msg = None)
   in (pass ''not_contains'' f v \<longleftrightarrow> \<not> pass ''contains'' f v)
    \<and> (pass ''present'' f v \<longleftrightarrow> \<not> pass ''equals'' f [])
    \<and> (\<forall>t \<in> set assertion_types - {''array_contains'', ''map_contains''}.
         pass t (ToLower f) v \<longleftrightarrow> pass t f v)"
proof -
  let ?pass = "\<lambda>t f v. check L (NewDefaultRegistry L) \<lparr>ac_Type = t, ac_Field = f, ac_Value = v\<rparr> msg = None"
  have "?pass ''not_contains'' f v \<longleftrightarrow> \<not> ?pass ''contains'' f v"
    by (simp add: check_default Assert_defs Let_def)
  moreover have "?pass ''present'' f v \<longleftrightarrow> \<not> ?pass ''equals'' f []"
    by (simp add: check_default Assert_defs go_index_def Let_def split: option.split)
  moreover have "?pass t (ToLower f) v \<longleftrightarrow> ?pass t f v" if "t \<in> set assertion_types - {''array_contains'', ''map_contains''}" for t
  proof -
    have i: "int_Assert (ToLower f) v t msg = None \<longleftrightarrow> int_Assert f v t msg = None"
      by (simp add: int_Assert_def Let_def split: option.split prod.split)
    show ?thesis
      using that i by (simp add: check_default Assert_defs(1-8) Let_def split: option.split sum.split)
  qed
  ultimately show ?thesis by (simp only: Let_def) blast
qed

theorem assertion_complements_witness:
  "(check example_lib (NewDefaultRegistry example_lib)
      \<lparr>ac_Type = ''length'', ac_Field = ToLower ''Items'', ac_Value = ''2''\<rparr> (synthetic_message [] []) = None)
   = (check example_lib (NewDefaultRegistry example_lib)
      \<lparr>ac_Type = ''length'', ac_Field = ''Items'', ac_Value = ''2''\<rparr> (synthetic_message [] []) = None)"
proof -
  have "''length'' \<in> set assertion_types - {''array_contains'', ''map_contains''}"
    by (simp add: assertion_types_def)
  then show ?thesis
    using assertion_complements [of example_lib "synthetic_message [] []" "''Items''" "''2''"]
    unfolding Let_def by blast
qed

text \<open>The default registry creates an assertion for each of the
  thirteen type names and for no other; the only configuration it refuses beside an unknown
  type is a \<open>matches\<close> whose pattern does not compile, and every refusal is a configuration
  error.\<close>

theorem default_registry_complete:
  "length assertion_types = 13 \<and> distinct assertion_types
   \<and> ((\<exists>a. Create (NewDefaultRegistry L) cfg = Inr a) \<longleftrightarrow>
        ac_Type cfg \<in> set assertion_types
        \<and> (ac_Type cfg = ''matches'' \<longrightarrow> (\<exists>p. lib_regexp L (ac_Value cfg) = Inr p)))
   \<and> (\<forall>err s. Create (NewDefaultRegistry L) cfg = Inl err \<longrightarrow> errors_Is err s \<longleftrightarrow> s = ErrConfiguration)"
  unfolding Create_def default_lookup
  by (auto simp: assertion_types_def int_types_def factory_defs split: sum.splits)

theorem default_registry_complete_witness:
  "\<exists>a. Create (NewDefaultRegistry example_lib) \<lparr>ac_Type = ''matches'', ac_Field = ''f'', ac_Value = ''x''\<rparr> = Inr a"
  using default_registry_complete [of example_lib "\<lparr>ac_Type = ''matches'', ac_Field = ''f'', ac_Value = ''x''\<rparr>"]
  by (simp add: assertion_types_def example_lib_def)

text \<open>\<open>array_contains\<close> and \<open>map_contains\<close> pass exactly when the
  expected value is one of the scalars below the result of the path query, at any depth of
  nested arrays.\<close>

theorem array_contains_leaves:
  "check L (NewDefaultRegistry L) \<lparr>ac_Type = t, ac_Field = path, ac_Value = v\<rparr> msg = None \<longleftrightarrow>
     v \<in> set (gjson_leaves (lib_gjson L (m_Raw msg) path))"
  if "t = ''array_contains'' \<or> t = ''map_contains''"
  using that by (auto simp: check_default Assert_defs WalkFind_leaves Let_def)

theorem array_contains_leaves_witness:
  "check (example_lib\<lparr>lib_gjson := \<lambda>_ _. GArray [GLeaf ''a'', GArray [GLeaf ''b'']]\<rparr>)
     (NewDefaultRegistry (example_lib\<lparr>lib_gjson := \<lambda>_ _. GArray [GLeaf ''a'', GArray [GLeaf ''b'']]\<rparr>))
     \<lparr>ac_Type = ''array_contains'', ac_Field = ''p'', ac_Value = ''b''\<rparr> (synthetic_message [] []) = None"
  using array_contains_leaves [of "''array_contains''"
      "example_lib\<lparr>lib_gjson := \<lambda>_ _. GArray [GLeaf ''a'', GArray [GLeaf ''b'']]\<rparr>" "''p''" "''b''"
      "synthetic_message [] []"]
  by simp

text \<open>On assertions without braces \<open>Run\<close> succeeds exactly when every
  check passes; else its error is that of the first check that fails, wrapped as a trigger
  failure with the body appended, and the variables are as before.\<close>

theorem run_first_failure:
  assumes "list_all no_braces cfgs"
  shows "\<exists>result e'. Run L r cfgs flatResp rawBody vars e = Some (result, vars, e')
     \<and> (result = None \<longleftrightarrow> (\<forall>cfg \<in> set cfgs. check L r cfg (synthetic_message flatResp rawBody) = None))
     \<and> (\<forall>err. result = Some err \<longrightarrow> errors_Is err ErrTriggerFailed
          \<and> (\<exists>a cfg b cause. cfgs = a @ cfg # b
               \<and> (\<forall>c \<in> set a. check L r c (synthetic_message flatResp rawBody) = None)
               \<and> check L r cfg (synthetic_message flatResp rawBody) = Some cause
               \<and> err = run_error cause rawBody))"
proof -
  let ?check = "\<lambda>cfg. check L r cfg (synthetic_message flatResp rawBody)"
  from Run_no_braces [OF assms] obtain e' where
    r: "Run L r cfgs flatResp rawBody vars e =
          Some (map_option (\<lambda>err. run_error err rawBody) (first_error ?check cfgs), vars, e')" by blast
  show ?thesis
  proof (cases "first_error ?check cfgs")
    case None
    with r show ?thesis by (simp add: first_error_None)
  next
    case (Some cause)
    moreover from Some have "\<not> (\<forall>cfg \<in> set cfgs. ?check cfg = None)" by (metis first_error_None option.distinct(1))
    ultimately show ?thesis
      using r Some [unfolded first_error_Some] by (auto simp: run_error_def)
  qed
qed

theorem run_first_failure_witness:
  "\<exists>e'. Run example_lib (NewDefaultRegistry example_lib)
      [\<lparr>ac_Type = ''nope'', ac_Field = ''f'', ac_Value = ''x''\<rparr>] [] ''{}'' [] (\<lambda>_. 0) =
    Some (Some (run_error (errorf ErrConfiguration ''unknown assertion type: \"nope\"'') ''{}''), [], e')"
proof -
  let ?cfg = "\<lparr>ac_Type = ''nope'', ac_Field = ''f'', ac_Value = ''x''\<rparr>"
  have c: "check example_lib (NewDefaultRegistry example_lib) ?cfg msg =
      Some (errorf ErrConfiguration ''unknown assertion type: \"nope\"'')" for msg
    by (simp add: check_default int_types_def Quote_def quote_char_def char_of_def bit_simps)
  have l: "[?cfg] = a @ cfg # b \<longleftrightarrow> a = [] \<and> cfg = ?cfg \<and> b = []" for a cfg b
    by (cases a) auto
  have "list_all no_braces [?cfg]" by (simp add: no_braces_def)
  from run_first_failure [OF this, of example_lib "NewDefaultRegistry example_lib" "[]" "''{}''" "[]" "\<lambda>_. 0"]
  obtain result e' where run: "Run example_lib (NewDefaultRegistry example_lib) [?cfg] [] ''{}'' [] (\<lambda>_. 0) =
      Some (result, [], e')"
    and some: "result = None \<longleftrightarrow> (\<forall>cfg \<in> set [?cfg].
        check example_lib (NewDefaultRegistry example_lib) cfg (synthetic_message [] ''{}'') = None)"
    and err: "\<forall>err. result = Some err \<longrightarrow> errors_Is err ErrTriggerFailed
        \<and> (\<exists>a cfg b cause. [?cfg] = a @ cfg # b
             \<and> (\<forall>c \<in> set a. check example_lib (NewDefaultRegistry example_lib) c (synthetic_message [] ''{}'') = None)
             \<and> check example_lib (NewDefaultRegistry example_lib) cfg (synthetic_message [] ''{}'') = Some cause
             \<and> err = run_error cause ''{}'')" by blast
  from some c obtain e1 where e1: "result = Some e1" by auto
  with err l obtain cause where
    "check example_lib (NewDefaultRegistry example_lib) ?cfg (synthetic_message [] ''{}'') = Some cause"
    "e1 = run_error cause ''{}''" by metis
  with c e1 run show ?thesis by simp
qed

end
