(* ===== verification/Httputil.thy ===== *)
theory Httputil
  imports Template
begin

section \<open>Payloads: \<open>internal/pkg/httputil\<close>, and the encoders around it\<close>

text \<open>
  \<open>FlattenJSON\<close> turns a decoded body into the flat fields that assertions and extraction
  read. Beside it stand the encoders of the standard library that the trigger, the API receiver
  and the notifier call on their bodies: \<open>fmt.Sprintf("%v", v)\<close>, \<open>json.Marshal\<close> and
  \<open>url.Values.Encode\<close>; and the two structs of \<open>net/http\<close> as far as the code uses them; \<open>io.ReadAll\<close> of a response
  body gives \<open>hp_Body\<close>, and the error \<open>hp_ReadError\<close> where the connection broke.
\<close>

subsection \<open>\<open>fmt.Sprintf\<close> with the verb \<open>v\<close>\<close>

definition sort_keys :: "(string \<times> 'a) list \<Rightarrow> (string \<times> 'a) list" where
  "sort_keys m = sort_key fst m"

text \<open>A mapping with other keys than strings never gets here: \<open>replaceAny\<close> has turned it into
  one with string keys, and JSON has no such mappings (\<open>no_any_map\<close> below).\<close>

fun Sprintf_v :: "lib \<Rightarrow> goval \<Rightarrow> string" where
  "Sprintf_v L VNil = ''<nil>''"
| "Sprintf_v L (VBool b) = (if b then ''true'' else ''false'')"
| "Sprintf_v L (VInt i) = FormatInt i"
| "Sprintf_v L (VFloat x) = lib_float L x"
| "Sprintf_v L (VStr s) = s"
| "Sprintf_v L (VMap m) =
     ''map['' @ Join (map (\<lambda>(k, s). k @ '':'' @ s) (sort_keys (map (\<lambda>(k, v). (k, Sprintf_v L v)) m))) '' '' @ '']''"
| "Sprintf_v L (VAnyMap m) =
     ''map['' @ Join (map (\<lambda>(k, s). k @ '':'' @ s) (sort_keys (map (\<lambda>(k, v). (Sprintf_v L k, Sprintf_v L v)) m))) '' '' @ '']''"
| "Sprintf_v L (VList vs) = ''['' @ Join (map (Sprintf_v L) vs) '' '' @ '']''"

subsection \<open>\<open>flattenMap\<close>\<close>

text \<open>
  The order of the map decides which entry wins where two keys flatten to the same path, so the
  model goes through the entries in the order of the run. Copying a nested result into
  \<open>result\<close> does not depend on an order (\<open>go_copy\<close>).
\<close>

function (sequential) flattenMap :: "lib \<Rightarrow> string \<Rightarrow> gobody \<Rightarrow> entropy \<Rightarrow> strmap \<times> entropy"
  and flattenEntries :: "lib \<Rightarrow> string \<Rightarrow> (string \<times> goval) list \<Rightarrow> strmap \<Rightarrow> entropy \<Rightarrow> strmap \<times> entropy"
  and flattenElems :: "lib \<Rightarrow> string \<Rightarrow> nat \<Rightarrow> goval list \<Rightarrow> strmap \<Rightarrow> entropy \<Rightarrow> strmap \<times> entropy"
  where
  "flattenMap L pre m e = flattenEntries L pre (fst (go_range m e)) [] (snd (go_range m e))"
| "flattenEntries L pre [] result e = (result, e)"
| "flattenEntries L pre ((k, v) # kvs) result e =
     (let key = (if pre \<noteq> [] then pre @ ''.'' @ ToLower k else ToLower k) in
      case v of
        VMap val \<Rightarrow>
          (let (nested, e1) = flattenMap L key val e
           in flattenEntries L pre kvs (go_copy result nested) e1)
      | VList val \<Rightarrow>
          (let (result1, e1) = flattenElems L key 0 val
                 (AList.update (key @ ''.__len__'') (FormatInt (int (length val))) result) e
           in flattenEntries L pre kvs result1 e1)
      | val \<Rightarrow> flattenEntries L pre kvs (AList.update key (Sprintf_v L val) result) e)"
| "flattenElems L key i [] result e = (result, e)"
| "flattenElems L key i (elem # elems) result e =
     (let indexKey = key @ ''.'' @ FormatInt (int i) in
      case elem of
        VMap ev \<Rightarrow>
          (let (nested, e1) = flattenMap L indexKey ev e
           in flattenElems L key (Suc i) elems (go_copy result nested) e1)
      | ev \<Rightarrow> flattenElems L key (Suc i) elems (AList.update indexKey (Sprintf_v L ev) result) e)"
  by pat_completeness auto
termination
  by (relation "measures [\<lambda>x. case x of
        Inl (L, pre, m, e) \<Rightarrow> size_list (size_prod (\<lambda>_. 0) size) m
      | Inr (Inl (L, pre, kvs, result, e)) \<Rightarrow> size_list (size_prod (\<lambda>_. 0) size) kvs
      | Inr (Inr (L, key, i, elems, result, e)) \<Rightarrow> size_list size elems,
      \<lambda>x. case x of Inl _ \<Rightarrow> 1 | _ \<Rightarrow> 0]") simp_all

definition FlattenJSON :: "lib \<Rightarrow> gobody \<Rightarrow> entropy \<Rightarrow> strmap \<times> entropy" where
  "FlattenJSON L m e = flattenMap L [] m e"

subsection \<open>\<open>json.Marshal\<close>\<close>

definition byte_in :: "nat \<Rightarrow> nat \<Rightarrow> char \<Rightarrow> bool" where
  "byte_in lo hi c \<longleftrightarrow> lo \<le> (of_char c :: nat) \<and> (of_char c :: nat) \<le> hi"

abbreviation cont_byte :: "char \<Rightarrow> bool" where
  "cont_byte \<equiv> byte_in 128 191"

text \<open>The length of the UTF-8 encoding at the start of a string; 0 where there is none.\<close>

definition rune_len :: "string \<Rightarrow> nat" where
  "rune_len s =
     (case s of
        [] \<Rightarrow> 0
      | a # s1 \<Rightarrow>
          if byte_in 0 127 a then 1
          else (case s1 of
             [] \<Rightarrow> 0
           | b # s2 \<Rightarrow>
               if byte_in 194 223 a then (if cont_byte b then 2 else 0)
               else (case s2 of
                  [] \<Rightarrow> 0
                | c # s3 \<Rightarrow>
                    if byte_in 224 239 a
                    then (if byte_in (if byte_in 224 224 a then 160 else 128)
                               (if byte_in 237 237 a then 159 else 191) b \<and> cont_byte c then 3 else 0)
                    else (case s3 of
                       [] \<Rightarrow> 0
                     | d # s4 \<Rightarrow>
                         if byte_in 240 244 a
                         then (if byte_in (if byte_in 240 240 a then 144 else 128)
                                    (if byte_in 244 244 a then 143 else 191) b
                                  \<and> cont_byte c \<and> cont_byte d then 4 else 0)
                         else 0))))"

definition backslash :: char where "backslash = char_of (92 :: nat)"

text \<open>How \<open>encoding/json\<close> writes an ASCII character inside a string, with its escapes for
  HTML.\<close>

definition json_ascii :: "char \<Rightarrow> string" where
  "json_ascii c = (let n = (of_char c :: nat) in
     if n = 34 \<or> n = 92 then [backslash, c]
     else if n = 8 then [backslash, CHR ''b'']
     else if n = 12 then [backslash, CHR ''f'']
     else if n = 10 then [backslash, CHR ''n'']
     else if n = 13 then [backslash, CHR ''r'']
     else if n = 9 then [backslash, CHR ''t'']
     else if n < 32 \<or> n = 60 \<or> n = 62 \<or> n = 38
       then backslash # ''u00'' @ [hex_digit (n div 16), hex_digit (n mod 16)]
     else [c])"

function json_chars :: "string \<Rightarrow> string" where
  "json_chars [] = []"
| "json_chars (c # s) =
     (if byte_in 0 127 c then json_ascii c @ json_chars s
      else (case rune_len (c # s) of
         0 \<Rightarrow> backslash # ''ufffd'' @ json_chars s
       | Suc k \<Rightarrow>
           (let r = take (Suc k) (c # s) in
            (if r = bytes [226, 128, 168] then backslash # ''u2028''
             else if r = bytes [226, 128, 169] then backslash # ''u2029''
             else r) @ json_chars (drop k s))))"
  by pat_completeness auto
termination
  by (relation "measure length") auto

definition json_string :: "string \<Rightarrow> string" where
  "json_string s = char_of (34 :: nat) # json_chars s @ [char_of (34 :: nat)]"

fun sum_all :: "('e + 'a) list \<Rightarrow> 'e + 'a list" where
  "sum_all [] = Inr []"
| "sum_all (Inl err # xs) = Inl err"
| "sum_all (Inr x # xs) = (case sum_all xs of Inl err \<Rightarrow> Inl err | Inr ys \<Rightarrow> Inr (x # ys))"

definition json_object :: "(string \<times> (string + string)) list \<Rightarrow> string + string" where
  "json_object m =
     (case sum_all (map (\<lambda>(k, r). case r of Inl err \<Rightarrow> Inl err | Inr s \<Rightarrow> Inr (json_string k @ '':'' @ s)) (sort_keys m)) of
        Inl err \<Rightarrow> Inl err
      | Inr xs \<Rightarrow> Inr (''{'' @ Join xs '','' @ ''}''))"

fun json_Marshal :: "lib \<Rightarrow> goval \<Rightarrow> string + string" where
  "json_Marshal L VNil = Inr ''null''"
| "json_Marshal L (VBool b) = Inr (if b then ''true'' else ''false'')"
| "json_Marshal L (VInt i) = Inr (FormatInt i)"
| "json_Marshal L (VFloat x) = lib_json_float L x"
| "json_Marshal L (VStr s) = Inr (json_string s)"
| "json_Marshal L (VMap m) = json_object (map (\<lambda>(k, v). (k, json_Marshal L v)) m)"
| "json_Marshal L (VAnyMap m) = Inl ''json: unsupported type: map[interface {}]interface {}''"
| "json_Marshal L (VList vs) =
     (case sum_all (map (json_Marshal L) vs) of
        Inl err \<Rightarrow> Inl err
      | Inr xs \<Rightarrow> Inr (''['' @ Join xs '','' @ '']''))"

subsection \<open>\<open>url.Values\<close>\<close>

definition is_alnum :: "char \<Rightarrow> bool" where
  "is_alnum c \<longleftrightarrow> byte_in 48 57 c \<or> byte_in 65 90 c \<or> byte_in 97 122 c"

definition upper_hex :: "nat \<Rightarrow> char" where
  "upper_hex d = (if d < 10 then char_of (48 + d) else char_of (55 + d))"

definition escape_char :: "char \<Rightarrow> string" where
  "escape_char c =
     (if is_alnum c \<or> c \<in> set ''-_.~'' then [c]
      else if c = CHR '' '' then ''+''
      else CHR ''%'' # [upper_hex (of_char c div 16), upper_hex (of_char c mod 16)])"

definition QueryEscape :: "string \<Rightarrow> string" where
  "QueryEscape s = concat (map escape_char s)"

text \<open>\<open>form.Encode()\<close> of a form with one value for each key (\<open>form.Set\<close>).\<close>

definition form_Encode :: "strmap \<Rightarrow> string" where
  "form_Encode form = Join (map (\<lambda>(k, v). QueryEscape k @ ''='' @ QueryEscape v) (sort_keys form)) ''&''"

text \<open>The loop that fills it from a body: \<open>form.Set(k, fmt.Sprintf("%v", v))\<close>.\<close>

definition form_of_body :: "lib \<Rightarrow> gobody \<Rightarrow> strmap" where
  "form_of_body L body = map (\<lambda>(k, v). (k, Sprintf_v L v)) body"

subsection \<open>\<open>net/http\<close>\<close>

record HttpRequest =
  hq_Method :: string
  hq_URL :: string
  hq_Header :: strmap
  hq_Body :: string

record HttpResponse =
  hp_StatusCode :: int
  hp_Header :: "(string, string list) gomap"
  hp_Body :: string
  hp_ReadError :: "string option"

text \<open>\<open>http.Header\<close> writes its keys in the canonical form of MIME headers.\<close>

definition is_token_char :: "char \<Rightarrow> bool" where
  "is_token_char c \<longleftrightarrow> is_alnum c \<or> c \<in> set ''!#$%&*+-.^_|~`'' \<or> of_char c = (39 :: nat)"

definition upper_char :: "char \<Rightarrow> char" where
  "upper_char c = (if byte_in 97 122 c then char_of ((of_char c :: nat) - 32) else c)"

fun canonical_chars :: "bool \<Rightarrow> string \<Rightarrow> string" where
  "canonical_chars up [] = []"
| "canonical_chars up (c # s) =
     (if up then upper_char c else lower_char c) # canonical_chars (c = CHR ''-'') s"

definition CanonicalHeaderKey :: "string \<Rightarrow> string" where
  "CanonicalHeaderKey s = (if list_all is_token_char s then canonical_chars True s else s)"

text \<open>\<open>for k, v := range headers { req.Header.Set(k, v) }\<close>, in the order of the run.\<close>

definition set_headers :: "(string \<times> string) list \<Rightarrow> strmap" where
  "set_headers hs = fold (\<lambda>(k, v). AList.update (CanonicalHeaderKey k) v) hs []"

subsection \<open>What flattening produces\<close>

text \<open>The pairs of path and text that a body contains, in the order of the body, collisions
  included.\<close>

function (sequential) emitEntries :: "lib \<Rightarrow> string \<Rightarrow> (string \<times> goval) list \<Rightarrow> (string \<times> string) list"
  and emitElems :: "lib \<Rightarrow> string \<Rightarrow> nat \<Rightarrow> goval list \<Rightarrow> (string \<times> string) list"
  where
  "emitEntries L pre [] = []"
| "emitEntries L pre ((k, v) # kvs) =
     (let key = (if pre \<noteq> [] then pre @ ''.'' @ ToLower k else ToLower k) in
      case v of
        VMap val \<Rightarrow> emitEntries L key val
      | VList val \<Rightarrow> (key @ ''.__len__'', FormatInt (int (length val))) # emitElems L key 0 val
      | val \<Rightarrow> [(key, Sprintf_v L val)]) @ emitEntries L pre kvs"
| "emitElems L key i [] = []"
| "emitElems L key i (elem # elems) =
     (let indexKey = key @ ''.'' @ FormatInt (int i) in
      case elem of
        VMap ev \<Rightarrow> emitEntries L indexKey ev
      | ev \<Rightarrow> [(indexKey, Sprintf_v L ev)]) @ emitElems L key (Suc i) elems"
  by pat_completeness auto
termination
  by (relation "measure (\<lambda>x. case x of
        Inl (L, pre, kvs) \<Rightarrow> size_list (size_prod (\<lambda>_. 0) size) kvs
      | Inr (L, key, i, elems) \<Rightarrow> size_list size elems)") simp_all

lemma set_emitEntries_append [simp]:
  "set (emitEntries L pre (kvs @ kvs')) = set (emitEntries L pre kvs) \<union> set (emitEntries L pre kvs')"
  by (induction kvs) (auto simp: Let_def)

lemma set_emitEntries:
  "set (emitEntries L pre kvs) = (\<Union>kv \<in> set kvs. set (emitEntries L pre [kv]))"
proof (induction kvs)
  case (Cons kv kvs)
  with set_emitEntries_append [of L pre "[kv]" kvs] show ?case by (simp del: emitEntries.simps)
qed simp

lemma set_emitEntries_cong: "set kvs = set kvs' \<Longrightarrow> set (emitEntries L pre kvs) = set (emitEntries L pre kvs')"
  by (metis set_emitEntries)

text \<open>A map that has gathered a set of pairs on top of an older map: it has their keys, and
  every value it holds is one of theirs or an old one.\<close>

definition gathers :: "strmap \<Rightarrow> (string \<times> string) set \<Rightarrow> strmap \<Rightarrow> bool" where
  "gathers old em new \<longleftrightarrow>
     (go_wf old \<longrightarrow> go_wf new)
     \<and> dom (map_of new) = dom (map_of old) \<union> fst ` em
     \<and> (\<forall>k v. map_of new k = Some v \<longrightarrow> map_of old k = Some v \<or> (k, v) \<in> em)"

lemma gathers_refl [simp]: "gathers old {} old"
  by (simp add: gathers_def)

lemma gathers_trans: "gathers a em b \<Longrightarrow> gathers b em' c \<Longrightarrow> gathers a (em \<union> em') c"
proof -
  assume a: "gathers a em b" and b: "gathers b em' c"
  have "dom (map_of c) = dom (map_of a) \<union> fst ` (em \<union> em')"
    using a b by (simp add: gathers_def image_Un Un_assoc)
  moreover have "map_of a k = Some v \<or> (k, v) \<in> em \<union> em'" if "map_of c k = Some v" for k v
    using a b that by (metis UnI1 UnI2 gathers_def)
  ultimately show ?thesis using a b by (simp add: gathers_def)
qed

lemma gathers_update [simp]: "gathers old {(k, v)} (AList.update k v old)"
  by (auto simp: gathers_def)

lemma gathers_copy:
  assumes "gathers [] em nested"
  shows "gathers old em (go_copy old nested)"
proof -
  from assms have "go_wf nested" by (simp add: gathers_def)
  with assms show ?thesis
    by (auto simp: gathers_def map_of_go_copy map_add_Some_iff split: option.splits)
qed

lemma gathers_first: "gathers (AList.update k v result) E new \<Longrightarrow> gathers result (insert (k, v) E) new"
  using gathers_trans [OF gathers_update] by simp

lemma flatten_gathers:
  "gathers [] (set (emitEntries L pre m)) (fst (flattenMap L pre m e))"
  "gathers result (set (emitEntries L pre kvs)) (fst (flattenEntries L pre kvs result e))"
  "gathers result (set (emitElems L key i elems)) (fst (flattenElems L key i elems result e))"
proof (induction L pre m e and L pre kvs result e and L key i elems result e
    rule: flattenMap_flattenEntries_flattenElems.induct)
  case (1 L pre m e)
  have "set (emitEntries L pre (fst (go_range m e))) = set (emitEntries L pre m)"
    by (rule set_emitEntries_cong) simp
  with 1 show ?case by simp
next
  case (3 L pre k v kvs result e)
  let ?key = "if pre \<noteq> [] then pre @ ''.'' @ ToLower k else ToLower k"
  show ?case
  proof (cases v)
    case (VMap val)
    have "gathers result (set (emitEntries L ?key val)) (go_copy result (fst (flattenMap L ?key val e)))"
      by (rule gathers_copy) (rule 3(6) [OF refl VMap])
    from gathers_trans [OF this 3(7) [OF refl VMap refl prod.collapse]]
    show ?thesis by (simp add: VMap Let_def split_beta Un_commute)
  next
    case (VList val)
    from gathers_trans [OF gathers_first [OF 3(9) [OF refl VList]] 3(10) [OF refl VList refl prod.collapse]]
    show ?thesis by (simp add: VList Let_def split_beta)
  qed (use 3 in \<open>simp_all add: Let_def gathers_first\<close>)
next
  case (5 L key i elem elems result e)
  let ?key = "key @ ''.'' @ FormatInt (int i)"
  show ?case
  proof (cases elem)
    case (VMap ev)
    have "gathers result (set (emitEntries L ?key ev)) (go_copy result (fst (flattenMap L ?key ev e)))"
      by (rule gathers_copy) (rule 5(6) [OF refl VMap])
    from gathers_trans [OF this 5(7) [OF refl VMap refl prod.collapse]]
    show ?thesis by (simp add: VMap Let_def split_beta)
  qed (use 5 in \<open>simp_all add: Let_def gathers_first\<close>)
qed simp_all

subsection \<open>The encoders and the placeholders\<close>

lemma upper_hex_no_brace: "d < 16 \<Longrightarrow> upper_hex d \<noteq> CHR ''{''"
proof
  assume d: "d < 16" and "upper_hex d = CHR ''{''"
  then have "(of_char (upper_hex d) :: nat) = 123" by simp
  with d show False by (simp add: upper_hex_def split: if_splits)
qed

lemma escape_char_no_brace: "CHR ''{'' \<notin> set (escape_char c)"
proof -
  have "(of_char c :: nat) < 256" by simp
  then have "(of_char c :: nat) div 16 < 16" by (simp add: less_mult_imp_div_less)
  then have "CHR ''{'' \<noteq> upper_hex (of_char c div 16)" "CHR ''{'' \<noteq> upper_hex (of_char c mod 16)"
    using upper_hex_no_brace by (metis, metis mod_less_divisor zero_less_numeral)
  then show ?thesis by (auto simp: escape_char_def is_alnum_def byte_in_def)
qed

lemma QueryEscape_no_brace: "CHR ''{'' \<notin> set (QueryEscape s)"
  by (simp add: QueryEscape_def escape_char_no_brace)

lemma set_Join: "set (Join xs sep) \<subseteq> (\<Union>x \<in> set xs. set x) \<union> set sep"
  by (induction xs sep rule: Join.induct) auto

lemma form_Encode_no_brace: "CHR ''{'' \<notin> set (form_Encode form)"
proof -
  have "c \<noteq> CHR ''{''" if "c \<in> set (form_Encode form)" for c
    using that set_Join QueryEscape_no_brace
    unfolding form_Encode_def by (fastforce simp: split_beta)
  then show ?thesis by blast
qed

lemma HasUnresolved_no_brace: "CHR ''{'' \<notin> set s \<Longrightarrow> \<not> HasUnresolved s"
  by (induction s) (auto simp: placeholderRegex_def lbraces_def)

text \<open>JSON writes a printable character as itself, quotes, backslashes and the HTML characters
  apart.\<close>

definition json_plain :: "char \<Rightarrow> bool" where
  "json_plain c \<longleftrightarrow> is_graph c \<and> of_char c \<notin> {34, 92, 60, 62, 38 :: nat}"

lemma json_ascii_plain: "json_plain c \<Longrightarrow> json_ascii c = [c]"
  by (simp add: json_plain_def json_ascii_def is_graph_def Let_def)

lemma json_chars_plain: "list_all json_plain s \<Longrightarrow> json_chars (s @ t) = s @ json_chars t"
  by (induction s) (auto simp: json_ascii_plain json_plain_def is_graph_def byte_in_def)

subsection \<open>Properties\<close>

text \<open>Where no two entries of a body flatten to the same path, the flat
  fields are exactly the entries of the body, whatever the order of its maps.\<close>

theorem flatten_exact:
  assumes "distinct (map fst (emitEntries L [] m))"
  shows "go_wf (fst (FlattenJSON L m e))
     \<and> map_of (fst (FlattenJSON L m e)) = map_of (emitEntries L [] m)"
proof -
  let ?r = "fst (FlattenJSON L m e)" and ?em = "emitEntries L [] m"
  have g: "gathers [] (set ?em) ?r" unfolding FlattenJSON_def by (rule flatten_gathers)
  have "map_of ?r k = map_of ?em k" for k
  proof (cases "map_of ?r k")
    case None
    with g have "k \<notin> fst ` set ?em" by (auto simp: gathers_def domIff)
    with None show ?thesis by (metis map_of_eq_None_iff)
  next
    case (Some v)
    with g have "(k, v) \<in> set ?em" by (auto simp: gathers_def)
    with Some assms show ?thesis by (simp add: map_of_eq_Some_iff)
  qed
  with g show ?thesis by (auto simp: gathers_def)
qed

theorem flatten_exact_witness:
  "map_of (fst (FlattenJSON example_lib [(''A'', VList [VInt 5, VMap [(''b'', VStr ''x'')]])] (\<lambda>_. 0))) ''a.1.b'' = Some ''x''"
proof -
  let ?m = "[(''A'', VList [VInt 5, VMap [(''b'', VStr ''x'')]])]"
  have em: "emitEntries example_lib [] ?m =
      [(''a.__len__'', ''2''), (''a.0'', ''5''), (''a.1.b'', ''x'')]"
    by (simp add: Let_def ToLower_def lower_char_def FormatInt_def nat_digits.simps digit_char_eval
        char_of_def bit_simps)
  then have "distinct (map fst (emitEntries example_lib [] ?m))" by simp
  from flatten_exact [OF this, of "\<lambda>_. 0"] have "map_of (fst (FlattenJSON example_lib ?m (\<lambda>_. 0))) =
      map_of [(''a.__len__'', ''2''), (''a.0'', ''5''), (''a.1.b'', ''x'')]"
    unfolding em by (rule conjunct2)
  then show ?thesis by simp
qed

text \<open>Two keys that differ only in case collide, and the order of the
  map decides which value the assertions see: both outcomes are possible.\<close>

theorem flatten_collision:
  assumes "ToLower a = ToLower b"
  shows "(\<exists>e. map_of (fst (FlattenJSON L [(a, VStr x), (b, VStr y)] e)) (ToLower a) = Some x)
     \<and> (\<exists>e. map_of (fst (FlattenJSON L [(a, VStr x), (b, VStr y)] e)) (ToLower a) = Some y)"
proof -
  let ?m = "[(a, VStr x), (b, VStr y)]"
  have "\<exists>e. fst (go_range ?m e) = ord" if "mset ord = mset ?m" for ord
    using go_range_complete [OF that] .
  from this [of ?m] this [of "rev ?m"] obtain e1 e2
    where e1: "fst (go_range ?m e1) = ?m" and e2: "fst (go_range ?m e2) = rev ?m" by auto
  have "map_of (fst (FlattenJSON L ?m e1)) (ToLower a) = Some y"
    using assms by (simp add: FlattenJSON_def e1)
  moreover have "map_of (fst (FlattenJSON L ?m e2)) (ToLower a) = Some x"
    using assms by (simp add: FlattenJSON_def e2)
  ultimately show ?thesis by blast
qed

theorem flatten_collision_witness:
  "\<exists>e. map_of (fst (FlattenJSON example_lib [(''ID'', VStr ''1''), (''id'', VStr ''2'')] e)) (ToLower ''ID'') = Some ''1''"
proof -
  have "ToLower ''ID'' = ToLower ''id''" by (simp add: ToLower_def lower_char_def char_of_def bit_simps)
  from flatten_collision [OF this] show ?thesis by blast
qed

end
