(* ===== verification/Http_Trigger.thy ===== *)
theory Http_Trigger
  imports Assertions Httputil
begin

section \<open>The HTTP trigger: \<open>internal/adapters/secondary/trigger\<close>\<close>

text \<open>
  \<open>Execute\<close> renders the request of a step, sends it through the client (a field of the trigger,
  \<open>ports.HttpClient\<close> in the code) and checks the response. The variables are a map that the
  caller shares, so they come back beside the result. The outermost \<open>option\<close> is the panic
  of a template. The log lines have no model.
\<close>

type_synonym 'x HttpDo = "ctx \<Rightarrow> HttpRequest \<Rightarrow> 'x world \<Rightarrow> (string + HttpResponse) \<times> 'x world"

record 'x HTTPTrigger =
  ht_client :: "'x HttpDo"
  ht_assertions :: AssertionRegistry

definition NewHTTPTrigger ::
  "AssertionRegistry option \<Rightarrow> 'x HttpDo option \<Rightarrow> gerror + 'x HTTPTrigger" where
  "NewHTTPTrigger reg client =
     (case reg of
        None \<Rightarrow> Inl (errorf ErrConfiguration ''assertion registry is required'')
      | Some r \<Rightarrow>
          (case client of
             None \<Rightarrow> Inl (errorf ErrConfiguration ''http client is required'')
           | Some c \<Rightarrow> Inr \<lparr>ht_client = c, ht_assertions = r\<rparr>))"

definition MethodGet :: string where "MethodGet = ''GET''"

text \<open>The body of the request: \<open>isForm\<close> looks at every header whose name is
  \<open>content-type\<close> in any case.\<close>

definition isForm :: "strmap option \<Rightarrow> bool" where
  "isForm headers \<longleftrightarrow>
     (case headers of
        None \<Rightarrow> False
      | Some hs \<Rightarrow> list_ex (\<lambda>(k, v). ToLower k = ''content-type''
                      \<and> Contains (ToLower v) ''application/x-www-form-urlencoded'') hs)"

definition bodyText :: "lib \<Rightarrow> gobody option \<Rightarrow> strmap option \<Rightarrow> varmap \<Rightarrow> entropy
    \<Rightarrow> (string + string) templated" where
  "bodyText L body headers vars e =
     (case body of
        None \<Rightarrow> Some (Inr [], vars, e)
      | Some _ \<Rightarrow> do {
          (bodyMap, vars1, e1) \<leftarrow> ReplaceMap L body vars e;
          let m = (case bodyMap of None \<Rightarrow> [] | Some m \<Rightarrow> m);
          Some (if isForm headers then Inr (form_Encode (form_of_body L m)) else json_Marshal L (VMap m),
                vars1, e1)
        })"

text \<open>The first header, in the order of the run, whose value is unresolved.\<close>

definition unresolved_header :: "(string \<times> string) list \<Rightarrow> string option" where
  "unresolved_header hs = map_option fst (List.find (\<lambda>(k, v). HasUnresolved v) hs)"

definition range_headers :: "strmap option \<Rightarrow> entropy \<Rightarrow> (string \<times> string) list \<times> entropy" where
  "range_headers headers e = go_range (case headers of None \<Rightarrow> [] | Some hs \<Rightarrow> hs) e"

definition unresolvedTriggerReason ::
  "string \<Rightarrow> strmap option \<Rightarrow> string \<Rightarrow> entropy \<Rightarrow> string \<times> entropy" where
  "unresolvedTriggerReason targetURL headers body e =
     (if HasUnresolved targetURL
      then (''trigger url '' @ Quote targetURL @ '' contains an unresolved template placeholder'', e)
      else (let (hs, e1) = range_headers headers e in
        case unresolved_header hs of
          Some k \<Rightarrow> (''trigger header '' @ Quote k @ '' contains an unresolved template placeholder'', e1)
        | None \<Rightarrow>
            if HasUnresolved body
            then (''trigger body '' @ Quote body @ '' contains an unresolved template placeholder'', e1)
            else ([], e1)))"

definition sanitizeURL :: "string \<Rightarrow> string" where
  "sanitizeURL raw = before_byte raw CHR ''?''"

text \<open>The checks of the status code: the error, if there is one.\<close>

definition status_error :: "TriggerConfig \<Rightarrow> HttpResponse \<Rightarrow> gerror option" where
  "status_error def resp =
     (if tc_ExpectedStatus def \<noteq> 0 then
        if hp_StatusCode resp \<noteq> tc_ExpectedStatus def
        then Some (errorf ErrTriggerFailed
               (''expected status '' @ FormatInt (tc_ExpectedStatus def) @ '', got ''
                 @ FormatInt (hp_StatusCode resp) @ '': '' @ hp_Body resp))
        else None
      else if 400 \<le> hp_StatusCode resp
      then Some (errorf ErrTriggerFailed
             (''returned status '' @ FormatInt (hp_StatusCode resp) @ '': '' @ hp_Body resp))
      else None)"

text \<open>\<open>extracted\<close>: a variable for every path that the response has.\<close>

fun extract_vars :: "strmap \<Rightarrow> strmap \<Rightarrow> strmap" where
  "extract_vars flatResp [] = []"
| "extract_vars flatResp ((varName, jsonPath) # ext) =
     (case map_of flatResp (ToLower jsonPath) of
        Some val \<Rightarrow> (varName, val) # extract_vars flatResp ext
      | None \<Rightarrow> extract_vars flatResp ext)"

text \<open>Everything after the status check. The loop over \<open>ResponseAssertions\<close> is, statement by
  statement, the one of \<open>Registry.Run\<close>.\<close>

definition evaluate_response ::
  "lib \<Rightarrow> AssertionRegistry \<Rightarrow> TriggerConfig \<Rightarrow> HttpResponse \<Rightarrow> varmap \<Rightarrow> entropy
    \<Rightarrow> (gerror + strmap) templated" where
  "evaluate_response L r def resp vars e =
     (if tc_Extract def = [] \<and> tc_ResponseAssertions def = [] then Some (Inr [], vars, e)
      else case hp_ReadError resp of
        Some err \<Rightarrow> Some (Inl (errorf ErrTriggerFailed (''failed to read trigger response body: '' @ err)), vars, e)
      | None \<Rightarrow>
          (let rawResp = hp_Body resp in
           if TrimSpace rawResp = []
           then Some (Inl (errorf ErrTriggerFailed
                  ''extract/response_assertions configured but trigger response body is empty''), vars, e)
           else case lib_unmarshal L rawResp of
             Inl err \<Rightarrow> Some (Inl (errorf ErrTriggerFailed (''failed to parse trigger response as JSON: '' @ err)), vars, e)
           | Inr respPayload \<Rightarrow>
               (let (flatResp, e1) = FlattenJSON L respPayload e in do {
                  (err, vars1, e2) \<leftarrow> Run L r (tc_ResponseAssertions def) flatResp rawResp vars e1;
                  case err of
                    Some x \<Rightarrow> Some (Inl x, vars1, e2)
                  | None \<Rightarrow> Some (Inr (extract_vars flatResp (tc_Extract def)), vars1, e2)
                })))"

text \<open>From the rendered request on: the context of the request, the call and the response.\<close>

definition send ::
  "lib \<Rightarrow> 'x HTTPTrigger \<Rightarrow> ctx \<Rightarrow> TriggerConfig \<Rightarrow> string \<Rightarrow> strmap option \<Rightarrow> string \<Rightarrow> varmap \<Rightarrow> 'x world
    \<Rightarrow> ((gerror + strmap) \<times> varmap \<times> 'x world) option" where
  "send L t ctx def targetURL headers body vars w =
     (let mthd = (if tc_Method def = [] then MethodGet else tc_Method def);
          (reqCtx, w) =
            (if 0 < tc_Timeout def
             then let (now, w) = time_Now w in (WithTimeout ctx now (tc_Timeout def), w)
             else (ctx, w))
      in case lib_new_request L mthd targetURL of
           Some err \<Rightarrow>
             Some (Inl (errorf ErrTriggerFailed (''failed to create trigger request: '' @ err)), vars, w)
         | None \<Rightarrow>
             (let (hs, e) = range_headers headers (draws w);
                  req = \<lparr>hq_Method = mthd, hq_URL = targetURL, hq_Header = set_headers hs, hq_Body = body\<rparr>;
                  (result, w) = ht_client t reqCtx req (w\<lparr>draws := e\<rparr>)
              in case result of
                   Inl err \<Rightarrow>
                     Some (Inl (errorf ErrTriggerFailed (''HTTP request failed: '' @ err)), vars, w)
                 | Inr resp \<Rightarrow>
                     (case status_error def resp of
                        Some err \<Rightarrow> Some (Inl err, vars, w)
                      | None \<Rightarrow> do {
                          (out, vars, e) \<leftarrow> evaluate_response L (ht_assertions t) def resp vars (draws w);
                          Some (out, vars, w\<lparr>draws := e\<rparr>)
                        })))"

definition Execute ::
  "lib \<Rightarrow> 'x HTTPTrigger \<Rightarrow> ctx \<Rightarrow> TriggerConfig \<Rightarrow> string \<Rightarrow> varmap \<Rightarrow> 'x world
    \<Rightarrow> ((gerror + strmap) \<times> varmap \<times> 'x world) option" where
  "Execute L t ctx def runID vars w = do {
     let vars = AList.update ''run_id'' runID vars;
     (targetURL, vars, e) \<leftarrow> ReplaceString L (tc_URL def) vars (draws w);
     (headers, vars, e) \<leftarrow> ReplaceHeaders L (tc_Headers def) vars e;
     (body, vars, e) \<leftarrow> bodyText L (tc_Body def) headers vars e;
     case body of
       Inl err \<Rightarrow>
         Some (Inl (errorf ErrTriggerFailed (''failed to serialize trigger body: '' @ err)), vars, w\<lparr>draws := e\<rparr>)
     | Inr tx \<Rightarrow>
         (let (reason, e) = unresolvedTriggerReason targetURL headers tx e in
          if reason \<noteq> [] then Some (Inl (errorf ErrTriggerFailed reason), vars, w\<lparr>draws := e\<rparr>)
          else send L t ctx def targetURL headers tx vars (w\<lparr>draws := e\<rparr>))
   }"

subsection \<open>\<open>TriggerRegistry\<close>\<close>

text \<open>A factory per type name; \<open>'t\<close> is whatever the factories make (\<open>ports.Trigger\<close>).\<close>

type_synonym 't TriggerFactory = "strmap \<Rightarrow> gerror + 't"
type_synonym 't TriggerRegistry = "(string, 't TriggerFactory) gomap"

definition TriggerRegistry_Register ::
  "string \<Rightarrow> 't TriggerFactory \<Rightarrow> 't TriggerRegistry \<Rightarrow> 't TriggerRegistry" where
  "TriggerRegistry_Register typeName factory r = AList.update typeName factory r"

definition TriggerRegistry_Create :: "'t TriggerRegistry \<Rightarrow> string \<Rightarrow> strmap \<Rightarrow> gerror + 't" where
  "TriggerRegistry_Create r typeName options =
     (case map_of r typeName of
        Some factory \<Rightarrow> factory options
      | None \<Rightarrow> Inl (errorf ErrConfiguration (''unknown trigger type: '' @ Quote typeName)))"

subsection \<open>The response of a trigger\<close>

lemma map_of_extract_vars:
  assumes "go_wf ext"
  shows "map_of (extract_vars flat ext) =
     (\<lambda>v. case map_of ext v of None \<Rightarrow> None | Some path \<Rightarrow> map_of flat (ToLower path))"
  using assms
proof (induction ext)
  case Nil
  then show ?case by simp
next
  case (Cons vp ext)
  obtain v p where vp: "vp = (v, p)" by (cases vp)
  with Cons.prems have nin: "map_of ext v = None" by (simp add: map_of_eq_None_iff)
  from Cons have "map_of (extract_vars flat ext) =
     (\<lambda>v. case map_of ext v of None \<Rightarrow> None | Some path \<Rightarrow> map_of flat (ToLower path))" by simp
  then show ?case by (auto simp: vp nin fun_eq_iff split: option.split)
qed

lemma status_error_Is: "status_error def resp = Some err \<Longrightarrow> errors_Is err s \<longleftrightarrow> s = ErrTriggerFailed"
  by (auto simp: status_error_def split: if_splits)

lemma evaluate_response_error:
  assumes "evaluate_response L r def resp vars e = Some (Inl err, vars', e')"
  shows "errors_Is err s \<longleftrightarrow> s = ErrTriggerFailed"
  using assms Run_error
  by (fastforce simp: evaluate_response_def Let_def split_beta
      split: if_splits option.splits sum.splits Option.bind_split_asm)

text \<open>\<open>Execute\<close> is the rendering of the three parts of the request, the check for placeholders
  that are left, and \<open>send\<close>.\<close>

lemma Execute_cases:
  assumes "Execute L t ctx def runID vars w = Some (out, vars', w')"
  obtains
    (serialize) err e where "out = Inl (errorf ErrTriggerFailed (''failed to serialize trigger body: '' @ err))"
      "w' = w\<lparr>draws := e\<rparr>"
  | (unresolved) reason e where "out = Inl (errorf ErrTriggerFailed reason)" "w' = w\<lparr>draws := e\<rparr>"
  | (sent) targetURL vars1 e1 headers vars2 e2 tx vars3 e3 e4 where
      "ReplaceString L (tc_URL def) (AList.update ''run_id'' runID vars) (draws w) = Some (targetURL, vars1, e1)"
      "ReplaceHeaders L (tc_Headers def) vars1 e1 = Some (headers, vars2, e2)"
      "bodyText L (tc_Body def) headers vars2 e2 = Some (Inr tx, vars3, e3)"
      "\<not> HasUnresolved targetURL"
      "\<forall>hs. headers = Some hs \<longrightarrow> (\<forall>(k, v) \<in> set hs. \<not> HasUnresolved v)"
      "\<not> HasUnresolved tx"
      "send L t ctx def targetURL headers tx vars3 (w\<lparr>draws := e4\<rparr>) = Some (out, vars', w')"
proof -
  from assms obtain targetURL vars1 e1 headers vars2 e2 body vars3 e3 where
    u: "ReplaceString L (tc_URL def) (AList.update ''run_id'' runID vars) (draws w) = Some (targetURL, vars1, e1)"
    and h: "ReplaceHeaders L (tc_Headers def) vars1 e1 = Some (headers, vars2, e2)"
    and b: "bodyText L (tc_Body def) headers vars2 e2 = Some (body, vars3, e3)"
    by (auto simp: Execute_def split: Option.bind_split_asm)
  show thesis
  proof (cases body)
    case (Inl err)
    with assms u h b show thesis by (intro serialize [of err e3]) (auto simp: Execute_def)
  next
    case (Inr tx)
    obtain reason e4 where r: "unresolvedTriggerReason targetURL headers tx e3 = (reason, e4)"
      by (cases "unresolvedTriggerReason targetURL headers tx e3")
    show thesis
    proof (cases "reason = []")
      case False
      with assms u h b Inr r show thesis by (intro unresolved [of reason e4]) (auto simp: Execute_def)
    next
      case True
      have s: "send L t ctx def targetURL headers tx vars3 (w\<lparr>draws := e4\<rparr>) = Some (out, vars', w')"
        using assms u h b Inr r True by (simp add: Execute_def)
      have nu: "\<not> HasUnresolved targetURL" "\<not> HasUnresolved tx"
        "\<forall>(k, v) \<in> set (fst (range_headers headers e3)). \<not> HasUnresolved v"
        using r True
        by (auto simp: unresolvedTriggerReason_def unresolved_header_def split_beta find_None_iff
            split: if_splits option.splits)
      then have "\<forall>hs. headers = Some hs \<longrightarrow> (\<forall>(k, v) \<in> set hs. \<not> HasUnresolved v)"
        by (auto simp: range_headers_def)
      with u h b Inr nu s show thesis by (intro sent) simp_all
    qed
  qed
qed

lemma send_cases:
  assumes "send L t ctx def targetURL headers body vars w = Some (out, vars', w')"
  obtains (refused) err where "out = Inl (errorf ErrTriggerFailed err)" "vars' = vars" "outside w' = outside w"
  | (called) reqCtx req w1 result w2 where
      "hq_Method req = (if tc_Method def = [] then MethodGet else tc_Method def)"
      "hq_URL req = targetURL" "hq_Body req = body" "outside w1 = outside w"
      "ht_client t reqCtx req w1 = (result, w2)" "outside w' = outside w2"
      "case result of
         Inl err \<Rightarrow> out = Inl (errorf ErrTriggerFailed (''HTTP request failed: '' @ err))
       | Inr resp \<Rightarrow>
           (case status_error def resp of
              Some err \<Rightarrow> out = Inl err
            | None \<Rightarrow> \<exists>e'. evaluate_response L (ht_assertions t) def resp vars (draws w2) = Some (out, vars', e'))"
proof -
  let ?m = "if tc_Method def = [] then MethodGet else tc_Method def"
  obtain reqCtx w1 where c: "(if 0 < tc_Timeout def
      then let (now, w) = time_Now w in (WithTimeout ctx now (tc_Timeout def), w) else (ctx, w)) = (reqCtx, w1)"
    by (metis surj_pair)
  then have o1: "outside w1 = outside w"
    using outside_time_Now [of w] by (cases "time_Now w") (auto split: if_splits)
  show thesis
  proof (cases "lib_new_request L ?m targetURL")
    case (Some err)
    with assms c o1 show thesis
      by (intro refused [of "''failed to create trigger request: '' @ err"]) (simp_all add: send_def)
  next
    case None
    obtain hs e where h: "range_headers headers (draws w1) = (hs, e)" by (metis surj_pair)
    let ?req = "\<lparr>hq_Method = ?m, hq_URL = targetURL, hq_Header = set_headers hs, hq_Body = body\<rparr>"
    obtain result w2 where r: "ht_client t reqCtx ?req (w1\<lparr>draws := e\<rparr>) = (result, w2)" by (metis surj_pair)
    show thesis
    proof (rule called [of ?req "w1\<lparr>draws := e\<rparr>" reqCtx result w2])
      show "outside w' = outside w2"
        using assms c None h r
        by (auto simp: send_def split: sum.splits option.splits Option.bind_split_asm)
      show "case result of
          Inl err \<Rightarrow> out = Inl (errorf ErrTriggerFailed (''HTTP request failed: '' @ err))
        | Inr resp \<Rightarrow>
            (case status_error def resp of
               Some err \<Rightarrow> out = Inl err
             | None \<Rightarrow> \<exists>e'. evaluate_response L (ht_assertions t) def resp vars (draws w2) = Some (out, vars', e'))"
        using assms c None h r
        by (auto simp: send_def split: sum.splits option.splits Option.bind_split_asm)
    qed (use r o1 in simp_all)
  qed
qed

lemma send_error:
  assumes "send L t ctx def targetURL headers body vars w = Some (Inl err, vars', w')"
  shows "errors_Is err s \<longleftrightarrow> s = ErrTriggerFailed"
  using assms
  by (rule send_cases)
    (auto split: sum.splits option.splits dest: status_error_Is [of _ _ _ s] evaluate_response_error [of _ _ _ _ _ _ _ _ _ s])

lemma evaluate_response_ok:
  assumes "evaluate_response L r def resp vars e = Some (Inr ext, vars', e')"
    and "list_all no_braces (tc_ResponseAssertions def)" and "go_wf (tc_Extract def)"
  obtains "ext = []" "tc_Extract def = []" "tc_ResponseAssertions def = []"
  | flat payload e1 where "lib_unmarshal L (hp_Body resp) = Inr payload" "flat = fst (FlattenJSON L payload e1)"
      "\<forall>cfg \<in> set (tc_ResponseAssertions def). check L r cfg (synthetic_message flat (hp_Body resp)) = None"
      "map_of ext = (\<lambda>v. case map_of (tc_Extract def) v of None \<Rightarrow> None | Some path \<Rightarrow> map_of flat (ToLower path))"
proof (cases "tc_Extract def = [] \<and> tc_ResponseAssertions def = []")
  case True
  with assms(1) that(1) show thesis by (simp add: evaluate_response_def)
next
  case False
  with assms(1) obtain payload where p: "lib_unmarshal L (hp_Body resp) = Inr payload"
    by (auto simp: evaluate_response_def Let_def split: option.splits if_splits sum.splits)
  obtain flat e1 where f: "FlattenJSON L payload e = (flat, e1)" by (metis surj_pair)
  from Run_no_braces [OF assms(2), of L r flat "hp_Body resp" vars e1] obtain e2 where
    run: "Run L r (tc_ResponseAssertions def) flat (hp_Body resp) vars e1 =
      Some (map_option (\<lambda>err. run_error err (hp_Body resp))
             (first_error (\<lambda>cfg. check L r cfg (synthetic_message flat (hp_Body resp))) (tc_ResponseAssertions def)), vars, e2)"
    by blast
  with assms(1) False p f have fe: "first_error (\<lambda>cfg. check L r cfg (synthetic_message flat (hp_Body resp))) (tc_ResponseAssertions def) = None"
    and ext: "ext = extract_vars flat (tc_Extract def)"
    by (auto simp: evaluate_response_def Let_def split: option.splits if_splits)
  from that(2) [OF p, of flat e] f fe ext show thesis
    by (simp add: first_error_None map_of_extract_vars [OF assms(3)])
qed


lemma plain_vars_update:
  assumes "plain_vars vars" and "brace_free k" and "brace_free v"
  shows "plain_vars (AList.update k v vars)"
proof -
  have wf: "go_wf vars" using assms(1) by (simp add: plain_vars_def)
  have "brace_free k' \<and> brace_free v'" if "(k', v') \<in> set (AList.update k v vars)" for k' v'
  proof -
    from that wf have "map_of (AList.update k v vars) k' = Some v'"
      by (simp add: map_of_eq_Some_iff del: map_of_update)
    then show ?thesis
      using assms by (auto simp: plain_vars_def split: if_splits dest!: map_of_SomeD)
  qed
  with wf show ?thesis by (auto simp: plain_vars_def)
qed

subsection \<open>Properties\<close>

text \<open>A client that records its requests, for examples.\<close>

definition recording_client :: "HttpResponse \<Rightarrow> HttpRequest list HttpDo" where
  "recording_client resp ctx req w = (Inr resp, w\<lparr>outside := outside w @ [req]\<rparr>)"

definition example_response :: HttpResponse where
  "example_response = \<lparr>hp_StatusCode = 200, hp_Header = [], hp_Body = [], hp_ReadError = None\<rparr>"

definition example_trigger :: "HttpRequest list HTTPTrigger" where
  "example_trigger = \<lparr>ht_client = recording_client example_response,
     ht_assertions = NewDefaultRegistry example_lib\<rparr>"

definition example_step :: TriggerConfig where
  "example_step = \<lparr>tc_Type = ''http'', tc_Options = [], tc_Method = [], tc_URL = ''http://x/'', tc_Timeout = 0,
     tc_DelayBefore = 0, tc_Headers = None, tc_Body = None, tc_Extract = [], tc_ExpectedStatus = 0,
     tc_ResponseAssertions = [], tc_Receivers = [], tc_WaitForReceivers = False\<rparr>"

text \<open>C12 (trigger_outcome): an error of a trigger is always a trigger failure. A success means that
  the client was called with the rendered request, that the status was the expected one (or below
  400 where none is configured), that every response assertion passed on the flattened response,
  and that the variables extracted are exactly those whose path the response has.\<close>

theorem trigger_outcome:
  assumes "Execute L t ctx def runID vars w = Some (out, vars', w')"
    and "list_all no_braces (tc_ResponseAssertions def)" and "go_wf (tc_Extract def)"
  shows "case out of
      Inl err \<Rightarrow> (\<forall>s. errors_Is err s \<longleftrightarrow> s = ErrTriggerFailed)
    | Inr ext \<Rightarrow> \<exists>reqCtx req w1 resp w2. ht_client t reqCtx req w1 = (Inr resp, w2)
        \<and> hq_Method req = (if tc_Method def = [] then MethodGet else tc_Method def)
        \<and> (if tc_ExpectedStatus def \<noteq> 0 then hp_StatusCode resp = tc_ExpectedStatus def
            else hp_StatusCode resp < 400)
        \<and> (ext = [] \<and> tc_Extract def = [] \<and> tc_ResponseAssertions def = []
           \<or> (\<exists>payload e flat. lib_unmarshal L (hp_Body resp) = Inr payload \<and> flat = fst (FlattenJSON L payload e)
               \<and> (\<forall>cfg \<in> set (tc_ResponseAssertions def).
                     check L (ht_assertions t) cfg (synthetic_message flat (hp_Body resp)) = None)
               \<and> map_of ext = (\<lambda>v. case map_of (tc_Extract def) v of
                     None \<Rightarrow> None | Some path \<Rightarrow> map_of flat (ToLower path))))"
proof (cases out)
  case (Inl err)
  from assms(1) have "errors_Is err s \<longleftrightarrow> s = ErrTriggerFailed" for s
    by (rule Execute_cases) (use Inl in \<open>auto dest: send_error [of _ _ _ _ _ _ _ _ _ _ _ _ s]\<close>)
  with Inl show ?thesis by simp
next
  case (Inr ext)
  from assms(1) obtain targetURL headers tx vars3 w3 where
    "send L t ctx def targetURL headers tx vars3 w3 = Some (Inr ext, vars', w')"
    by (rule Execute_cases) (use Inr in auto)
  then obtain reqCtx req w1 resp w2 e' where
    c: "ht_client t reqCtx req w1 = (Inr resp, w2)"
       "hq_Method req = (if tc_Method def = [] then MethodGet else tc_Method def)"
    and s: "status_error def resp = None"
    and r: "evaluate_response L (ht_assertions t) def resp vars3 (draws w2) = Some (Inr ext, vars', e')"
    by (rule send_cases) (auto split: sum.splits option.splits)
  from s have "if tc_ExpectedStatus def \<noteq> 0 then hp_StatusCode resp = tc_ExpectedStatus def
      else hp_StatusCode resp < 400"
    by (auto simp: status_error_def split: if_splits)
  moreover have "ext = [] \<and> tc_Extract def = [] \<and> tc_ResponseAssertions def = []
     \<or> (\<exists>payload e flat. lib_unmarshal L (hp_Body resp) = Inr payload \<and> flat = fst (FlattenJSON L payload e)
         \<and> (\<forall>cfg \<in> set (tc_ResponseAssertions def).
               check L (ht_assertions t) cfg (synthetic_message flat (hp_Body resp)) = None)
         \<and> map_of ext = (\<lambda>v. case map_of (tc_Extract def) v of
               None \<Rightarrow> None | Some path \<Rightarrow> map_of flat (ToLower path)))"
    using evaluate_response_ok [OF r assms(2,3)] by metis
  ultimately show ?thesis
    unfolding Inr sum.case using c by (intro exI [of _ reqCtx] exI [of _ req] exI [of _ w1] exI [of _ resp] exI [of _ w2] conjI)
qed

theorem trigger_outcome_witness:
  "\<exists>w'. Execute example_lib example_trigger None example_step ''r'' [] \<lparr>draws = \<lambda>_. 0, clock = 0, outside = []\<rparr>
      = Some (Inr [], [(''run_id'', ''r'')], w')
    \<and> (\<exists>reqCtx req w1 resp w2. ht_client example_trigger reqCtx req w1 = (Inr resp, w2) \<and> hp_StatusCode resp < 400)"
proof -
  have u: "CHR ''{'' \<notin> set ''http://x/''" by simp
  have nu: "\<not> HasUnresolved ''http://x/''" by (rule HasUnresolved_no_brace) simp
  have e: "\<exists>w'. Execute example_lib example_trigger None example_step ''r'' []
      \<lparr>draws = \<lambda>_. 0, clock = 0, outside = []\<rparr> = Some (Inr [], [(''run_id'', ''r'')], w')"
    by (simp add: Execute_def example_step_def ReplaceString_text [OF u] ReplaceHeaders_def bodyText_def
        unresolvedTriggerReason_def nu range_headers_def unresolved_header_def send_def example_lib_def
        example_trigger_def recording_client_def example_response_def status_error_def
        evaluate_response_def split_beta Let_def del: HasUnresolved.simps(2))
  then obtain w' where w': "Execute example_lib example_trigger None example_step ''r'' []
      \<lparr>draws = \<lambda>_. 0, clock = 0, outside = []\<rparr> = Some (Inr [], [(''run_id'', ''r'')], w')" ..
  have h: "list_all no_braces (tc_ResponseAssertions example_step)" "go_wf (tc_Extract example_step)"
    "tc_ExpectedStatus example_step = 0"
    by (simp_all add: example_step_def)
  from trigger_outcome [OF w' h(1,2)] obtain reqCtx req w1 resp w2 where
    c: "ht_client example_trigger reqCtx req w1 = (Inr resp, w2)"
    and s: "if tc_ExpectedStatus example_step \<noteq> 0 then hp_StatusCode resp = tc_ExpectedStatus example_step
      else hp_StatusCode resp < 400"
    unfolding sum.case by blast
  from s h(3) have "hp_StatusCode resp < 400" by simp
  with c w' show ?thesis by blast
qed


text \<open>A trigger whose URL mentions a variable that is not
  defined fails with a trigger failure and its client is never called.\<close>

theorem trigger_unresolved_not_sent:
  assumes "tc_URL def = template segs" and "list_all plain segs" and "plain_vars vars" and "brace_free runID"
    and "Hole k \<in> set segs" and "map_of vars k = None" and "k \<noteq> ''run_id''"
    and "Execute L t ctx def runID vars w = Some (out, vars', w')"
  shows "(\<exists>err. out = Inl err \<and> errors_Is err ErrTriggerFailed) \<and> outside w' = outside w"
proof -
  let ?vars = "AList.update ''run_id'' runID vars"
  have pv: "plain_vars ?vars"
    using assms(3,4) by (simp add: plain_vars_update)
  have k: "map_of ?vars k = None" using assms(6,7) by simp
  from assms(8) show ?thesis
  proof (rule Execute_cases)
    fix targetURL vars1 e1 assume "ReplaceString L (tc_URL def) ?vars (draws w) = Some (targetURL, vars1, e1)"
      and nu: "\<not> HasUnresolved targetURL"
    then have "targetURL = template (map (fill (map_of ?vars)) segs)"
      unfolding assms(1) ReplaceString_render [OF assms(2) pv] by blast
    moreover have "Hole k \<in> set (map (fill (map_of ?vars)) segs)"
      using assms(5) k by (force simp: image_iff intro!: bexI [of _ "Hole k"])
    ultimately have "HasUnresolved targetURL"
      using HasUnresolved_template [OF plain_fill [OF pv assms(2)]] by blast
    with nu show ?thesis by simp
  qed simp_all
qed

theorem trigger_unresolved_not_sent_witness:
  "(case Execute example_lib example_trigger None (example_step\<lparr>tc_URL := ''http://x/{{id}}''\<rparr>) ''r'' []
      \<lparr>draws = \<lambda>_. 0, clock = 0, outside = []\<rparr> of
     None \<Rightarrow> True | Some (out, vars, w') \<Rightarrow> (\<exists>err. out = Inl err) \<and> outside w' = [])"
proof -
  let ?r = "Execute example_lib example_trigger None (example_step\<lparr>tc_URL := ''http://x/{{id}}''\<rparr>) ''r'' []
      \<lparr>draws = \<lambda>_. 0, clock = 0, outside = []\<rparr>"
  have "(\<exists>err. out = Inl err) \<and> outside w' = []" if "?r = Some (out, vars, w')" for out vars w'
    using trigger_unresolved_not_sent [OF _ _ _ _ _ _ _ that, of "[Text ''http://x/'', Hole ''id'']" "''id''"]
    by (auto simp: plain_vars_def)
  then show ?thesis by (cases ?r) auto
qed

text \<open>The check for placeholders that are left runs on the
  encoded body, and a form encodes the braces: a form with an undefined variable is never
  refused, and the request goes out with the escaped placeholder.\<close>

theorem form_body_hides_placeholders:
  assumes "tc_URL def = url" and "CHR ''{'' \<notin> set url"
    and "tc_Headers def = Some [(''Content-Type'', ''application/x-www-form-urlencoded'')]"
    and "tc_Body def = Some [(k, VStr (''{{'' @ v @ ''}}''))]"
    and "brace_free v" and "v \<noteq> []" and "CHR ''('' \<notin> set v" and "v \<noteq> ''run_id''" and "brace_free runID"
  shows "\<exists>e. Execute L t ctx def runID [] w =
     send L t ctx def url (tc_Headers def)
       (QueryEscape k @ ''=%7B%7B'' @ QueryEscape v @ ''%7D%7D'') [(''run_id'', runID)] (w\<lparr>draws := e\<rparr>)"
proof -
  let ?vars = "[(''run_id'', runID)]" and ?ct = "''application/x-www-form-urlencoded''"
  have ct: "CHR ''{'' \<notin> set ?ct" by simp
  have pv: "plain_vars ?vars" using assms(9) by (simp add: plain_vars_def)
  have "fill (map_of ?vars) (Hole v) = Hole v" using assms(8) by simp
  then have v: "\<exists>e'. ReplaceString L (''{{'' @ v @ ''}}'') ?vars e = Some (''{{'' @ v @ ''}}'', ?vars, e')" for e
    using ReplaceString_render [of "[Hole v]" ?vars L e] pv assms(5-8) by (simp del: fill.simps)
  have form: "isForm (tc_Headers def)"
    unfolding assms(3) by (simp add: isForm_def ToLower_def lower_char_def char_of_def bit_simps Contains.simps)
  have url: "\<not> HasUnresolved url" using assms(2) by (rule HasUnresolved_no_brace)
  have hdr: "\<not> HasUnresolved ?ct" using ct by (rule HasUnresolved_no_brace)
  have enc: "form_Encode [(k, ''{{'' @ v @ ''}}'')] = QueryEscape k @ ''=%7B%7B'' @ QueryEscape v @ ''%7D%7D''"
    by (simp add: form_Encode_def sort_keys_def QueryEscape_def escape_char_def is_alnum_def byte_in_def
        upper_hex_def char_of_def bit_simps)
  have nb: "\<not> HasUnresolved (QueryEscape k @ ''=%7B%7B'' @ QueryEscape v @ ''%7D%7D'')"
    unfolding enc [symmetric] by (rule HasUnresolved_no_brace) (rule form_Encode_no_brace)
  have h: "\<exists>e'. ReplaceHeaders L (tc_Headers def) ?vars e = Some (tc_Headers def, ?vars, e')" for e
    unfolding assms(3) by (simp add: ReplaceHeaders_def ReplaceString_text [OF ct])
  have b: "\<exists>e'. bodyText L (tc_Body def) (tc_Headers def) ?vars e =
      Some (Inr (QueryEscape k @ ''=%7B%7B'' @ QueryEscape v @ ''%7D%7D''), ?vars, e')" for e
  proof -
    from v obtain e' where "ReplaceString L (''{{'' @ v @ ''}}'') ?vars (\<lambda>n. e (Suc n)) = Some (''{{'' @ v @ ''}}'', ?vars, e')" by blast
    then show ?thesis
      using form by (simp add: assms(4) bodyText_def ReplaceMap_def form_of_body_def enc del: append.simps)
  qed
  have r: "\<exists>e'. unresolvedTriggerReason url (tc_Headers def) (QueryEscape k @ ''=%7B%7B'' @ QueryEscape v @ ''%7D%7D'') e = ([], e')" for e
    using url hdr nb
    by (simp add: unresolvedTriggerReason_def assms(3) range_headers_def unresolved_header_def
        del: HasUnresolved.simps append.simps)
  have u: "ReplaceString L url ?vars (draws w) = Some (url, ?vars, snd (go_range ?vars (draws w)))"
    by (rule ReplaceString_text) (rule assms(2))
  let ?e1 = "snd (go_range ?vars (draws w))"
  from h obtain e2 where h2: "ReplaceHeaders L (tc_Headers def) ?vars ?e1 = Some (tc_Headers def, ?vars, e2)" by blast
  from b obtain e3 where b3: "bodyText L (tc_Body def) (tc_Headers def) ?vars e2 =
      Some (Inr (QueryEscape k @ ''=%7B%7B'' @ QueryEscape v @ ''%7D%7D''), ?vars, e3)" by blast
  from r obtain e4 where r4: "unresolvedTriggerReason url (tc_Headers def)
      (QueryEscape k @ ''=%7B%7B'' @ QueryEscape v @ ''%7D%7D'') e3 = ([], e4)" by blast
  from u h2 b3 r4 show ?thesis
    by (simp add: Execute_def assms(1) del: append.simps) blast
qed

theorem form_body_hides_placeholders_witness:
  "\<exists>e. Execute example_lib example_trigger None
       (example_step\<lparr>tc_Headers := Some [(''Content-Type'', ''application/x-www-form-urlencoded'')],
          tc_Body := Some [(''code'', VStr ''{{otp}}'')]\<rparr>) ''r'' [] \<lparr>draws = \<lambda>_. 0, clock = 0, outside = []\<rparr> =
     send example_lib example_trigger None
       (example_step\<lparr>tc_Headers := Some [(''Content-Type'', ''application/x-www-form-urlencoded'')],
          tc_Body := Some [(''code'', VStr ''{{otp}}'')]\<rparr>) ''http://x/''
       (Some [(''Content-Type'', ''application/x-www-form-urlencoded'')])
       (QueryEscape ''code'' @ ''=%7B%7B'' @ QueryEscape ''otp'' @ ''%7D%7D'') [(''run_id'', ''r'')] (\<lparr>draws = \<lambda>_. 0, clock = 0, outside = []\<rparr>\<lparr>draws := e\<rparr>)"
  using form_body_hides_placeholders [of "example_step\<lparr>tc_Headers := Some [(''Content-Type'', ''application/x-www-form-urlencoded'')],
          tc_Body := Some [(''code'', VStr ''{{otp}}'')]\<rparr>" "''http://x/''" "''code''" "''otp''" "''r''" example_lib example_trigger None "\<lparr>draws = \<lambda>_. 0, clock = 0, outside = []\<rparr>"]
  by (simp add: example_step_def)

end
