(* ===== verification/Store.thy ===== *)
theory Store
  imports Domain
begin

section \<open>The message store: \<open>internal/adapters/secondary/store\<close>\<close>

text \<open>
  \<open>MemoryStore\<close> and \<open>DisabledStore\<close> with the registry that creates them. An operation
  holds the mutex for its whole body, so it is one step on the state; it gets its readings of
  the clock as arguments. The record \<open>Store\<close> is the interface \<open>ports.Store\<close> as the other
  components see it, on a world that contains the store, and \<open>memory_port\<close> is the memory
  store behind it.

  The locales \<open>message_store\<close> and \<open>reservation_store\<close> state what the clients rely on;
  both are interpreted on the memory store.
\<close>

subsection \<open>The interface \<open>ports.Store\<close>\<close>

record 'x Store =
  st_Deposit :: "Message \<Rightarrow> 'x world \<Rightarrow> gerror option \<times> 'x world"
  st_Claim :: "string \<Rightarrow> string \<Rightarrow> 'x world \<Rightarrow> (gerror + Message option) \<times> 'x world"
  st_Reserve :: "string \<Rightarrow> string \<Rightarrow> string \<Rightarrow> 'x world \<Rightarrow> gerror option \<times> 'x world"
  st_Release :: "string \<Rightarrow> string \<Rightarrow> 'x world \<Rightarrow> gerror option \<times> 'x world"
  st_Delete :: "string \<Rightarrow> string \<Rightarrow> 'x world \<Rightarrow> gerror option \<times> 'x world"
  st_Close :: "'x world \<Rightarrow> gerror option \<times> 'x world"

text \<open>The JSON encoding of a message (\<open>encoding/json\<close> on \<open>domain.Message\<close>), with the error
  texts of the two directions.\<close>

record codec =
  marshal_message :: "Message \<Rightarrow> string + string"
  unmarshal_message :: "string \<Rightarrow> string + Message"

subsection \<open>\<open>MemoryStore\<close>\<close>

record memEntry =
  me_payload :: string
  me_expiresAt :: int

record memReservation =
  mr_runID :: string
  mr_expiresAt :: int

record MemoryStore =
  ms_messages :: "(string, memEntry) gomap"
  ms_reservations :: "(string, memReservation) gomap"
  ms_ttl :: int

definition NewMemoryStore :: "int \<Rightarrow> MemoryStore" where
  "NewMemoryStore ttl = \<lparr>ms_messages = [], ms_reservations = [], ms_ttl = ttl\<rparr>"

definition reservationTTL :: int where
  "reservationTTL = 3600 * 10 ^ 9"

definition store_key :: "string \<Rightarrow> string \<Rightarrow> string" where
  "store_key a b = a @ '':'' @ b"

definition mem_Deposit :: "codec \<Rightarrow> Message \<Rightarrow> int \<Rightarrow> MemoryStore \<Rightarrow> gerror option \<times> MemoryStore" where
  "mem_Deposit cod msg now s =
     (case marshal_message cod msg of
        Inl err \<Rightarrow> (Some (errorf ErrInternal (''failed to serialize message: '' @ err)), s)
      | Inr data \<Rightarrow>
          (let key = store_key (m_RunID msg) (m_ReceiverType msg) in
           (None, s\<lparr>ms_messages := AList.update key \<lparr>me_payload = data, me_expiresAt = now + ms_ttl s\<rparr>
                      (ms_messages s)\<rparr>)))"

definition mem_Claim :: "codec \<Rightarrow> string \<Rightarrow> string \<Rightarrow> int \<Rightarrow> MemoryStore \<Rightarrow> gerror + Message option" where
  "mem_Claim cod runID receiverType now s =
     (case map_of (ms_messages s) (store_key runID receiverType) of
        None \<Rightarrow> Inr None
      | Some entry \<Rightarrow>
          if me_expiresAt entry < now then Inr None
          else (case unmarshal_message cod (me_payload entry) of
             Inl err \<Rightarrow> Inl (errorf ErrInternal (''failed to deserialize message: '' @ err))
           | Inr msg \<Rightarrow> Inr (Some msg)))"

text \<open>\<open>Reserve\<close> reads the clock twice: for the check and for the new expiry.\<close>

definition mem_Reserve ::
  "string \<Rightarrow> string \<Rightarrow> string \<Rightarrow> int \<Rightarrow> int \<Rightarrow> MemoryStore \<Rightarrow> gerror option \<times> MemoryStore" where
  "mem_Reserve channel recipient runID now now' s =
     (let key = store_key channel recipient;
          insert = (None, s\<lparr>ms_reservations :=
             AList.update key \<lparr>mr_runID = runID, mr_expiresAt = now' + reservationTTL\<rparr> (ms_reservations s)\<rparr>) in
      case map_of (ms_reservations s) key of
        Some existing \<Rightarrow>
          if now < mr_expiresAt existing
          then (Some (errorf ErrInternal
                  (''recipient '' @ channel @ '':'' @ recipient @ '' already reserved by run '' @ mr_runID existing)), s)
          else insert
      | None \<Rightarrow> insert)"

definition mem_Release :: "string \<Rightarrow> string \<Rightarrow> MemoryStore \<Rightarrow> MemoryStore" where
  "mem_Release channel recipient s =
     s\<lparr>ms_reservations := AList.delete (store_key channel recipient) (ms_reservations s)\<rparr>"

definition mem_Delete :: "string \<Rightarrow> string \<Rightarrow> MemoryStore \<Rightarrow> MemoryStore" where
  "mem_Delete runID receiverType s =
     s\<lparr>ms_messages := AList.delete (store_key runID receiverType) (ms_messages s)\<rparr>"

definition mem_Close :: "MemoryStore \<Rightarrow> gerror option \<times> MemoryStore" where
  "mem_Close s = (None, s)"

text \<open>The memory store as a port: \<open>get\<close> and \<open>put\<close> say where it lives in the world.\<close>

definition memory_port :: "codec \<Rightarrow> ('x \<Rightarrow> MemoryStore) \<Rightarrow> (MemoryStore \<Rightarrow> 'x \<Rightarrow> 'x) \<Rightarrow> 'x Store" where
  "memory_port cod get put =
     \<lparr>st_Deposit = (\<lambda>msg w.
        let (now, w) = time_Now w; (r, s) = mem_Deposit cod msg now (get (outside w))
        in (r, w\<lparr>outside := put s (outside w)\<rparr>)),
      st_Claim = (\<lambda>runID receiverType w.
        let (now, w) = time_Now w in (mem_Claim cod runID receiverType now (get (outside w)), w)),
      st_Reserve = (\<lambda>channel recipient runID w.
        let (now, w) = time_Now w; (now', w) = time_Now w;
            (r, s) = mem_Reserve channel recipient runID now now' (get (outside w))
        in (r, w\<lparr>outside := put s (outside w)\<rparr>)),
      st_Release = (\<lambda>channel recipient w.
        (None, w\<lparr>outside := put (mem_Release channel recipient (get (outside w))) (outside w)\<rparr>)),
      st_Delete = (\<lambda>runID receiverType w.
        (None, w\<lparr>outside := put (mem_Delete runID receiverType (get (outside w))) (outside w)\<rparr>)),
      st_Close = (\<lambda>w.
        let (r, s) = mem_Close (get (outside w)) in (r, w\<lparr>outside := put s (outside w)\<rparr>))\<rparr>"

subsection \<open>\<open>DisabledStore\<close> and \<open>StoreRegistry\<close>\<close>

definition disabled_port :: "'x Store" where
  "disabled_port =
     \<lparr>st_Deposit = (\<lambda>msg w. (None, w)),
      st_Claim = (\<lambda>runID receiverType w. (Inr None, w)),
      st_Reserve = (\<lambda>channel recipient runID w. (None, w)),
      st_Release = (\<lambda>channel recipient w. (None, w)),
      st_Delete = (\<lambda>runID receiverType w. (None, w)),
      st_Close = (\<lambda>w. (None, w))\<rparr>"

type_synonym ('c, 's) StoreFactory = "'c \<Rightarrow> gerror + 's"
type_synonym ('c, 's) StoreRegistry = "(string, ('c, 's) StoreFactory) gomap"

definition StoreRegistry_Register ::
  "string \<Rightarrow> ('c, 's) StoreFactory \<Rightarrow> ('c, 's) StoreRegistry \<Rightarrow> ('c, 's) StoreRegistry" where
  "StoreRegistry_Register typeName factory r = AList.update typeName factory r"

text \<open>\<open>typ\<close> reads the field \<open>Type\<close> of the configuration.\<close>

definition StoreRegistry_Create :: "('c \<Rightarrow> string) \<Rightarrow> ('c, 's) StoreRegistry \<Rightarrow> 'c \<Rightarrow> gerror + 's" where
  "StoreRegistry_Create typ r cfg =
     (if typ cfg = [] then Inl (errorf ErrConfiguration ''store type not configured'')
      else case map_of r (typ cfg) of
        None \<Rightarrow> Inl (errorf ErrConfiguration (''unknown store type: '' @ Quote (typ cfg)))
      | Some factory \<Rightarrow> factory cfg)"

subsection \<open>The contract of messages\<close>

text \<open>
  \<open>stored m\<close> is what a claim gives back for a deposited message: \<open>None\<close> where it cannot be
  serialised and is not stored. \<open>key\<close> says which messages share a slot, and \<open>live\<close> whether a
  message that expires at the first time can still be claimed at the second.
\<close>

datatype message_op = DepositOp Message int | DeleteOp string string

locale message_store =
  fixes deposit :: "Message \<Rightarrow> int \<Rightarrow> 's \<Rightarrow> 's"
    and claim :: "string \<Rightarrow> string \<Rightarrow> int \<Rightarrow> 's \<Rightarrow> gerror + Message option"
    and delete :: "string \<Rightarrow> string \<Rightarrow> 's \<Rightarrow> 's"
    and ttl :: "'s \<Rightarrow> int"
    and stored :: "Message \<Rightarrow> (gerror + Message option) option"
    and key :: "string \<Rightarrow> string \<Rightarrow> 'k"
    and live :: "int \<Rightarrow> int \<Rightarrow> bool"
  assumes claim_deposit: "stored m = Some out \<Longrightarrow> key (m_RunID m) (m_ReceiverType m) = key r t \<Longrightarrow> now \<le> now'
      \<Longrightarrow> claim r t now' (deposit m now s) = (if live (now + ttl s) now' then out else Inr None)"
    and claim_deposit_other: "key (m_RunID m) (m_ReceiverType m) \<noteq> key r t \<Longrightarrow> now \<le> now'
      \<Longrightarrow> claim r t now' (deposit m now s) = claim r t now' s"
    and deposit_unstored: "stored m = None \<Longrightarrow> now \<le> now'
      \<Longrightarrow> claim r t now' (deposit m now s) = claim r t now' s"
    and claim_delete: "claim r t now' (delete r' t' s) = (if key r' t' = key r t then Inr None else claim r t now' s)"
    and ttl_deposit: "ttl (deposit m now s) = ttl s"
    and ttl_delete: "ttl (delete r t s) = ttl s"
begin

fun exec :: "message_op \<Rightarrow> 's \<Rightarrow> 's" where
  "exec (DepositOp m now) s = deposit m now s"
| "exec (DeleteOp r t) s = delete r t s"

text \<open>The abstract store: one slot for each key.\<close>

fun abs_exec :: "int \<Rightarrow> message_op \<Rightarrow> ('k \<Rightarrow> ((gerror + Message option) \<times> int) option)
    \<Rightarrow> 'k \<Rightarrow> ((gerror + Message option) \<times> int) option" where
  "abs_exec d (DepositOp m now) a =
     (case stored m of
        None \<Rightarrow> a
      | Some out \<Rightarrow> a(key (m_RunID m) (m_ReceiverType m) \<mapsto> (out, now + d)))"
| "abs_exec d (DeleteOp r t) a = a(key r t := None)"

definition abs_claim :: "string \<Rightarrow> string \<Rightarrow> int \<Rightarrow> ('k \<Rightarrow> ((gerror + Message option) \<times> int) option)
    \<Rightarrow> gerror + Message option" where
  "abs_claim r t now a =
     (case a (key r t) of
        None \<Rightarrow> Inr None
      | Some (out, expiry) \<Rightarrow> if live expiry now then out else Inr None)"

fun at_most :: "int \<Rightarrow> message_op \<Rightarrow> bool" where
  "at_most now (DepositOp m t) \<longleftrightarrow> t \<le> now"
| "at_most now (DeleteOp r t) \<longleftrightarrow> True"

lemma ttl_exec [simp]: "ttl (exec p s) = ttl s"
  by (cases p) (simp_all add: ttl_deposit ttl_delete)

lemma ttl_execs [simp]: "ttl (fold exec ops s) = ttl s"
  by (induction ops arbitrary: s) simp_all

lemma exec_refines:
  assumes "\<And>r t. claim r t now s = abs_claim r t now a" and "at_most now p"
  shows "claim r t now (exec p s) = abs_claim r t now (abs_exec (ttl s) p a)"
proof (cases p)
  case (DepositOp m t0)
  show ?thesis
  proof (cases "stored m")
    case None
    with assms DepositOp show ?thesis by (simp add: deposit_unstored)
  next
    case (Some out)
    show ?thesis
    proof (cases "key (m_RunID m) (m_ReceiverType m) = key r t")
      case True
      with Some assms DepositOp show ?thesis
        using claim_deposit [OF Some True, of t0 now s] by (simp add: abs_claim_def)
    next
      case False
      with Some assms DepositOp show ?thesis
        using claim_deposit_other [OF False, of t0 now s] by (simp add: abs_claim_def)
    qed
  qed
next
  case (DeleteOp r' t')
  with assms show ?thesis by (simp add: claim_delete abs_claim_def)
qed

theorem claim_refines:
  assumes "\<And>r t. claim r t now s = abs_claim r t now a" and "\<forall>p \<in> set ops. at_most now p"
  shows "claim r t now (fold exec ops s) = abs_claim r t now (fold (abs_exec (ttl s)) ops a)"
  using assms
proof (induction ops arbitrary: s a r t)
  case Nil
  then show ?case by simp
next
  case (Cons p ops)
  then have "\<And>r t. claim r t now (exec p s) = abs_claim r t now (abs_exec (ttl s) p a)"
    using exec_refines by simp
  from Cons.IH [OF this] Cons.prems(2) show ?case by simp
qed

end

subsection \<open>The contract of reservations\<close>

datatype reservation_op =
    ReserveOp string string string int int
  | ReleaseOp string string

text \<open>
  An attempt to reserve reads two clocks, and \<open>until now now'\<close> is the expiry of a reservation that was made at
  them. Exclusion is one half of the contract; a store need not grant what is free.
\<close>

locale exclusive_store =
  fixes reserve :: "string \<Rightarrow> string \<Rightarrow> string \<Rightarrow> int \<Rightarrow> int \<Rightarrow> 's \<Rightarrow> bool \<times> 's"
    and release :: "string \<Rightarrow> string \<Rightarrow> 's \<Rightarrow> 's"
    and holder :: "string \<Rightarrow> string \<Rightarrow> int \<Rightarrow> 's \<Rightarrow> string option"
    and slot :: "string \<Rightarrow> string \<Rightarrow> 'k"
    and until :: "int \<Rightarrow> int \<Rightarrow> int"
  assumes reserve_granted: "reserve c r run now now' s = (True, s') \<Longrightarrow> now'' < until now now' \<Longrightarrow> holder c r now'' s' = Some run"
    and reserve_held: "holder c r now s = Some other \<Longrightarrow> \<not> fst (reserve c r run now now' s)"
    and reserve_refused: "reserve c r run now now' s = (False, s') \<Longrightarrow> now \<le> now''
      \<Longrightarrow> holder c r now'' s' = holder c r now'' s"
    and reserve_other: "slot c r \<noteq> slot c' r' \<Longrightarrow> now \<le> now''
      \<Longrightarrow> holder c' r' now'' (snd (reserve c r run now now' s)) = holder c' r' now'' s"
    and holder_slot: "slot c r = slot c' r' \<Longrightarrow> holder c r now s = holder c' r' now s"
    and release_slot: "slot c r = slot c' r' \<Longrightarrow> holder c r now (release c' r' s) = None"
    and release_other: "slot c r \<noteq> slot c' r' \<Longrightarrow> holder c r now (release c' r' s) = holder c r now s"
    and holder_antimono: "now \<le> now' \<Longrightarrow> holder c r now' s = Some run \<Longrightarrow> holder c r now s = Some run"

text \<open>The other half.\<close>

locale reservation_store = exclusive_store reserve release holder slot until
  for reserve :: "string \<Rightarrow> string \<Rightarrow> string \<Rightarrow> int \<Rightarrow> int \<Rightarrow> 's \<Rightarrow> bool \<times> 's"
    and release :: "string \<Rightarrow> string \<Rightarrow> 's \<Rightarrow> 's" and holder and slot :: "string \<Rightarrow> string \<Rightarrow> 'k" and until +
  assumes reserve_free: "holder c r now s = None \<Longrightarrow> fst (reserve c r run now now' s)"
begin

lemma reserve_held_keeps:
  assumes "holder c r now s = Some other" and "now \<le> now''"
  shows "holder c r now'' (snd (reserve c r run now now' s)) = holder c r now'' s"
  using reserve_held [OF assms(1), of run now'] reserve_refused [OF _ assms(2), of c r run now' s]
  by (cases "reserve c r run now now' s") simp

fun exec :: "reservation_op \<Rightarrow> 's \<Rightarrow> 's" where
  "exec (ReserveOp c r run now now') s = snd (reserve c r run now now' s)"
| "exec (ReleaseOp c r) s = release c r s"

fun releases :: "'k \<Rightarrow> reservation_op \<Rightarrow> bool" where
  "releases k (ReserveOp c r run now now') \<longleftrightarrow> False"
| "releases k (ReleaseOp c r) \<longleftrightarrow> slot c r = k"

fun before_op :: "int \<Rightarrow> reservation_op \<Rightarrow> bool" where
  "before_op d (ReserveOp c r run now now') \<longleftrightarrow> now < d"
| "before_op d (ReleaseOp c r) \<longleftrightarrow> True"

lemma exec_keeps:
  assumes "\<forall>now < d. holder c r now s = Some run" and "\<not> releases (slot c r) p" and "before_op d p"
  shows "\<forall>now < d. holder c r now (exec p s) = Some run"
proof (cases p)
  case (ReserveOp c' r' run' now now')
  have late: "holder c r t (exec p s) = Some run" if "now \<le> t" "t < d" for t
  proof (cases "slot c' r' = slot c r")
    case True
    from ReserveOp assms(1,3) have "holder c r now s = Some run" by simp
    with holder_slot [OF True] have "holder c' r' now s = Some run" by simp
    from reserve_held_keeps [OF this that(1)] ReserveOp assms(1) that(2) show ?thesis
      by (simp add: holder_slot [OF True, symmetric])
  next
    case False
    with ReserveOp assms(1) that show ?thesis by (simp add: reserve_other)
  qed
  show ?thesis
  proof (intro allI impI)
    fix t assume "t < d"
    show "holder c r t (exec p s) = Some run"
    proof (cases "now \<le> t")
      case True
      with late \<open>t < d\<close> show ?thesis by simp
    next
      case False
      from ReserveOp assms(3) have "holder c r now (exec p s) = Some run" by (intro late) simp_all
      with False show ?thesis by (intro holder_antimono [of t now]) simp_all
    qed
  qed
next
  case (ReleaseOp c' r')
  with assms show ?thesis by (simp add: release_other)
qed

text \<open>Mutual exclusion: from a reservation on, and until it is released or an hour has passed,
  the recipient belongs to the run, and every other attempt to reserve it is refused.\<close>

theorem exclusive:
  assumes "reserve c r run now now' s = (True, s')"
    and "\<forall>p \<in> set ops. \<not> releases (slot c r) p \<and> before_op (until now now') p"
    and "slot c' r' = slot c r" and "t < until now now'"
  shows "holder c r t (fold exec ops s') = Some run
     \<and> \<not> fst (reserve c' r' run' t t' (fold exec ops s'))"
proof -
  from reserve_granted [OF assms(1)]
  have "\<forall>t < until now now'. holder c r t s' = Some run" by simp
  then have "\<forall>t < until now now'. holder c r t (fold exec ops s') = Some run"
    using assms(2) by (induction ops arbitrary: s') (simp_all add: exec_keeps)
  with assms(4) have h: "holder c r t (fold exec ops s') = Some run" by simp
  then have "holder c' r' t (fold exec ops s') = Some run" using holder_slot [OF assms(3)] by simp
  from h reserve_held [OF this] show ?thesis by simp
qed

theorem free_after_release:
  assumes "slot c r = slot c' r'"
  shows "fst (reserve c r run now now' (release c' r' s))"
  by (rule reserve_free [OF release_slot [OF assms]])

end

subsection \<open>The memory store keeps both contracts\<close>

lemmas mem_defs = mem_Deposit_def mem_Claim_def mem_Reserve_def mem_Release_def mem_Delete_def

text \<open>What comes back for a message: \<open>None\<close> where \<open>Deposit\<close> fails.\<close>

definition mem_stored :: "codec \<Rightarrow> Message \<Rightarrow> (gerror + Message option) option" where
  "mem_stored cod msg =
     (case marshal_message cod msg of
        Inl _ \<Rightarrow> None
      | Inr data \<Rightarrow>
          Some (case unmarshal_message cod data of
             Inl err \<Rightarrow> Inl (errorf ErrInternal (''failed to deserialize message: '' @ err))
           | Inr m \<Rightarrow> Inr (Some m)))"

interpretation mem: message_store "\<lambda>m now s. snd (mem_Deposit cod m now s)" "mem_Claim cod" mem_Delete
    ms_ttl "mem_stored cod" store_key "\<lambda>expiry now. now \<le> expiry" for cod
  by unfold_locales
    (auto simp: mem_defs mem_stored_def Let_def not_less split: sum.splits option.splits)

definition mem_holder :: "string \<Rightarrow> string \<Rightarrow> int \<Rightarrow> MemoryStore \<Rightarrow> string option" where
  "mem_holder channel recipient now s =
     (case map_of (ms_reservations s) (store_key channel recipient) of
        None \<Rightarrow> None
      | Some entry \<Rightarrow> if now < mr_expiresAt entry then Some (mr_runID entry) else None)"

definition mem_try_reserve ::
  "string \<Rightarrow> string \<Rightarrow> string \<Rightarrow> int \<Rightarrow> int \<Rightarrow> MemoryStore \<Rightarrow> bool \<times> MemoryStore" where
  "mem_try_reserve channel recipient runID now now' s =
     (let (err, s') = mem_Reserve channel recipient runID now now' s in (err = None, s'))"

interpretation res: reservation_store mem_try_reserve mem_Release mem_holder store_key "\<lambda>_ t. t + reservationTTL"
  by unfold_locales
    (auto simp: mem_try_reserve_def mem_holder_def mem_Reserve_def mem_Release_def Let_def
      split: option.splits if_splits)

text \<open>Sequences of operations on the memory store.\<close>

fun mem_step :: "codec \<Rightarrow> message_op \<Rightarrow> MemoryStore \<Rightarrow> MemoryStore" where
  "mem_step cod (DepositOp m now) s = snd (mem_Deposit cod m now s)"
| "mem_step cod (DeleteOp r t) s = mem_Delete r t s"

fun res_step :: "reservation_op \<Rightarrow> MemoryStore \<Rightarrow> MemoryStore" where
  "res_step (ReserveOp c r run now now') s = snd (mem_Reserve c r run now now' s)"
| "res_step (ReleaseOp c r) s = mem_Release c r s"

lemma mem_step_exec: "mem_step cod = mem.exec cod"
  by (intro ext, rename_tac p s) (case_tac p; simp)

lemma res_step_exec: "res_step = res.exec"
  by (intro ext, rename_tac p s) (case_tac p; simp add: mem_try_reserve_def split_beta Let_def)

text \<open>The abstract specification of a claim: the last operation on the slot decides.\<close>

fun touches :: "codec \<Rightarrow> string \<Rightarrow> message_op \<Rightarrow> bool" where
  "touches cod key (DepositOp m now) \<longleftrightarrow> mem_stored cod m \<noteq> None \<and> store_key (m_RunID m) (m_ReceiverType m) = key"
| "touches cod key (DeleteOp r t) \<longleftrightarrow> store_key r t = key"

definition last_claim :: "codec \<Rightarrow> int \<Rightarrow> string \<Rightarrow> string \<Rightarrow> int \<Rightarrow> message_op list \<Rightarrow> gerror + Message option" where
  "last_claim cod ttl runID receiverType now ops =
     (case List.find (touches cod (store_key runID receiverType)) (rev ops) of
        Some (DepositOp m t0) \<Rightarrow> if now \<le> t0 + ttl then the (mem_stored cod m) else Inr None
      | _ \<Rightarrow> Inr None)"

lemma abs_claim_last:
  "mem.abs_claim r t now (fold (mem.abs_exec cod ttl) ops Map.empty) = last_claim cod ttl r t now ops"
proof (induction ops rule: rev_induct)
  case Nil
  then show ?case by (simp add: mem.abs_claim_def last_claim_def)
next
  case (snoc p ops)
  then show ?case
    by (cases p) (auto simp: mem.abs_claim_def last_claim_def split: option.splits)
qed

lemma NewMemoryStore_empty: "mem_Claim cod r t now (NewMemoryStore ttl) = Inr None"
  by (simp add: mem_Claim_def NewMemoryStore_def)

subsection \<open>Properties\<close>

fun op_time :: "message_op \<Rightarrow> int option" where
  "op_time (DepositOp m t) = Some t"
| "op_time (DeleteOp r t) = None"

text \<open>C10 (memory_claim_last): after any history of deposits and deletions, a claim returns what
  the last operation on its slot says: the message last deposited, if the time to live has not
  passed since, and nothing if it was deleted, expired or never there.\<close>

theorem memory_claim_last:
  assumes "\<forall>p \<in> set ops. \<forall>t. op_time p = Some t \<longrightarrow> t \<le> now"
  shows "mem_Claim cod runID receiverType now (fold (mem_step cod) ops (NewMemoryStore ttl)) =
     last_claim cod ttl runID receiverType now ops"
proof -
  have "mem.at_most now p" if "p \<in> set ops" for p
    using assms that by (cases p) auto
  moreover have "mem_Claim cod r t now (NewMemoryStore ttl) = mem.abs_claim r t now Map.empty" for r t
    by (simp add: NewMemoryStore_empty mem.abs_claim_def)
  ultimately show ?thesis
    using mem.claim_refines [of cod now "NewMemoryStore ttl" Map.empty ops runID receiverType]
    by (simp add: mem_step_exec abs_claim_last NewMemoryStore_def)
qed

text \<open>A codec for examples: the encoding keeps the run and the type only.\<close>

definition example_message :: "string \<Rightarrow> Message" where
  "example_message runID = \<lparr>m_RunID = runID, m_ReceiverType = ''webhook'', m_ReceivedAt = 5,
     m_Headers = [], m_Fields = [], m_Raw = []\<rparr>"

definition example_codec :: codec where
  "example_codec = \<lparr>marshal_message = (\<lambda>m. Inr (m_RunID m)), unmarshal_message = (\<lambda>s. Inr (example_message s))\<rparr>"

theorem memory_claim_last_witness:
  "mem_Claim example_codec ''r'' ''webhook'' 12
     (fold (mem_step example_codec) [DepositOp (example_message ''r'') 10] (NewMemoryStore 5)) =
   Inr (Some (example_message ''r''))"
  using memory_claim_last [of "[DepositOp (example_message ''r'') 10]" 12 example_codec "''r''" "''webhook''" 5]
  by (simp add: last_claim_def mem_stored_def example_codec_def example_message_def del: mem_step.simps)

text \<open>C11 (memory_reservation_exclusive): once a run has reserved a recipient, every attempt to
  reserve it, also by the run itself, fails until the recipient is released or an hour has
  passed, whatever happens to other recipients meanwhile; after a release it is free.\<close>

theorem memory_reservation_exclusive:
  assumes "mem_Reserve channel recipient runID now now' s = (None, s')"
    and "\<forall>p \<in> set ops. (case p of
        ReleaseOp c r \<Rightarrow> store_key c r \<noteq> store_key channel recipient
      | ReserveOp c r run t t' \<Rightarrow> t < now' + reservationTTL)"
    and "t < now' + reservationTTL"
  shows "let s'' = fold res_step ops s' in
      (\<forall>other t'. \<exists>err. mem_Reserve channel recipient other t t' s'' = (Some err, s'') \<and> errors_Is err ErrInternal)
    \<and> (\<forall>other t'. fst (mem_Reserve channel recipient other t t' (mem_Release channel recipient s'')) = None)"
proof -
  have ok: "mem_try_reserve channel recipient runID now now' s = (True, s')"
    using assms(1) by (simp add: mem_try_reserve_def)
  have ops: "\<forall>p \<in> set ops. \<not> res.releases (store_key channel recipient) p \<and> res.before_op (now' + reservationTTL) p"
  proof
    fix p assume "p \<in> set ops"
    with assms(2) show "\<not> res.releases (store_key channel recipient) p \<and> res.before_op (now' + reservationTTL) p"
      by (cases p) fastforce+
  qed
  let ?s = "fold res_step ops s'"
  have refused: "\<not> fst (mem_try_reserve channel recipient other t t' ?s)" for other t'
    using res.exclusive [OF ok ops refl assms(3)] by (simp add: res_step_exec)
  have "\<exists>err. mem_Reserve channel recipient other t t' ?s = (Some err, ?s) \<and> errors_Is err ErrInternal" for other t'
    using refused [of other t']
    by (auto simp: mem_try_reserve_def mem_Reserve_def Let_def split: option.splits if_splits)
  moreover have "fst (mem_Reserve channel recipient other t t' (mem_Release channel recipient ?s)) = None" for other t'
    using res.free_after_release [OF refl, of channel recipient other t t' ?s]
    by (simp add: mem_try_reserve_def split_beta Let_def)
  ultimately show ?thesis by (simp add: Let_def)
qed

theorem memory_reservation_exclusive_witness:
  "\<exists>err. fst (mem_Reserve ''imap'' ''a@b'' ''r2'' 7 8
     (snd (mem_Reserve ''imap'' ''a@b'' ''r1'' 1 2 (NewMemoryStore 5)))) = Some err \<and> errors_Is err ErrInternal"
proof -
  have "mem_Reserve ''imap'' ''a@b'' ''r1'' 1 2 (NewMemoryStore 5) =
      (None, snd (mem_Reserve ''imap'' ''a@b'' ''r1'' 1 2 (NewMemoryStore 5)))"
    by (simp add: mem_Reserve_def NewMemoryStore_def)
  from memory_reservation_exclusive [OF this, of "[]" 7] show ?thesis
    by (simp add: reservationTTL_def Let_def) (metis fst_conv)
qed

text \<open>Slots are told apart by the pair of a run and a receiver type as
  long as the receiver types hold no colon (those of the program hold none), or the runs do not: a
  type with a colon can be mistaken for the end of another run's id.\<close>

theorem store_key_injective:
  "(CHR '':'' \<notin> set t1 \<and> CHR '':'' \<notin> set t2 \<longrightarrow> store_key r1 t1 = store_key r2 t2 \<longrightarrow> r1 = r2 \<and> t1 = t2)
   \<and> (CHR '':'' \<notin> set r1 \<and> CHR '':'' \<notin> set r2 \<longrightarrow> store_key r1 t1 = store_key r2 t2 \<longrightarrow> r1 = r2 \<and> t1 = t2)
   \<and> (\<forall>a b c. store_key (a @ '':'' @ b) c = store_key a (b @ '':'' @ c))
   \<and> (\<forall>t \<in> {WebhookReceiverType, ImapReceiverType, APIReceiverType}. CHR '':'' \<notin> set t)"
proof -
  have split: "a @ x # b = c @ x # d \<Longrightarrow> x \<notin> set a \<Longrightarrow> x \<notin> set c \<Longrightarrow> a = c \<and> b = d" for a b c d and x :: char
    by (induction a arbitrary: c) (case_tac c; auto)+
  have "r1 = r2 \<and> t1 = t2" if "CHR '':'' \<notin> set t1" "CHR '':'' \<notin> set t2" "store_key r1 t1 = store_key r2 t2"
  proof -
    from that(3) have "rev t1 @ CHR '':'' # rev r1 = rev t2 @ CHR '':'' # rev r2"
      by (metis append.simps(1) append.simps(2) append_assoc rev.simps(2) rev_append store_key_def)
    from split [OF this] that show ?thesis by simp
  qed
  moreover have "r1 = r2 \<and> t1 = t2" if "CHR '':'' \<notin> set r1" "CHR '':'' \<notin> set r2" "store_key r1 t1 = store_key r2 t2"
    using split [of r1 "CHR '':''" t1 r2 t2] that by (simp add: store_key_def)
  ultimately show ?thesis
    by (simp add: store_key_def WebhookReceiverType_def ImapReceiverType_def APIReceiverType_def)
qed

theorem store_key_injective_witness:
  "store_key ''run-1'' WebhookReceiverType \<noteq> store_key ''run-2'' WebhookReceiverType"
  using store_key_injective [of WebhookReceiverType WebhookReceiverType "''run-1''" "''run-2''"]
  by (simp add: WebhookReceiverType_def)

end
