(* ===== verification/Orchestrator.thy ===== *)
theory Orchestrator
  imports Http_Trigger Store
begin

section \<open>The orchestrator: \<open>internal/core/services/orchestrator.go\<close>\<close>

text \<open>
  One run of a test: its variables, its steps with their retries, the receivers of a step and
  the merge of their results into the result of the run.

  The ports of the orchestrator are records of functions on the world. The map of variables is
  shared by the run, its triggers and its receivers, so every call takes it and gives it back.
  A goroutine per receiver collects and asserts at the same time as the others; the model runs
  the goroutines in the order in which they complete, which the run chooses (\<open>go_range\<close>), each
  from the clock at which they all started, and \<open>wg.Wait\<close> ends at the latest of their clocks.
  What happens inside of two \<open>Collect\<close> calls is not interleaved further.

  A panic (in a template) ends the process: the outermost \<open>None\<close>. Log events are left out.
\<close>

subsection \<open>The ports\<close>

type_synonym 'x Trigger =
  "ctx \<Rightarrow> TriggerConfig \<Rightarrow> string \<Rightarrow> varmap \<Rightarrow> 'x world \<Rightarrow> ((gerror + strmap) \<times> varmap \<times> 'x world) option"

text \<open>The receiver registry and the three methods of \<open>ports.Receiver\<close>; \<open>Start\<close> gives back the
  instance with what it stored.\<close>

record ('i, 'x) Receivers =
  rv_Create :: "ReceiverConfig \<Rightarrow> gerror + 'i"
  rv_Start :: "'i \<Rightarrow> ctx \<Rightarrow> string \<Rightarrow> varmap \<Rightarrow> 'x world \<Rightarrow> gerror option \<times> 'i \<times> 'x world"
  rv_Collect :: "'i \<Rightarrow> ctx \<Rightarrow> varmap \<Rightarrow> 'x world \<Rightarrow> ((gerror + Message) \<times> varmap \<times> 'x world) option"
  rv_Stop :: "'i \<Rightarrow> 'x world \<Rightarrow> gerror option \<times> 'x world"

record ('i, 'x) Orchestrator =
  or_lib :: lib
  or_triggers :: "'x Trigger TriggerRegistry"
  or_store :: "'x Store"
  or_receivers :: "('i, 'x) Receivers"
  or_assertions :: AssertionRegistry

record 'i activeReceiver =
  ar_cfg :: ReceiverConfig
  ar_instance :: 'i

definition reservedVarNames :: "string list" where
  "reservedVarNames = [''run_id'', ''test_id'', ''error'']"

subsection \<open>Reservations\<close>

fun reserve_loop :: "'x Store \<Rightarrow> string \<Rightarrow> ReceiverConfig list \<Rightarrow> ReceiverConfig list \<Rightarrow> 'x world
    \<Rightarrow> (ReceiverConfig list \<times> gerror option) \<times> 'x world" where
  "reserve_loop st runID [] reserved w = ((reserved, None), w)"
| "reserve_loop st runID (rcfg # configs) reserved w =
     (if rc_Recipient rcfg = [] then reserve_loop st runID configs reserved w
      else let (err, w) = st_Reserve st (rc_Type rcfg) (rc_Recipient rcfg) runID w in
           case err of
             Some e \<Rightarrow>
               ((reserved, Some (GErr (echain e)
                   (''recipient reservation failed for '' @ rc_Type rcfg @ '': '' @ etext e))), w)
           | None \<Rightarrow> reserve_loop st runID configs (reserved @ [rcfg]) w)"

definition reserveRecipients :: "('i, 'x) Orchestrator \<Rightarrow> ReceiverConfig list \<Rightarrow> string \<Rightarrow> 'x world
    \<Rightarrow> (ReceiverConfig list \<times> gerror option) \<times> 'x world" where
  "reserveRecipients orc configs runID w = reserve_loop (or_store orc) runID configs [] w"

definition releaseRecipients :: "('i, 'x) Orchestrator \<Rightarrow> ReceiverConfig list \<Rightarrow> 'x world \<Rightarrow> 'x world" where
  "releaseRecipients orc reserved w =
     fold (\<lambda>rcfg w. snd (st_Release (or_store orc) (rc_Type rcfg) (rc_Recipient rcfg) w)) reserved w"

subsection \<open>Receivers\<close>

fun start_loop :: "('i, 'x) Receivers \<Rightarrow> ctx \<Rightarrow> string \<Rightarrow> varmap \<Rightarrow> ReceiverConfig list \<Rightarrow> 'i activeReceiver list
    \<Rightarrow> 'x world \<Rightarrow> ('i activeReceiver list \<times> gerror option) \<times> 'x world" where
  "start_loop rv ctx runID vars [] active w = ((active, None), w)"
| "start_loop rv ctx runID vars (rcfg # configs) active w =
     (case rv_Create rv rcfg of
        Inl e \<Rightarrow>
          ((active, Some (GErr (echain e)
              (''failed to create receiver '' @ rc_Type rcfg @ '': '' @ etext e))), w)
      | Inr inst \<Rightarrow>
          (let (err, inst, w) = rv_Start rv inst ctx runID vars w in
           case err of
             Some e \<Rightarrow>
               ((active, Some (GErr (echain e)
                   (''failed to start receiver '' @ rc_Type rcfg @ '': '' @ etext e))), w)
           | None \<Rightarrow>
               start_loop rv ctx runID vars configs (active @ [\<lparr>ar_cfg = rcfg, ar_instance = inst\<rparr>]) w))"

definition startReceivers :: "('i, 'x) Orchestrator \<Rightarrow> ctx \<Rightarrow> ReceiverConfig list \<Rightarrow> string \<Rightarrow> varmap \<Rightarrow> 'x world
    \<Rightarrow> ('i activeReceiver list \<times> gerror option) \<times> 'x world" where
  "startReceivers orc ctx configs runID vars w = start_loop (or_receivers orc) ctx runID vars configs [] w"

definition stopReceivers :: "('i, 'x) Orchestrator \<Rightarrow> 'i activeReceiver list \<Rightarrow> 'x world \<Rightarrow> 'x world" where
  "stopReceivers orc active w = fold (\<lambda>r w. snd (rv_Stop (or_receivers orc) (ar_instance r) w)) active w"

text \<open>The assertions of a receiver on its message: status and error text.\<close>

fun assert_loop :: "lib \<Rightarrow> AssertionRegistry \<Rightarrow> AssertionConfig list \<Rightarrow> Message \<Rightarrow> varmap \<Rightarrow> entropy
    \<Rightarrow> (RunStatus \<times> string) templated" where
  "assert_loop L r [] msg vars e = Some ((StatusPassed, []), vars, e)"
| "assert_loop L r (acfg # acfgs) msg vars e = do {
     (field, vars, e) \<leftarrow> ReplaceString L (ac_Field acfg) vars e;
     (val, vars, e) \<leftarrow> ReplaceString L (ac_Value acfg) vars e;
     case Create r (acfg\<lparr>ac_Field := field, ac_Value := val\<rparr>) of
       Inl err \<Rightarrow> Some ((StatusError, ''invalid assertion '' @ ac_Type acfg @ '': '' @ etext err), vars, e)
     | Inr a \<Rightarrow>
         (case Assert L a msg of
            Some err \<Rightarrow> Some ((StatusFailed, etext err), vars, e)
          | None \<Rightarrow> assert_loop L r acfgs msg vars e)
   }"

definition collectAndAssert ::
  "('i, 'x) Orchestrator \<Rightarrow> ctx \<Rightarrow> string \<Rightarrow> ReceiverConfig \<Rightarrow> 'i \<Rightarrow> varmap \<Rightarrow> 'x world
    \<Rightarrow> (ReceiverResult \<times> varmap \<times> 'x world) option" where
  "collectAndAssert orc ctx runID rcfg inst vars w =
     (let res = \<lparr>rr_Type = rc_Type rcfg, rr_TriggerIndex = 0, rr_Status = StatusPassed, rr_DurationMs = 0,
                 rr_Error = [], rr_Message = None\<rparr>;
          (collectCtx, w) =
            (if 0 < rc_Timeout rcfg
             then let (now, w) = time_Now w in (WithTimeout ctx now (rc_Timeout rcfg), w)
             else (ctx, w))
      in do {
        (out, vars, w) \<leftarrow> rv_Collect (or_receivers orc) inst collectCtx vars w;
        case out of
          Inl err \<Rightarrow>
            Some (res\<lparr>rr_Status := StatusError, rr_Error := ''collection failed: '' @ etext err\<rparr>, vars, w)
        | Inr msg \<Rightarrow> do {
            let (_, w) = st_Delete (or_store orc) runID (rc_Type rcfg) w;
            ((status, tx), vars, e) \<leftarrow>
              assert_loop (or_lib orc) (or_assertions orc) (rc_Assertions rcfg) msg vars (draws w);
            Some (res\<lparr>rr_Message := Some msg, rr_Status := status, rr_Error := tx\<rparr>, vars, w\<lparr>draws := e\<rparr>)
          }
      })"

text \<open>What a goroutine does to the result while it holds the mutex.\<close>

definition merge_status :: "RunStatus \<Rightarrow> RunStatus \<Rightarrow> RunStatus" where
  "merge_status rcv status =
     (if rcv = StatusError \<and> status \<noteq> StatusError then StatusError
      else if rcv = StatusFailed \<and> status = StatusPassed then StatusFailed
      else status)"

definition merge_result :: "ReceiverResult \<Rightarrow> TestResult \<Rightarrow> TestResult" where
  "merge_result rcv result =
     result\<lparr>tr_Receivers := tr_Receivers result @ [rcv],
            tr_Status := merge_status (rr_Status rcv) (tr_Status result)\<rparr>"

definition summarizeReceiverErrors :: "ReceiverResult list \<Rightarrow> string" where
  "summarizeReceiverErrors receivers =
     Join (map (\<lambda>r. rr_Type r @ '' (trigger '' @ FormatInt (rr_TriggerIndex r + 1) @ ''): '' @ rr_Error r)
             (filter (\<lambda>r. rr_Status r = StatusFailed \<or> rr_Status r = StatusError) receivers)) ''; ''"

text \<open>The goroutine of one receiver up to the mutex.\<close>

definition receiver_goroutine ::
  "('i, 'x) Orchestrator \<Rightarrow> ctx \<Rightarrow> string \<Rightarrow> int \<Rightarrow> 'i activeReceiver \<Rightarrow> varmap \<Rightarrow> 'x world
    \<Rightarrow> (ReceiverResult \<times> varmap \<times> 'x world) option" where
  "receiver_goroutine orc ctx runID triggerIndex r vars w = do {
     let (rcvStart, w) = time_Now w;
     (rcvResult, vars, w) \<leftarrow> collectAndAssert orc ctx runID (ar_cfg r) (ar_instance r) vars w;
     let (now, w) = time_Now w;
     Some (rcvResult\<lparr>rr_DurationMs := Milliseconds (now - rcvStart), rr_TriggerIndex := triggerIndex\<rparr>, vars, w)
   }"

text \<open>The goroutines in the order in which they complete; \<open>t0\<close> is the clock at which all of
  them start and \<open>t1\<close> the latest end so far.\<close>

fun collect_loop ::
  "('i, 'x) Orchestrator \<Rightarrow> ctx \<Rightarrow> string \<Rightarrow> int \<Rightarrow> int \<Rightarrow> int \<Rightarrow> 'i activeReceiver list \<Rightarrow> varmap \<Rightarrow> TestResult
    \<Rightarrow> 'x world \<Rightarrow> (TestResult \<times> varmap \<times> 'x world) option" where
  "collect_loop orc ctx runID triggerIndex t0 t1 [] vars result w = Some (result, vars, w\<lparr>clock := t1\<rparr>)"
| "collect_loop orc ctx runID triggerIndex t0 t1 (r # rs) vars result w = do {
     (rcvResult, vars, w) \<leftarrow> receiver_goroutine orc ctx runID triggerIndex r vars (w\<lparr>clock := t0\<rparr>);
     collect_loop orc ctx runID triggerIndex t0 (max t1 (clock w)) rs vars (merge_result rcvResult result) w
   }"

definition collectAndAssertAll ::
  "('i, 'x) Orchestrator \<Rightarrow> ctx \<Rightarrow> string \<Rightarrow> 'i activeReceiver list \<Rightarrow> varmap \<Rightarrow> TestResult \<Rightarrow> int \<Rightarrow> 'x world
    \<Rightarrow> (TestResult \<times> varmap \<times> 'x world) option" where
  "collectAndAssertAll orc ctx runID active vars result triggerIndex w = do {
     let (ord, e) = go_range active (draws w);
     (result, vars, w) \<leftarrow> collect_loop orc ctx runID triggerIndex (clock w) (clock w) ord vars result (w\<lparr>draws := e\<rparr>);
     Some (if tr_Error result = [] \<and> tr_Status result \<noteq> StatusPassed
           then result\<lparr>tr_Error := summarizeReceiverErrors (tr_Receivers result)\<rparr> else result,
           vars, w)
   }"

subsection \<open>Steps and attempts\<close>

definition failResult :: "string \<Rightarrow> TestResult \<Rightarrow> 'x world \<Rightarrow> TestResult \<times> 'x world" where
  "failResult errStr result w =
     (let (now, w) = time_Now w in
      (result\<lparr>tr_Status := StatusError, tr_Error := errStr, tr_FinishedAt := now,
              tr_DurationMs := Milliseconds (now - tr_StartedAt result)\<rparr>, w))"

definition step_text :: "nat \<Rightarrow> string \<Rightarrow> string" where
  "step_text i tx = ''step '' @ FormatInt (int i + 1) @ tx"

definition stepMaxAttempts :: "RetryConfig \<Rightarrow> nat" where
  "stepMaxAttempts rt = (if rt_Enabled rt \<and> 1 < rt_Attempts rt then nat (rt_Attempts rt) else 1)"

text \<open>
  The loop over the attempts of a step, by the number of attempts left; the last one is the one
  with none left after it. It gives \<open>stepPassed\<close> and \<open>lastTriggerErr\<close> with the result, the
  variables and the world.
\<close>

fun attempt_loop ::
  "('i, 'x) Orchestrator \<Rightarrow> ctx \<Rightarrow> RetryConfig \<Rightarrow> string \<Rightarrow> 'x Trigger \<Rightarrow> TriggerConfig \<Rightarrow> nat \<Rightarrow> nat
    \<Rightarrow> gerror option \<Rightarrow> varmap \<Rightarrow> TestResult \<Rightarrow> 'x world
    \<Rightarrow> ((bool \<times> gerror option) \<times> TestResult \<times> varmap \<times> 'x world) option" where
  "attempt_loop orc ctx rt runID stepTrigger step i 0 lastTriggerErr vars result w =
     Some ((False, lastTriggerErr), result, vars, w)"
| "attempt_loop orc ctx rt runID stepTrigger step i (Suc left) lastTriggerErr vars result w = do {
     let result = result\<lparr>tr_Attempts := tr_Attempts result + 1\<rparr>;
     (out, vars, w) \<leftarrow> stepTrigger ctx step runID vars w;
     case out of
       Inl triggerErr \<Rightarrow>
         attempt_loop orc ctx rt runID stepTrigger step i left (Some triggerErr) vars result
           (if 0 < left then time_Sleep (rt_Delay rt) w else w)
     | Inr stepVars \<Rightarrow>
         (let vars = go_copy vars stepVars in
          if \<not> tc_WaitForReceivers step \<or> tc_Receivers step = []
          then Some ((True, lastTriggerErr), result, vars, w)
          else let ((active, startErr), w) = startReceivers orc ctx (tc_Receivers step) runID vars w in
               case startErr of
                 Some err \<Rightarrow>
                   (let (result, w) = failResult (step_text i ('' receiver start failed: '' @ etext err)) result w
                    in Some ((False, lastTriggerErr), result, vars, w))
               | None \<Rightarrow> do {
                   (result, vars, w) \<leftarrow> collectAndAssertAll orc ctx runID active vars result (int i) w;
                   let w = stopReceivers orc active w;
                   if tr_Status result = StatusPassed then Some ((True, lastTriggerErr), result, vars, w)
                   else attempt_loop orc ctx rt runID stepTrigger step i left lastTriggerErr vars result
                          (if 0 < left then time_Sleep (rt_Delay rt) w else w)
                 })
   }"

text \<open>
  One iteration of the loop over the steps. It either returns from the function (\<open>Inl\<close>) or goes
  on to the next step (\<open>Inr\<close>, with the variables). \<open>defers\<close> are the reservations to release
  when the function returns, the last one first. Every way out sets \<open>TriggerVars\<close>.
\<close>

type_synonym 'x returned = "TestResult \<times> ReceiverConfig list list \<times> 'x world"

definition run_step ::
  "('i, 'x) Orchestrator \<Rightarrow> ctx \<Rightarrow> RetryConfig \<Rightarrow> string \<Rightarrow> TriggerConfig \<Rightarrow> nat \<Rightarrow> ReceiverConfig list list
    \<Rightarrow> varmap \<Rightarrow> TestResult \<Rightarrow> 'x world \<Rightarrow> ('x returned + varmap \<times> 'x returned) option" where
  "run_step orc ctx rt runID step i defers vars result w =
     (let w = (if 0 < tc_DelayBefore step then time_Sleep (tc_DelayBefore step) w else w) in
      case TriggerRegistry_Create (or_triggers orc) (EffectiveType step) (tc_Options step) of
        Inl err \<Rightarrow>
          (let (result, w) = failResult (etext err) (result\<lparr>tr_TriggerVars := vars\<rparr>) w
           in Some (Inl (result, defers, w)))
      | Inr stepTrigger \<Rightarrow>
          (let ((reserved, err), w) = reserveRecipients orc (tc_Receivers step) runID w in
           case err of
             Some e \<Rightarrow>
               (let (result, w) = failResult (etext e) (result\<lparr>tr_TriggerVars := vars\<rparr>) w
                in Some (Inl (result, defers, w)))
           | None \<Rightarrow> do {
               let defers = reserved # defers;
               ((stepPassed, lastTriggerErr), result, vars, w) \<leftarrow>
                 attempt_loop orc ctx rt runID stepTrigger step i (stepMaxAttempts rt) None vars result
                   (snd (time_Now w));
               let result = result\<lparr>tr_TriggerVars := vars\<rparr>;
               if \<not> stepPassed then
                 (case lastTriggerErr of
                    Some e \<Rightarrow>
                      (let (result, w) = failResult (step_text i ('' trigger failed: '' @ etext e)) result w
                       in Some (Inl (result, defers, w)))
                  | None \<Rightarrow> Some (Inl (result, defers, w)))
               else Some (Inr (vars, result\<lparr>tr_Status := StatusPassed\<rparr>, defers, w))
             }))"

fun steps_loop ::
  "('i, 'x) Orchestrator \<Rightarrow> ctx \<Rightarrow> RetryConfig \<Rightarrow> string \<Rightarrow> TriggerConfig list \<Rightarrow> nat \<Rightarrow> ReceiverConfig list list
    \<Rightarrow> varmap \<Rightarrow> TestResult \<Rightarrow> 'x world \<Rightarrow> 'x returned option" where
  "steps_loop orc ctx rt runID [] i defers vars result w =
     Some (result\<lparr>tr_TriggerVars := vars\<rparr>, defers, w)"
| "steps_loop orc ctx rt runID (step # steps) i defers vars result w = do {
     out \<leftarrow> run_step orc ctx rt runID step i defers vars result w;
     case out of
       Inl r \<Rightarrow> Some r
     | Inr (vars, result, defers, w) \<Rightarrow> steps_loop orc ctx rt runID steps (Suc i) defers vars result w
   }"

text \<open>The variables block, in the order of the run.\<close>

fun variables_loop :: "lib \<Rightarrow> (string \<times> string) list \<Rightarrow> varmap \<Rightarrow> entropy \<Rightarrow> (varmap \<times> entropy) option" where
  "variables_loop L [] vars e = Some (vars, e)"
| "variables_loop L ((k, v) # kvs) vars e =
     (if k \<in> set reservedVarNames then variables_loop L kvs vars e
      else do {
        (v', vars, e) \<leftarrow> ReplaceString L v vars e;
        variables_loop L kvs (AList.update k v' vars) e
      })"

definition executeSequential ::
  "('i, 'x) Orchestrator \<Rightarrow> ctx \<Rightarrow> TestDefinition \<Rightarrow> string \<Rightarrow> TestResult \<Rightarrow> 'x world
    \<Rightarrow> (TestResult \<times> 'x world) option" where
  "executeSequential orc ctx def runID result w = do {
     let (ord, e) = go_range (td_Variables def) (draws w);
     (vars, e) \<leftarrow> variables_loop (or_lib orc) ord [(''run_id'', runID)] e;
     (result, defers, w) \<leftarrow>
       steps_loop orc ctx (td_Retry def) runID (td_Triggers def) 0 [] vars result (w\<lparr>draws := e\<rparr>);
     Some (result, fold (releaseRecipients orc) defers w)
   }"

subsection \<open>Runs and sequences\<close>

text \<open>\<open>execute\<close> gives the result and, where it starts \<open>notifyFailure\<close> in a goroutine of its
  own, the arguments of \<open>Notify\<close>.\<close>

type_synonym notification = "OnFailureConfig \<times> TestResult"

definition finish :: "int \<Rightarrow> TestResult \<Rightarrow> 'x world \<Rightarrow> TestResult \<times> 'x world" where
  "finish startTime result w =
     (let (now, w) = time_Now w in
      (result\<lparr>tr_FinishedAt := now, tr_DurationMs := Milliseconds (now - startTime)\<rparr>, w))"

definition execute ::
  "('i, 'x) Orchestrator \<Rightarrow> ctx \<Rightarrow> TestDefinition \<Rightarrow> string \<Rightarrow> 'x world
    \<Rightarrow> (TestResult \<times> notification option \<times> 'x world) option" where
  "execute orc ctx def runID w =
     (let (startTime, w) = time_Now w;
          result = \<lparr>tr_TestID = td_ID def, tr_RunID = runID, tr_Status = StatusPassed, tr_Attempts = 0,
                    tr_DurationMs = 0, tr_Receivers = [], tr_Error = [], tr_StartedAt = startTime,
                    tr_FinishedAt = zero_time, tr_TriggerVars = []\<rparr>
      in if \<not> td_Enabled def
         then let (result, w) = finish startTime (result\<lparr>tr_Status := StatusSkipped\<rparr>) w
              in Some (result, None, w)
         else do {
           (result, w) \<leftarrow> executeSequential orc ctx def runID result w;
           let (result, w) = finish startTime result w;
           Some (result,
             if tr_Status result = StatusFailed \<or> tr_Status result = StatusError
             then Some (td_OnFailure def, result) else None, w)
         })"

text \<open>\<open>RunTest\<close> gives the id at once and the result through a channel; the model gives both,
  the result as it will be received.\<close>

definition RunTest ::
  "('i, 'x) Orchestrator \<Rightarrow> ctx \<Rightarrow> TestDefinition \<Rightarrow> 'x world
    \<Rightarrow> (string \<times> TestResult \<times> notification option \<times> 'x world) option" where
  "RunTest orc ctx def w = do {
     let (now, w) = time_Now w;
     let runID = td_ID def @ ''-'' @ FormatInt now;
     (result, note, w) \<leftarrow> execute orc ctx def runID w;
     Some (runID, result, note, w)
   }"

text \<open>The id alone, for a caller that does not wait for the result.\<close>

definition RunTest_id :: "TestDefinition \<Rightarrow> 'x world \<Rightarrow> string \<times> 'x world" where
  "RunTest_id def w = (let (now, w) = time_Now w in (td_ID def @ ''-'' @ FormatInt now, w))"

lemma RunTest_alt:
  "RunTest orc ctx def w =
     (let (runID, w) = RunTest_id def w in
      map_option (\<lambda>(result, nt, w). (runID, result, nt, w)) (execute orc ctx def runID w))"
  by (simp add: RunTest_def RunTest_id_def split_beta Let_def map_option_case
      split: option.splits Option.bind_split)

record SequenceConfig =
  sq_Delay :: int
  sq_SkipFailTest :: bool

fun sequence_loop ::
  "('i, 'x) Orchestrator \<Rightarrow> ctx \<Rightarrow> SequenceConfig \<Rightarrow> bool \<Rightarrow> TestDefinition list \<Rightarrow> 'x world
    \<Rightarrow> (TestResult list \<times> notification list \<times> 'x world) option" where
  "sequence_loop orc ctx cfg first [] w = Some ([], [], w)"
| "sequence_loop orc ctx cfg first (def # defs) w = do {
     let w = (if \<not> first \<and> 0 < sq_Delay cfg then time_Sleep (sq_Delay cfg) w else w);
     (_, result, note, w) \<leftarrow> RunTest orc ctx def w;
     if sq_SkipFailTest cfg \<and> (tr_Status result = StatusFailed \<or> tr_Status result = StatusError)
     then Some ([result], case note of None \<Rightarrow> [] | Some n \<Rightarrow> [n], w)
     else do {
       (results, notes, w) \<leftarrow> sequence_loop orc ctx cfg False defs w;
       Some (result # results, (case note of None \<Rightarrow> [] | Some n \<Rightarrow> [n]) @ notes, w)
     }
   }"

definition RunSequence ::
  "('i, 'x) Orchestrator \<Rightarrow> ctx \<Rightarrow> TestDefinition list \<Rightarrow> SequenceConfig \<Rightarrow> 'x world
    \<Rightarrow> (TestResult list \<times> notification list \<times> 'x world) option" where
  "RunSequence orc ctx defs cfg w = sequence_loop orc ctx cfg True defs (snd (time_Now w))"

text \<open>The level of the closing log event (\<open>slog\<close>'s numbers).\<close>

definition runStatusLevel :: "RunStatus \<Rightarrow> int" where
  "runStatusLevel status =
     (case status of StatusFailed \<Rightarrow> 8 | StatusError \<Rightarrow> 8 | StatusSkipped \<Rightarrow> 4 | _ \<Rightarrow> 0)"

subsection \<open>Receivers and the status of a result\<close>

text \<open>The statuses that occur while a run is under way.\<close>

definition verdict :: "RunStatus \<Rightarrow> bool" where
  "verdict s \<longleftrightarrow> StatusPassed \<le> s"

lemma verdict_simps [simp]:
  "verdict StatusPassed" "verdict StatusFailed" "verdict StatusError"
  "\<not> verdict StatusSkipped" "\<not> verdict StatusRunning"
  by (simp_all add: verdict_def less_eq_RunStatus_def)

lemma status_order [simp]:
  "StatusPassed \<le> StatusFailed" "StatusPassed \<le> StatusError" "StatusFailed \<le> StatusError"
  "\<not> StatusFailed \<le> StatusPassed" "\<not> StatusError \<le> StatusPassed" "\<not> StatusError \<le> StatusFailed"
  by (simp_all add: less_eq_RunStatus_def)

lemma merge_status_max: "verdict rcv \<Longrightarrow> verdict s \<Longrightarrow> merge_status rcv s = max rcv s"
  by (cases rcv; cases s; simp add: merge_status_def max_def)

lemma verdict_max [simp]: "verdict a \<Longrightarrow> verdict b \<Longrightarrow> verdict (max a b)"
  by (simp add: max_def)

lemma assert_loop_status:
  "assert_loop L r acfgs msg vars e = Some ((status, tx), vars', e') \<Longrightarrow> verdict status"
  by (induction acfgs arbitrary: vars e)
    (auto split: Option.bind_split_asm sum.splits option.splits)

lemma collectAndAssert_result:
  assumes "collectAndAssert orc ctx runID rcfg inst vars w = Some (res, vars', w')"
  shows "verdict (rr_Status res)" and "rr_Type res = rc_Type rcfg"
  using assms assert_loop_status
  by (fastforce simp: collectAndAssert_def Let_def split_beta
      split: Option.bind_split_asm sum.splits)+

lemma receiver_goroutine_result:
  assumes "receiver_goroutine orc ctx runID i r vars w = Some (res, vars', w')"
  shows "verdict (rr_Status res)" and "rr_Type res = rc_Type (ar_cfg r)" and "rr_TriggerIndex res = i"
  using assms collectAndAssert_result
  by (fastforce simp: receiver_goroutine_def Let_def split_beta split: Option.bind_split_asm)+

text \<open>The merges of a step, whatever the order of the goroutines.\<close>

abbreviation statuses :: "ReceiverResult list \<Rightarrow> RunStatus list" where
  "statuses rs \<equiv> map rr_Status rs"

lemma merge_all:
  assumes "\<forall>r \<in> set rs. verdict (rr_Status r)" and "verdict (tr_Status result)"
  shows "fold merge_result rs result = result\<lparr>tr_Receivers := tr_Receivers result @ rs,
     tr_Status := fold max (statuses rs) (tr_Status result)\<rparr>"
  using assms
proof (induction rs arbitrary: result)
  case Nil
  then show ?case by simp
next
  case (Cons r rs)
  then show ?case
    using Cons.IH [of "merge_result r result"] by (simp add: merge_result_def merge_status_max)
qed

lemma fold_max: "fold max xs (s :: 'a :: linorder) = Max (insert s (set xs))"
  using Max.set_eq_fold [of s xs] by simp

lemma fold_max_mset: "mset xs = mset ys \<Longrightarrow> fold max xs (s :: 'a :: linorder) = fold max ys s"
  unfolding fold_max by (metis mset_eq_setD)

lemma fold_max_ge: "s \<le> fold max xs (s :: 'a :: linorder)"
  by (simp add: fold_max)

lemma fold_max_eq: "fold max xs (s :: 'a :: linorder) = s \<longleftrightarrow> (\<forall>x \<in> set xs. x \<le> s)"
  by (simp add: fold_max Max_eq_iff)

lemma fold_max_in: "fold max xs (s :: 'a :: linorder) \<in> insert s (set xs)"
  using Max_in [of "insert s (set xs)"] by (simp add: fold_max)

lemma verdict_fold_max: "verdict s \<Longrightarrow> \<forall>x \<in> set xs. verdict x \<Longrightarrow> verdict (fold max xs s)"
  using fold_max_in [of xs s] by auto

lemma collect_loop_result:
  assumes "collect_loop orc ctx runID i t0 t1 ord vars result w = Some (result', vars', w')"
  shows "\<exists>rs. result' = fold merge_result rs result \<and> length rs = length ord
     \<and> map rr_Type rs = map (\<lambda>r. rc_Type (ar_cfg r)) ord
     \<and> (\<forall>r \<in> set rs. verdict (rr_Status r) \<and> rr_TriggerIndex r = i)"
  using assms
proof (induction ord arbitrary: t1 vars result w)
  case Nil
  then show ?case by simp
next
  case (Cons r ord)
  from Cons.prems obtain rcv vars1 w1 where
    g: "receiver_goroutine orc ctx runID i r vars (w\<lparr>clock := t0\<rparr>) = Some (rcv, vars1, w1)"
    and l: "collect_loop orc ctx runID i t0 (max t1 (clock w1)) ord vars1 (merge_result rcv result) w1 = Some (result', vars', w')"
    by (auto split: Option.bind_split_asm)
  from Cons.IH [OF l] obtain rs where "result' = fold merge_result rs (merge_result rcv result)"
    "length rs = length ord" "map rr_Type rs = map (\<lambda>r. rc_Type (ar_cfg r)) ord"
    "\<forall>r \<in> set rs. verdict (rr_Status r) \<and> rr_TriggerIndex r = i" by blast
  with receiver_goroutine_result [OF g] show ?case by (intro exI [of _ "rcv # rs"]) simp
qed

lemma collectAndAssertAll_result:
  assumes "collectAndAssertAll orc ctx runID active vars result i w = Some (result', vars', w')"
    and "verdict (tr_Status result)"
  shows "\<exists>rs err. result' = result\<lparr>tr_Receivers := tr_Receivers result @ rs,
        tr_Status := fold max (statuses rs) (tr_Status result), tr_Error := err\<rparr>
     \<and> err = (if tr_Error result = [] \<and> tr_Status result' \<noteq> StatusPassed
              then summarizeReceiverErrors (tr_Receivers result @ rs) else tr_Error result)
     \<and> mset (map rr_Type rs) = mset (map (\<lambda>r. rc_Type (ar_cfg r)) active)
     \<and> (\<forall>r \<in> set rs. verdict (rr_Status r) \<and> rr_TriggerIndex r = i)"
proof -
  from assms(1) obtain ord e result1 where "go_range active (draws w) = (ord, e)"
    and l: "collect_loop orc ctx runID i (clock w) (clock w) ord vars result (w\<lparr>draws := e\<rparr>) = Some (result1, vars', w')"
    and r: "result' = (if tr_Error result1 = [] \<and> tr_Status result1 \<noteq> StatusPassed
           then result1\<lparr>tr_Error := summarizeReceiverErrors (tr_Receivers result1)\<rparr> else result1)"
    by (cases "go_range active (draws w)")
      (auto simp: collectAndAssertAll_def Let_def split: Option.bind_split_asm)
  from this(1) have ord: "mset ord = mset active" using mset_go_range [of active "draws w"] by simp
  from collect_loop_result [OF l] obtain rs where rs: "result1 = fold merge_result rs result"
    "map rr_Type rs = map (\<lambda>r. rc_Type (ar_cfg r)) ord"
    "\<forall>r \<in> set rs. verdict (rr_Status r) \<and> rr_TriggerIndex r = i" by blast
  from merge_all [of rs result] rs assms(2) have r1: "result1 = result\<lparr>tr_Receivers := tr_Receivers result @ rs,
      tr_Status := fold max (statuses rs) (tr_Status result)\<rparr>" by simp
  have "mset (map rr_Type rs) = mset (map (\<lambda>r. rc_Type (ar_cfg r)) active)"
    unfolding rs(2) using ord by simp
  with r r1 rs(3) show ?thesis
    by (intro exI [of _ rs] exI [of _ "tr_Error result'"]) auto
qed

subsection \<open>Attempts\<close>

text \<open>How a step changes the result: the identity stays, the status only gets worse, the
  receivers of the step are appended and none of them is worse than the status.\<close>

definition grows :: "int \<Rightarrow> TestResult \<Rightarrow> TestResult \<Rightarrow> bool" where
  "grows i r r' \<longleftrightarrow>
     tr_TestID r' = tr_TestID r \<and> tr_RunID r' = tr_RunID r \<and> tr_StartedAt r' = tr_StartedAt r
     \<and> tr_Attempts r \<le> tr_Attempts r'
     \<and> verdict (tr_Status r') \<and> tr_Status r \<le> tr_Status r'
     \<and> (\<exists>rs. tr_Receivers r' = tr_Receivers r @ rs
          \<and> (\<forall>x \<in> set rs. rr_TriggerIndex x = i \<and> verdict (rr_Status x) \<and> rr_Status x \<le> tr_Status r'))"

lemma grows_refl [simp]: "verdict (tr_Status r) \<Longrightarrow> grows i r r"
  by (simp add: grows_def)

lemma grows_verdict: "grows i r r' \<Longrightarrow> verdict (tr_Status r')"
  by (simp add: grows_def)

lemma grows_attempts: "grows i a b \<Longrightarrow> tr_Attempts a \<le> tr_Attempts b"
  by (simp add: grows_def)

lemma grows_trans [trans]:
  assumes "grows i a b" and "grows i b c"
  shows "grows i a c"
proof -
  from assms obtain rs rs' where
    "tr_Receivers b = tr_Receivers a @ rs" "tr_Receivers c = tr_Receivers b @ rs'"
    "\<forall>x \<in> set rs. rr_TriggerIndex x = i \<and> verdict (rr_Status x) \<and> rr_Status x \<le> tr_Status b"
    "\<forall>x \<in> set rs'. rr_TriggerIndex x = i \<and> verdict (rr_Status x) \<and> rr_Status x \<le> tr_Status c"
    by (auto simp: grows_def)
  moreover have "tr_Status b \<le> tr_Status c" using assms(2) by (simp add: grows_def)
  ultimately show ?thesis
    using assms unfolding grows_def
    by (intro conjI exI [of _ "rs @ rs'"]) (auto intro: order_trans)
qed

lemma grows_attempt [simp]: "verdict (tr_Status r) \<Longrightarrow> grows i r (r\<lparr>tr_Attempts := Suc (tr_Attempts r)\<rparr>)"
  by (simp add: grows_def)

lemma grows_failResult: "verdict (tr_Status r) \<Longrightarrow> grows i r (fst (failResult tx r w))"
  by (cases "tr_Status r") (simp_all add: grows_def failResult_def split_beta Let_def)

lemma failResult_status [simp]:
  "tr_Status (fst (failResult tx r w)) = StatusError"
  "tr_Error (fst (failResult tx r w)) = tx"
  "tr_Attempts (fst (failResult tx r w)) = tr_Attempts r"
  "tr_Receivers (fst (failResult tx r w)) = tr_Receivers r"
  "tr_TriggerVars (fst (failResult tx r w)) = tr_TriggerVars r"
  "outside (snd (failResult tx r w)) = outside w"
  by (simp_all add: failResult_def split_beta Let_def)

lemma grows_collect:
  assumes "collectAndAssertAll orc ctx runID active vars result i w = Some (result', vars', w')"
    and "verdict (tr_Status result)"
  shows "grows i result result'" and "tr_Attempts result' = tr_Attempts result"
proof -
  from collectAndAssertAll_result [OF assms] obtain rs err where
    r: "result' = result\<lparr>tr_Receivers := tr_Receivers result @ rs,
        tr_Status := fold max (statuses rs) (tr_Status result), tr_Error := err\<rparr>"
    and v: "\<forall>r \<in> set rs. verdict (rr_Status r) \<and> rr_TriggerIndex r = i" by blast
  have "rr_Status x \<le> fold max (statuses rs) (tr_Status result)" if "x \<in> set rs" for x
    unfolding fold_max using that by (intro Max_ge) auto
  moreover have "verdict (fold max (statuses rs) (tr_Status result))"
    using verdict_fold_max [OF assms(2), of "statuses rs"] v by simp
  ultimately show "grows i result result'" and "tr_Attempts result' = tr_Attempts result"
    using v r by (simp_all add: grows_def fold_max_ge)
qed

text \<open>The ways one attempt can go: the trigger fails, the step does not wait for receivers, a
  receiver does not start, or the receivers are collected.\<close>

lemma attempt_cases:
  fixes w w' :: "'x world"
  assumes "attempt_loop orc ctx rt runID trig step i (Suc left) le vars result w = Some ((p, le'), result', vars', w')"
  defines "r \<equiv> result\<lparr>tr_Attempts := tr_Attempts result + 1\<rparr>"
  obtains
    (trigger_failed) err vars1 w1 where "trig ctx step runID vars w = Some (Inl err, vars1, w1)"
      "attempt_loop orc ctx rt runID trig step i left (Some err) vars1 r
         (if 0 < left then time_Sleep (rt_Delay rt) w1 else w1) = Some ((p, le'), result', vars', w')"
  | (no_wait) stepVars vars1 where "trig ctx step runID vars w = Some (Inr stepVars, vars1, w')"
      "\<not> tc_WaitForReceivers step \<or> tc_Receivers step = []" "p" "le' = le" "result' = r" "vars' = go_copy vars1 stepVars"
  | (start_failed) stepVars vars1 w1 active e w2 tx where "trig ctx step runID vars w = Some (Inr stepVars, vars1, w1)"
      "startReceivers orc ctx (tc_Receivers step) runID (go_copy vars1 stepVars) w1 = ((active, Some e), w2)"
      "tc_WaitForReceivers step" "tc_Receivers step \<noteq> []" "\<not> p" "le' = le" "result' = fst (failResult tx r w2)" "w' = snd (failResult tx r w2)"
  | (collected) stepVars vars1 w1 active w2 result2 vars2 w3 where "trig ctx step runID vars w = Some (Inr stepVars, vars1, w1)"
      "startReceivers orc ctx (tc_Receivers step) runID (go_copy vars1 stepVars) w1 = ((active, None), w2)"
      "tc_WaitForReceivers step" "tc_Receivers step \<noteq> []"
      "collectAndAssertAll orc ctx runID active (go_copy vars1 stepVars) r (int i) w2 = Some (result2, vars2, w3)"
      "tr_Status result2 = StatusPassed \<Longrightarrow> p \<and> le' = le \<and> result' = result2 \<and> w' = stopReceivers orc active w3"
      "tr_Status result2 \<noteq> StatusPassed \<Longrightarrow>
         attempt_loop orc ctx rt runID trig step i left le vars2 result2
           (if 0 < left then time_Sleep (rt_Delay rt) (stopReceivers orc active w3) else stopReceivers orc active w3)
         = Some ((p, le'), result', vars', w')"
proof -
  from assms(1) obtain out vars1 w1 where t: "trig ctx step runID vars w = Some (out, vars1, w1)"
    by (cases "trig ctx step runID vars w") (auto simp: Let_def)
  consider (e) err where "out = Inl err" | (n) stepVars where "out = Inr stepVars" "\<not> tc_WaitForReceivers step \<or> tc_Receivers step = []"
    | (wait) stepVars where "out = Inr stepVars" "tc_WaitForReceivers step" "tc_Receivers step \<noteq> []" by (cases out) auto
  then show thesis
  proof cases
    case e
    with assms(1) t show thesis by (intro trigger_failed) (simp_all add: r_def)
  next
    case n
    with assms(1) t show thesis by (intro no_wait [of stepVars vars1]) (auto simp: r_def)
  next
    case wait
    let ?vars = "go_copy vars1 stepVars"
    obtain active err w2 where s: "startReceivers orc ctx (tc_Receivers step) runID ?vars w1 = ((active, err), w2)"
      by (metis surj_pair)
    note go = t [unfolded wait(1)]
    show thesis
    proof (cases err)
      case (Some e)
      with assms(1) go wait(2,3) s show thesis
        by (intro start_failed [OF go s[unfolded Some] wait(2,3), where tx = "step_text i ('' receiver start failed: '' @ etext e)"])
          (auto simp: r_def split_beta Let_def)
    next
      case None
      with assms(1) go wait(2,3) s obtain result2 vars2 w3 where
        c: "collectAndAssertAll orc ctx runID active ?vars r (int i) w2 = Some (result2, vars2, w3)"
        by (cases "collectAndAssertAll orc ctx runID active ?vars r (int i) w2") (auto simp: r_def Let_def)
      with assms(1) go wait(2,3) s None show thesis
        by (intro collected [OF go s[unfolded None] wait(2,3) c]) (simp_all add: r_def Let_def)
    qed
  qed
qed

text \<open>What the loop over the attempts guarantees.\<close>

definition attempts_done :: "nat \<Rightarrow> nat \<Rightarrow> TriggerConfig \<Rightarrow> gerror option \<Rightarrow> TestResult \<Rightarrow> bool \<Rightarrow> gerror option \<Rightarrow> TestResult \<Rightarrow> bool" where
  "attempts_done i left step le result p le' result' \<longleftrightarrow>
     grows (int i) result result' \<and> tr_Attempts result' \<le> tr_Attempts result + left
   \<and> (0 < left \<longrightarrow> tr_Attempts result < tr_Attempts result')
   \<and> (p \<longrightarrow> tc_WaitForReceivers step \<longrightarrow> tc_Receivers step \<noteq> [] \<longrightarrow> tr_Status result' = StatusPassed)
   \<and> (p \<longrightarrow> \<not> tc_WaitForReceivers step \<or> tc_Receivers step = [] \<longrightarrow> tr_Receivers result' = tr_Receivers result)
   \<and> (le \<noteq> None \<longrightarrow> le' \<noteq> None)
   \<and> (\<not> p \<longrightarrow> 0 < left \<longrightarrow> le' \<noteq> None \<or> tr_Status result' \<noteq> StatusPassed)"

lemma attempt_loop_done:
  assumes "attempt_loop orc ctx rt runID trig step i left le vars result w = Some ((p, le'), result', vars', w')"
    and "verdict (tr_Status result)"
  shows "attempts_done i left step le result p le' result'"
  using assms
proof (induction left arbitrary: le vars result w)
  case 0
  then show ?case by (auto simp: attempts_done_def)
next
  case (Suc left)
  let ?r = "result\<lparr>tr_Attempts := tr_Attempts result + 1\<rparr>"
  have v: "verdict (tr_Status ?r)" using Suc.prems(2) by simp
  have g: "grows (int i) result ?r" using Suc.prems(2) by simp
  from Suc.prems(1) show ?case
  proof (cases rule: attempt_cases)
    case (trigger_failed err vars1 w1)
    note ih = Suc.IH [OF trigger_failed(2) v, unfolded attempts_done_def]
    have "tr_Attempts result < tr_Attempts result'"
      using grows_attempts [OF conjunct1 [OF ih]] by simp
    with ih grows_trans [OF g conjunct1 [OF ih]] show ?thesis by (auto simp: attempts_done_def)
  next
    case no_wait
    with g show ?thesis by (auto simp: attempts_done_def)
  next
    case (start_failed stepVars vars1 w1 active e w2 tx)
    with grows_trans [OF g grows_failResult [OF v, of "int i" tx w2]] show ?thesis by (auto simp: attempts_done_def)
  next
    case (collected stepVars vars1 w1 active w2 result2 vars2 w3)
    note c = grows_collect [OF collected(5) v]
    from grows_trans [OF g c(1)] have g2: "grows (int i) result result2" .
    show ?thesis
    proof (cases "tr_Status result2 = StatusPassed")
      case True
      with collected g2 c(2) show ?thesis by (auto simp: attempts_done_def)
    next
      case False
      note ih = Suc.IH [OF collected(7) [OF False] grows_verdict [OF c(1)], unfolded attempts_done_def]
      from ih have gr: "grows (int i) result2 result'" by blast
      with False have "tr_Status result' \<noteq> StatusPassed"
        using c(1) by (auto simp: grows_def verdict_def)
      moreover have "tr_Attempts result < tr_Attempts result'"
        using grows_attempts [OF gr] c(2) by simp
      ultimately show ?thesis
        using ih grows_trans [OF g2 gr] c(2) collected(3,4) by (auto simp: attempts_done_def)
    qed
  qed
qed

lemma attempt_loop_result:
  assumes "attempt_loop orc ctx rt runID trig step i left le vars result w = Some ((p, le'), result', vars', w')"
    and "verdict (tr_Status result)"
  shows "grows (int i) result result'"
    and "tr_Attempts result' \<le> tr_Attempts result + left"
    and "0 < left \<Longrightarrow> tr_Attempts result < tr_Attempts result'"
    and "p \<Longrightarrow> tc_WaitForReceivers step \<Longrightarrow> tc_Receivers step \<noteq> [] \<Longrightarrow> tr_Status result' = StatusPassed"
    and "p \<Longrightarrow> \<not> tc_WaitForReceivers step \<or> tc_Receivers step = [] \<Longrightarrow> tr_Receivers result' = tr_Receivers result"
    and "le \<noteq> None \<Longrightarrow> le' \<noteq> None"
    and "\<not> p \<Longrightarrow> 0 < left \<Longrightarrow> le' \<noteq> None \<or> tr_Status result' \<noteq> StatusPassed"
  using attempt_loop_done [OF assms] unfolding attempts_done_def by blast+

lemma start_loop_ok:
  assumes "start_loop rv ctx runID vars configs active w = ((active', None), w')"
  shows "map ar_cfg active' = map ar_cfg active @ configs"
  using assms
  by (induction configs arbitrary: active w)
    (fastforce simp: split_beta Let_def split: sum.splits option.splits prod.splits)+

lemma startReceivers_ok:
  "startReceivers orc ctx configs runID vars w = ((active, None), w') \<Longrightarrow> map ar_cfg active = configs"
  using start_loop_ok [of "or_receivers orc" ctx runID vars configs "[]" w active w'] by (simp add: startReceivers_def)

definition has_recipient :: "ReceiverConfig \<Rightarrow> bool" where
  "has_recipient rcfg \<longleftrightarrow> rc_Recipient rcfg \<noteq> []"

lemma reserve_loop_ok:
  assumes "reserve_loop st runID configs reserved w = ((reserved', None), w')"
  shows "reserved' = reserved @ filter has_recipient configs"
  using assms
  by (induction configs arbitrary: reserved w)
    (fastforce simp: has_recipient_def split_beta Let_def split: if_splits option.splits prod.splits)+

lemma reserveRecipients_ok:
  "reserveRecipients orc configs runID w = ((reserved, None), w') \<Longrightarrow> reserved = filter has_recipient configs"
  using reserve_loop_ok [of "or_store orc" runID configs "[]" w reserved w'] by (simp add: reserveRecipients_def)

text \<open>A step that passes and waits has collected every one of its receivers exactly once.\<close>

lemma collected_all_passed:
  assumes "collectAndAssertAll orc ctx runID active vars r (int i) w = Some (result2, vars2, w')"
    and "verdict (tr_Status r)" and "tr_Status result2 = StatusPassed"
  shows "\<exists>rs. tr_Receivers result2 = tr_Receivers r @ rs \<and> mset (map rr_Type rs) = mset (map rc_Type (map ar_cfg active))
     \<and> (\<forall>x \<in> set rs. rr_TriggerIndex x = int i \<and> rr_Status x = StatusPassed)"
proof -
  from collectAndAssertAll_result [OF assms(1,2)] obtain rs er where
    r2: "result2 = r\<lparr>tr_Receivers := tr_Receivers r @ rs, tr_Status := fold max (statuses rs) (tr_Status r), tr_Error := er\<rparr>"
    and ty: "mset (map rr_Type rs) = mset (map (\<lambda>r. rc_Type (ar_cfg r)) active)"
    and st: "\<forall>r \<in> set rs. verdict (rr_Status r) \<and> rr_TriggerIndex r = int i" by blast
  have "rr_Status x = StatusPassed" if "x \<in> set rs" for x
  proof -
    have "rr_Status x \<le> fold max (statuses rs) (tr_Status r)"
      unfolding fold_max using that by (intro Max_ge) auto
    with assms(3) r2 st that show ?thesis by (auto simp: verdict_def)
  qed
  with r2 ty st show ?thesis by (intro exI [of _ rs]) (auto simp: comp_def)
qed

lemma attempt_loop_receivers:
  assumes "attempt_loop orc ctx rt runID trig step i left le vars result w = Some ((True, le'), result', vars', w')"
    and "verdict (tr_Status result)" and "tc_WaitForReceivers step" and "tc_Receivers step \<noteq> []"
  shows "\<exists>rs. tr_Receivers result' = tr_Receivers result @ rs
     \<and> mset (map rr_Type rs) = mset (map rc_Type (tc_Receivers step))
     \<and> (\<forall>x \<in> set rs. rr_TriggerIndex x = int i \<and> rr_Status x = StatusPassed)"
  using assms(1,2)
proof (induction left arbitrary: le vars result w)
  case 0
  then show ?case by simp
next
  case (Suc left)
  have v: "verdict (tr_Status (result\<lparr>tr_Attempts := tr_Attempts result + 1\<rparr>))" using Suc.prems(2) by simp
  from Suc.prems(1) show ?case
  proof (cases rule: attempt_cases)
    case (trigger_failed err vars1 w1)
    from Suc.IH [OF trigger_failed(2) v] show ?thesis by simp
  next
    case (collected stepVars vars1 w1 active w2 result2 vars2 w3)
    from startReceivers_ok [OF collected(2)] have active: "map ar_cfg active = tc_Receivers step" .
    show ?thesis
    proof (cases "tr_Status result2 = StatusPassed")
      case True
      with collected_all_passed [OF collected(5) v] collected(6) active show ?thesis by simp
    next
      case False
      from grows_collect [OF collected(5) v] have g: "grows (int i) (result\<lparr>tr_Attempts := tr_Attempts result + 1\<rparr>) result2" by simp
      note rest = attempt_loop_result [OF collected(7) [OF False] grows_verdict [OF g]]
      from rest(1,4) assms(3,4) have "tr_Status result2 \<le> tr_Status result'" "tr_Status result' = StatusPassed"
        by (simp_all add: grows_def)
      then show ?thesis using False grows_verdict [OF g] by (simp add: verdict_def)
    qed
  qed (use assms(3,4) in simp_all)
qed

subsection \<open>Steps\<close>

definition step_start :: "TriggerConfig \<Rightarrow> 'x world \<Rightarrow> 'x world" where
  "step_start step w = (if 0 < tc_DelayBefore step then time_Sleep (tc_DelayBefore step) w else w)"

text \<open>The ways a step can go, with the worlds it goes through.\<close>

lemma run_step_cases:
  assumes "run_step orc ctx rt runID step i defers vars result w = Some out"
  defines "r \<equiv> result\<lparr>tr_TriggerVars := vars\<rparr>" and "w1 \<equiv> step_start step w"
    and "reserved \<equiv> filter has_recipient (tc_Receivers step)"
  obtains
    (no_trigger) err where
      "TriggerRegistry_Create (or_triggers orc) (EffectiveType step) (tc_Options step) = Inl err"
      "out = Inl (fst (failResult (etext err) r w1), defers, snd (failResult (etext err) r w1))"
  | (conflict) reserved1 err w2 where
      "reserveRecipients orc (tc_Receivers step) runID w1 = ((reserved1, Some err), w2)"
      "out = Inl (fst (failResult (etext err) r w2), defers, snd (failResult (etext err) r w2))"
  | (failed) trig w2 le vars1 result1 w3 tx where
      "TriggerRegistry_Create (or_triggers orc) (EffectiveType step) (tc_Options step) = Inr trig"
      "attempt_loop orc ctx rt runID trig step i (stepMaxAttempts rt) None vars result (snd (time_Now w2)) =
         Some ((False, le), result1, vars1, w3)"
      "reserveRecipients orc (tc_Receivers step) runID w1 = ((reserved, None), w2)"
      "out = Inl (if le = None then (result1\<lparr>tr_TriggerVars := vars1\<rparr>, reserved # defers, w3)
         else (fst (failResult tx (result1\<lparr>tr_TriggerVars := vars1\<rparr>) w3), reserved # defers,
           snd (failResult tx (result1\<lparr>tr_TriggerVars := vars1\<rparr>) w3)))"
  | (passed) trig w2 le vars1 result1 w3 where
      "TriggerRegistry_Create (or_triggers orc) (EffectiveType step) (tc_Options step) = Inr trig"
      "attempt_loop orc ctx rt runID trig step i (stepMaxAttempts rt) None vars result (snd (time_Now w2)) =
         Some ((True, le), result1, vars1, w3)"
      "reserveRecipients orc (tc_Receivers step) runID w1 = ((reserved, None), w2)"
      "out = Inr (vars1, result1\<lparr>tr_TriggerVars := vars1, tr_Status := StatusPassed\<rparr>, reserved # defers, w3)"
proof (cases "TriggerRegistry_Create (or_triggers orc) (EffectiveType step) (tc_Options step)")
  case (Inl err)
  with assms(1) [unfolded run_step_def, folded step_start_def w1_def] show thesis
    by (intro no_trigger) (auto simp: r_def Let_def split_beta)
next
  case (Inr trig)
  obtain reserved1 err w2 where s: "reserveRecipients orc (tc_Receivers step) runID w1 = ((reserved1, err), w2)"
    by (metis surj_pair)
  note step = assms(1) [unfolded run_step_def, folded step_start_def w1_def]
  show thesis
  proof (cases err)
    case (Some e)
    with step Inr s show thesis
      by (intro conflict [of reserved1 e w2]) (auto simp: r_def Let_def split_beta)
  next
    case None
    with s reserveRecipients_ok have ok: "reserveRecipients orc (tc_Receivers step) runID w1 = ((reserved, None), w2)"
      by (fastforce simp: reserved_def)
    obtain p le result1 vars1 w3 where
      a: "attempt_loop orc ctx rt runID trig step i (stepMaxAttempts rt) None vars result (snd (time_Now w2)) =
            Some ((p, le), result1, vars1, w3)"
      using step Inr ok
      by (cases "attempt_loop orc ctx rt runID trig step i (stepMaxAttempts rt) None vars result (snd (time_Now w2))")
        (auto simp: Let_def)
    show thesis
    proof (cases p)
      case True
      with step Inr ok a show thesis by (intro passed [OF Inr _ ok, of le result1 vars1 w3]) (simp_all add: Let_def)
    next
      case False
      with step Inr ok a show thesis
        by (intro failed [OF Inr _ ok, of le result1 vars1 w3 "step_text i ('' trigger failed: '' @ etext (the le))"])
          (cases le; auto simp: Let_def split_beta)+
    qed
  qed
qed

lemma steps_cases:
  assumes "steps_loop orc ctx rt runID (step # steps) i defers vars result w = Some r"
  obtains (stop) "run_step orc ctx rt runID step i defers vars result w = Some (Inl r)"
  | (next_step) vars1 result1 defers1 w1 where
      "run_step orc ctx rt runID step i defers vars result w = Some (Inr (vars1, result1, defers1, w1))"
      "steps_loop orc ctx rt runID steps (Suc i) defers1 vars1 result1 w1 = Some r"
  using assms by (auto split: Option.bind_split_asm sum.splits)

lemma stepMaxAttempts_pos: "0 < stepMaxAttempts rt"
  by (simp add: stepMaxAttempts_def)

lemma grows_ids: "grows i r r' \<Longrightarrow> tr_TestID r' = tr_TestID r \<and> tr_RunID r' = tr_RunID r \<and> tr_StartedAt r' = tr_StartedAt r"
  by (simp add: grows_def)

text \<open>What a list of steps does to a result that has passed so far.\<close>

definition extends :: "nat \<Rightarrow> TestResult \<Rightarrow> TestResult \<Rightarrow> bool" where
  "extends bound r r' \<longleftrightarrow>
     tr_TestID r' = tr_TestID r \<and> tr_RunID r' = tr_RunID r \<and> tr_StartedAt r' = tr_StartedAt r
     \<and> verdict (tr_Status r') \<and> tr_Attempts r \<le> tr_Attempts r' \<and> tr_Attempts r' \<le> tr_Attempts r + bound
     \<and> (\<exists>rs. tr_Receivers r' = tr_Receivers r @ rs \<and> (\<forall>x \<in> set rs. rr_Status x \<le> tr_Status r'))"

lemma extends_failed: "extends b r (fst (failResult tx (r\<lparr>tr_TriggerVars := vs\<rparr>) w))"
proof -
  have "x \<le> StatusError" for x by (cases x) (simp_all add: less_eq_RunStatus_def)
  then show ?thesis by (simp add: extends_def failResult_def split_beta Let_def)
qed

lemma step_extends:
  assumes "attempt_loop orc ctx rt runID trig step i (stepMaxAttempts rt) None vars result w = Some ((p, le), result1, vars1, w1)"
    and "tr_Status result = StatusPassed"
  shows "extends (stepMaxAttempts rt) result result1"
    and "p \<Longrightarrow> extends (stepMaxAttempts rt) result (result1\<lparr>tr_TriggerVars := vs, tr_Status := StatusPassed\<rparr>)"
proof -
  have v: "verdict (tr_Status result)" using assms(2) by simp
  note a = attempt_loop_result [OF assms(1) v]
  from a(1,2) show "extends (stepMaxAttempts rt) result result1"
    by (auto simp: grows_def extends_def)
  show "extends (stepMaxAttempts rt) result (result1\<lparr>tr_TriggerVars := vs, tr_Status := StatusPassed\<rparr>)" if p
  proof (cases "tc_WaitForReceivers step \<and> tc_Receivers step \<noteq> []")
    case True
    with a(4) that have "tr_Status result1 = StatusPassed" by simp
    with a(1,2) show ?thesis by (auto simp: grows_def extends_def)
  next
    case False
    with a(5) that have "tr_Receivers result1 = tr_Receivers result" by blast
    with a(1,2) show ?thesis by (auto simp: grows_def extends_def)
  qed
qed

lemma extends_trans:
  assumes "extends b r r'" and "tr_Status r' = StatusPassed" and "extends b' r' r''"
  shows "extends (b + b') r r''"
proof -
  from assms obtain rs rs' where "tr_Receivers r' = tr_Receivers r @ rs" "\<forall>x \<in> set rs. rr_Status x \<le> StatusPassed"
    "tr_Receivers r'' = tr_Receivers r' @ rs'" "\<forall>x \<in> set rs'. rr_Status x \<le> tr_Status r''"
    by (auto simp: extends_def)
  moreover have "StatusPassed \<le> tr_Status r''" using assms(3) by (simp add: extends_def verdict_def)
  ultimately show ?thesis
    using assms(1,3) unfolding extends_def
    by (intro conjI exI [of _ "rs @ rs'"]) (auto intro: order_trans)
qed

lemma run_step_extends:
  assumes "run_step orc ctx rt runID step i defers vars result w = Some out"
    and "tr_Status result = StatusPassed"
  shows "case out of
      Inl (result1, _) \<Rightarrow> extends (stepMaxAttempts rt) result result1
    | Inr (_, result1, _) \<Rightarrow> extends (stepMaxAttempts rt) result result1 \<and> tr_Status result1 = StatusPassed"
  using assms(1)
proof (cases rule: run_step_cases)
  case (failed trig w2 le vars1 result1 w3 tx)
  note e = step_extends(1) [OF failed(2) assms(2)]
  have "x \<le> StatusError" for x by (cases x) (simp_all add: less_eq_RunStatus_def)
  with e failed(4) show ?thesis
    by (cases le) (auto simp: extends_def failResult_def split_beta Let_def)
next
  case (passed trig w2 le vars1 result1 w3)
  from step_extends(2) [OF passed(2) assms(2) TrueI, of vars1] passed(4) show ?thesis by simp
qed (simp_all add: extends_failed)

lemma steps_loop_extends:
  assumes "steps_loop orc ctx rt runID steps i defers vars result w = Some (result', defers', w')"
    and "tr_Status result = StatusPassed"
  shows "extends (length steps * stepMaxAttempts rt) result result'"
  using assms
proof (induction steps arbitrary: i defers vars result w)
  case Nil
  then show ?case by (auto simp: extends_def)
next
  case (Cons step steps)
  from Cons.prems(1) show ?case
  proof (cases rule: steps_cases)
    case stop
    from run_step_extends [OF stop Cons.prems(2)] show ?thesis by (auto simp: extends_def)
  next
    case (next_step vars1 result1 defers1 w1)
    from run_step_extends [OF next_step(1) Cons.prems(2)]
    have e: "extends (stepMaxAttempts rt) result result1" and p: "tr_Status result1 = StatusPassed" by simp_all
    from extends_trans [OF e p Cons.IH [OF next_step(2) p]] show ?thesis by simp
  qed
qed

text \<open>A step that does not pass leaves a result that has not passed.\<close>

lemma failed_step_status:
  assumes "attempt_loop orc ctx rt runID trig step i (stepMaxAttempts rt) None vars result w = Some ((False, le), result1, vars1, w1)"
    and "tr_Status result = StatusPassed"
  shows "le = None \<Longrightarrow> tr_Status result1 \<noteq> StatusPassed"
  using attempt_loop_result(7) [OF assms(1)] assms(2) stepMaxAttempts_pos by simp

text \<open>The receiver results of one step that has passed.\<close>

definition step_results :: "TriggerConfig \<Rightarrow> nat \<Rightarrow> ReceiverResult list \<Rightarrow> bool" where
  "step_results step i rs \<longleftrightarrow>
     (\<forall>x \<in> set rs. rr_TriggerIndex x = int i \<and> rr_Status x = StatusPassed)
     \<and> mset (map rr_Type rs) = (if tc_WaitForReceivers step then mset (map rc_Type (tc_Receivers step)) else {#})"

lemma passed_step_results:
  assumes "attempt_loop orc ctx rt runID trig step i left None vars result w = Some ((True, le), result1, vars1, w1)"
    and "verdict (tr_Status result)"
  shows "\<exists>rs. tr_Receivers result1 = tr_Receivers result @ rs \<and> step_results step i rs"
proof (cases "tc_WaitForReceivers step \<and> tc_Receivers step \<noteq> []")
  case True
  with attempt_loop_receivers [OF assms] show ?thesis by (auto simp: step_results_def)
next
  case False
  with attempt_loop_result(5) [OF assms] show ?thesis by (intro exI [of _ "[]"]) (auto simp: step_results_def)
qed

lemma run_step_stop:
  assumes "run_step orc ctx rt runID step i defers vars result w = Some (Inl (result1, defers1, w1))"
    and "tr_Status result = StatusPassed"
  shows "tr_Status result1 \<noteq> StatusPassed"
  using assms(1)
proof (cases rule: run_step_cases)
  case (failed trig w2 le vars1 result2 w3 tx)
  with failed_step_status [OF failed(2) assms(2)] show ?thesis by (cases le) auto
qed auto

lemma run_step_pass:
  assumes "run_step orc ctx rt runID step i defers vars result w = Some (Inr (vars1, result1, defers1, w1))"
    and "verdict (tr_Status result)"
  shows "\<exists>rs. tr_Receivers result1 = tr_Receivers result @ rs \<and> step_results step i rs
     \<and> defers1 = filter has_recipient (tc_Receivers step) # defers
     \<and> tr_Attempts result < tr_Attempts result1 \<and> tr_Status result1 = StatusPassed"
  using assms(1)
proof (cases rule: run_step_cases)
  case (passed trig w2 le vars2 result2 w3)
  from passed_step_results [OF passed(2) assms(2)] passed(4)
    attempt_loop_result(3) [OF passed(2) assms(2) stepMaxAttempts_pos] show ?thesis by auto
qed auto

lemma steps_loop_passed:
  assumes "steps_loop orc ctx rt runID steps i defers vars result w = Some (result', defers', w')"
    and "tr_Status result = StatusPassed" and "tr_Status result' = StatusPassed"
  shows "\<exists>rss. tr_Receivers result' = tr_Receivers result @ concat rss \<and> length rss = length steps
       \<and> (\<forall>j < length steps. step_results (steps ! j) (i + j) (rss ! j))"
    and "tr_Attempts result + length steps \<le> tr_Attempts result'"
    and "set defers \<subseteq> set defers'"
    and "\<forall>step \<in> set steps. filter has_recipient (tc_Receivers step) \<in> set defers'"
proof -
  have "(\<exists>rss. tr_Receivers result' = tr_Receivers result @ concat rss \<and> length rss = length steps
       \<and> (\<forall>j < length steps. step_results (steps ! j) (i + j) (rss ! j)))
    \<and> tr_Attempts result + length steps \<le> tr_Attempts result' \<and> set defers \<subseteq> set defers'
    \<and> (\<forall>step \<in> set steps. filter has_recipient (tc_Receivers step) \<in> set defers')"
    using assms
  proof (induction steps arbitrary: i defers vars result w)
    case Nil
    then show ?case by auto
  next
    case (Cons step steps)
    from Cons.prems(1) show ?case
    proof (cases rule: steps_cases)
      case stop
      from run_step_stop [OF stop Cons.prems(2)] Cons.prems(3) show ?thesis by simp
    next
      case (next_step vars0 result0 defers0 w0)
      have v: "verdict (tr_Status result)" using Cons.prems(2) by simp
      from run_step_pass [OF next_step(1) v] obtain rs where
        rs: "tr_Receivers result0 = tr_Receivers result @ rs" "step_results step i rs"
        and d: "defers0 = filter has_recipient (tc_Receivers step) # defers"
        and a: "tr_Attempts result < tr_Attempts result0" "tr_Status result0 = StatusPassed" by blast
      from Cons.IH [OF next_step(2) a(2) Cons.prems(3)] d obtain rss where
        ih: "tr_Receivers result' = tr_Receivers result0 @ concat rss" "length rss = length steps"
          "\<forall>j < length steps. step_results (steps ! j) (Suc i + j) (rss ! j)"
        and ih2: "tr_Attempts result0 + length steps \<le> tr_Attempts result'"
          "insert (filter has_recipient (tc_Receivers step)) (set defers) \<subseteq> set defers'"
          "\<forall>step \<in> set steps. filter has_recipient (tc_Receivers step) \<in> set defers'"
        by auto
      have "step_results ((step # steps) ! j) (i + j) ((rs # rss) ! j)" if "j < length (step # steps)" for j
        using that rs(2) ih(3) by (cases j) auto
      with ih ih2 rs(1) a show ?thesis
        by (intro conjI exI [of _ "rs # rss"]) auto
    qed
  qed
  then show "\<exists>rss. tr_Receivers result' = tr_Receivers result @ concat rss \<and> length rss = length steps
       \<and> (\<forall>j < length steps. step_results (steps ! j) (i + j) (rss ! j))"
    and "tr_Attempts result + length steps \<le> tr_Attempts result'"
    and "set defers \<subseteq> set defers'"
    and "\<forall>step \<in> set steps. filter has_recipient (tc_Receivers step) \<in> set defers'"
    by blast+
qed

text \<open>The steps after one that fails have no influence.\<close>

lemma steps_loop_failed_prefix:
  assumes "steps_loop orc ctx rt runID steps i defers vars result w = Some (result', defers', w')"
    and "tr_Status result = StatusPassed" and "tr_Status result' \<noteq> StatusPassed"
  shows "steps_loop orc ctx rt runID (steps @ rest) i defers vars result w = Some (result', defers', w')"
  using assms(1,2)
proof (induction steps arbitrary: i defers vars result w)
  case Nil
  with assms(3) show ?case by auto
next
  case (Cons step steps)
  from Cons.prems(1) show ?case
  proof (cases rule: steps_cases)
    case stop
    then show ?thesis by simp
  next
    case (next_step vars1 result1 defers1 w1)
    moreover from run_step_extends [OF next_step(1) Cons.prems(2)] have "tr_Status result1 = StatusPassed" by simp
    ultimately show ?thesis using Cons.IH by simp
  qed
qed

subsection \<open>Runs\<close>

lemma fold_outside: "(\<And>x w. P x \<Longrightarrow> f x w = w) \<Longrightarrow> \<forall>x \<in> set xs. P x \<Longrightarrow> fold f xs w = w"
  by (induction xs arbitrary: w) simp_all

lemma finish_simps [simp]:
  "tr_Status (fst (finish t r w)) = tr_Status r" "tr_Attempts (fst (finish t r w)) = tr_Attempts r"
  "tr_Receivers (fst (finish t r w)) = tr_Receivers r" "tr_Error (fst (finish t r w)) = tr_Error r"
  "tr_TestID (fst (finish t r w)) = tr_TestID r" "tr_RunID (fst (finish t r w)) = tr_RunID r"
  "tr_TriggerVars (fst (finish t r w)) = tr_TriggerVars r"
  "outside (snd (finish t r w)) = outside w"
  by (simp_all add: finish_def split_beta Let_def)

text \<open>The result with which a run starts.\<close>

definition initial_result :: "TestDefinition \<Rightarrow> string \<Rightarrow> int \<Rightarrow> TestResult" where
  "initial_result def runID startTime =
     \<lparr>tr_TestID = td_ID def, tr_RunID = runID, tr_Status = StatusPassed, tr_Attempts = 0,
      tr_DurationMs = 0, tr_Receivers = [], tr_Error = [], tr_StartedAt = startTime,
      tr_FinishedAt = zero_time, tr_TriggerVars = []\<rparr>"

lemma initial_result_simps [simp]:
  "tr_Status (initial_result def runID t) = StatusPassed" "tr_Attempts (initial_result def runID t) = 0"
  "tr_Receivers (initial_result def runID t) = []" "tr_TestID (initial_result def runID t) = td_ID def"
  "tr_RunID (initial_result def runID t) = runID" "tr_StartedAt (initial_result def runID t) = t"
  by (simp_all add: initial_result_def)

lemma execute_cases:
  assumes "execute orc ctx def runID w = Some (r, note, w')"
  obtains
    (disabled) "\<not> td_Enabled def" "note = None"
      "r = fst (finish (fst (time_Now w)) ((initial_result def runID (fst (time_Now w)))\<lparr>tr_Status := StatusSkipped\<rparr>) (snd (time_Now w)))"
      "outside w' = outside w"
  | (enabled) vars ord e result defers w1 where "td_Enabled def"
      "ord = fst (go_range (td_Variables def) (draws (snd (time_Now w))))"
      "variables_loop (or_lib orc) ord [(''run_id'', runID)] (snd (go_range (td_Variables def) (draws (snd (time_Now w))))) = Some (vars, e)"
      "steps_loop orc ctx (td_Retry def) runID (td_Triggers def) 0 [] vars
         (initial_result def runID (fst (time_Now w))) ((snd (time_Now w))\<lparr>draws := e\<rparr>) = Some (result, defers, w1)"
      "r = fst (finish (fst (time_Now w)) result (fold (releaseRecipients orc) defers w1))"
      "w' = snd (finish (fst (time_Now w)) result (fold (releaseRecipients orc) defers w1))"
      "note = (if tr_Status r = StatusFailed \<or> tr_Status r = StatusError then Some (td_OnFailure def, r) else None)"
proof -
  let ?w = "snd (time_Now w)" and ?t = "fst (time_Now w)"
  show thesis
  proof (cases "td_Enabled def")
    case False
    with assms show thesis
      by (intro disabled) (auto simp: execute_def initial_result_def split_beta Let_def)
  next
    case True
    let ?ord = "fst (go_range (td_Variables def) (draws ?w))" and ?e = "snd (go_range (td_Variables def) (draws ?w))"
    let ?r = "initial_result def runID ?t"
    from assms True obtain result0 w0 where
      s: "executeSequential orc ctx def runID ?r ?w = Some (result0, w0)"
      and r: "r = fst (finish ?t result0 w0)" "w' = snd (finish ?t result0 w0)"
      and n: "note = (if tr_Status r = StatusFailed \<or> tr_Status r = StatusError then Some (td_OnFailure def, r) else None)"
      by (auto simp: execute_def initial_result_def split_beta Let_def split: Option.bind_split_asm)
    from s obtain vars e defers w1 where
      v: "variables_loop (or_lib orc) ?ord [(''run_id'', runID)] ?e = Some (vars, e)"
      and l: "steps_loop orc ctx (td_Retry def) runID (td_Triggers def) 0 [] vars ?r (?w\<lparr>draws := e\<rparr>) = Some (result0, defers, w1)"
      and w0: "w0 = fold (releaseRecipients orc) defers w1"
      by (auto simp: executeSequential_def split_beta Let_def split: Option.bind_split_asm)
    from enabled [OF True refl v l r(1)[unfolded w0] r(2)[unfolded w0] n] show thesis .
  qed
qed

text \<open>The status of a run, and the notification that goes with it.\<close>

lemma execute_status:
  assumes "execute orc ctx def runID w = Some (r, note, w')"
  shows "(tr_Status r = StatusSkipped \<longleftrightarrow> \<not> td_Enabled def)
     \<and> (tr_Status r = StatusSkipped \<longrightarrow> tr_Attempts r = 0 \<and> tr_Receivers r = [] \<and> outside w' = outside w)
     \<and> tr_Status r \<noteq> StatusRunning
     \<and> note = (if is_failure (tr_Status r) then Some (td_OnFailure def, r) else None)
     \<and> tr_TestID r = td_ID def \<and> tr_RunID r = runID"
  using assms
proof (cases rule: execute_cases)
  case disabled
  then show ?thesis by (auto simp: is_failure_def)
next
  case (enabled vars ord e result defers w1)
  from steps_loop_extends [OF enabled(4)] have "extends (length (td_Triggers def) * stepMaxAttempts (td_Retry def))
      (initial_result def runID (fst (time_Now w))) result" by simp
  with enabled show ?thesis by (auto simp: extends_def is_failure_def)
qed

subsection \<open>Properties\<close>

text \<open>An orchestrator for examples: its trigger always succeeds, its receivers deliver a fixed
  message, its store accepts everything.\<close>

definition example_receivers :: "Message \<Rightarrow> (unit, 'x) Receivers" where
  "example_receivers msg =
     \<lparr>rv_Create = (\<lambda>cfg. Inr ()), rv_Start = (\<lambda>i ctx runID vars w. (None, i, w)),
      rv_Collect = (\<lambda>i ctx vars w. Some (Inr msg, vars, w)), rv_Stop = (\<lambda>i w. (None, w))\<rparr>"

definition example_orchestrator :: "'x Trigger \<Rightarrow> Message \<Rightarrow> (unit, 'x) Orchestrator" where
  "example_orchestrator trig msg =
     \<lparr>or_lib = example_lib, or_triggers = [(''http'', \<lambda>options. Inr trig)], or_store = disabled_port,
      or_receivers = example_receivers msg, or_assertions = NewDefaultRegistry example_lib\<rparr>"

definition example_definition :: "TriggerConfig list \<Rightarrow> TestDefinition" where
  "example_definition steps =
     \<lparr>td_Version = [], td_ID = ''t'', td_Schedule = [], td_Enabled = True, td_Async = False,
      td_Retry = \<lparr>rt_Enabled = True, rt_Attempts = 2, rt_Delay = 0\<rparr>, td_Variables = [],
      td_Triggers = steps, td_OnFailure = \<lparr>of_Calls = []\<rparr>\<rparr>"

definition ok_trigger :: "'x Trigger" where
  "ok_trigger ctx step runID vars w = Some (Inr [], vars, w)"

definition world0 :: "unit world" where
  "world0 = \<lparr>draws = \<lambda>_. 0, clock = 0, outside = ()\<rparr>"

lemma example_run:
  "\<exists>r w'. execute (example_orchestrator ok_trigger (example_message ''r'')) None (example_definition [example_step]) ''r'' world0
     = Some (r, None, w') \<and> tr_Status r = StatusPassed"
  by (simp add: execute_def executeSequential_def example_definition_def example_orchestrator_def
      run_step_def TriggerRegistry_Create_def EffectiveType_def example_step_def reserveRecipients_def
      stepMaxAttempts_def eval_nat_numeral ok_trigger_def finish_def split_beta Let_def)

text \<open>C3 (run_status_and_notification): a run is skipped exactly when the test is disabled, and
  then it does nothing: no attempt, no receiver, no effect on the world. Otherwise it passes,
  fails or ends in an error, and exactly in the last two cases one notification is sent, with the
  final result.\<close>

theorem run_status_and_notification:
  assumes "execute orc ctx def runID w = Some (r, note, w')"
  shows "(tr_Status r = StatusSkipped \<longleftrightarrow> \<not> td_Enabled def)
     \<and> (tr_Status r = StatusSkipped \<longrightarrow> tr_Attempts r = 0 \<and> tr_Receivers r = [] \<and> outside w' = outside w)
     \<and> tr_Status r \<noteq> StatusRunning
     \<and> note = (if is_failure (tr_Status r) then Some (td_OnFailure def, r) else None)
     \<and> tr_TestID r = td_ID def \<and> tr_RunID r = runID"
  using execute_status [OF assms] .

theorem run_status_and_notification_witness:
  "\<exists>r w'. execute (example_orchestrator ok_trigger (example_message ''r'')) None
       ((example_definition [])\<lparr>td_Enabled := False\<rparr>) ''r'' world0 = Some (r, None, w')
     \<and> tr_Status r = StatusSkipped"
proof -
  let ?d = "(example_definition [])\<lparr>td_Enabled := False\<rparr>"
  obtain r nt w' where e: "execute (example_orchestrator ok_trigger (example_message ''r'')) None ?d ''r'' world0 = Some (r, nt, w')"
    by (simp add: execute_def example_definition_def split_beta Let_def)
  from run_status_and_notification [OF e] e show ?thesis
    by (auto simp: example_definition_def is_failure_def)
qed

text \<open>C1 (passed_run_collected_everything): a run that passes has tried every step, and every
  receiver of a step that waits has been collected exactly once and has passed; no other
  receiver result is in the report.\<close>

theorem passed_run_collected_everything:
  assumes "execute orc ctx def runID w = Some (r, note, w')" and "tr_Status r = StatusPassed"
  shows "length (td_Triggers def) \<le> tr_Attempts r
     \<and> (\<exists>rss. tr_Receivers r = concat rss \<and> length rss = length (td_Triggers def)
         \<and> (\<forall>j < length (td_Triggers def). let step = td_Triggers def ! j in
              (\<forall>x \<in> set (rss ! j). rr_TriggerIndex x = int j \<and> rr_Status x = StatusPassed)
            \<and> mset (map rr_Type (rss ! j)) =
                (if tc_WaitForReceivers step then mset (map rc_Type (tc_Receivers step)) else {#})))"
  using assms(1)
proof (cases rule: execute_cases)
  case disabled
  with assms(2) show ?thesis by simp
next
  case (enabled vars ord e result defers w1)
  with assms(2) have p: "tr_Status result = StatusPassed" by simp
  from steps_loop_passed(1,2) [OF enabled(4) _ p] enabled(5) show ?thesis
    by (simp add: step_results_def Let_def)
qed

theorem passed_run_collected_everything_witness:
  "\<exists>r w'. execute (example_orchestrator ok_trigger (example_message ''r'')) None (example_definition [example_step]) ''r'' world0
     = Some (r, None, w') \<and> 1 \<le> tr_Attempts r"
proof -
  from example_run obtain r w' where
    e: "execute (example_orchestrator ok_trigger (example_message ''r'')) None (example_definition [example_step]) ''r'' world0 = Some (r, None, w')"
    and p: "tr_Status r = StatusPassed" by blast
  from passed_run_collected_everything [OF e p] e show ?thesis by (auto simp: example_definition_def)
qed

text \<open>C19 (attempts_bounded): the attempts of a run are at most the number of steps times the
  attempts configured for one (one, where retries are off or not more than one), and the
  identity of the result is that of the run.\<close>

theorem attempts_bounded:
  assumes "execute orc ctx def runID w = Some (r, note, w')"
  shows "int (tr_Attempts r) \<le> int (length (td_Triggers def)) *
     (if rt_Enabled (td_Retry def) then max 1 (rt_Attempts (td_Retry def)) else 1)"
  using assms
proof (cases rule: execute_cases)
  case disabled
  then show ?thesis by (simp add: zero_le_mult_iff le_max_iff_disj)
next
  case (enabled vars ord e result defers w1)
  from steps_loop_extends [OF enabled(4)] have "tr_Attempts result \<le> length (td_Triggers def) * stepMaxAttempts (td_Retry def)"
    by (simp add: extends_def)
  then have "int (tr_Attempts r) \<le> int (length (td_Triggers def)) * int (stepMaxAttempts (td_Retry def))"
    using enabled(5) by (simp flip: of_nat_mult)
  moreover have "int (stepMaxAttempts (td_Retry def)) = (if rt_Enabled (td_Retry def) then max 1 (rt_Attempts (td_Retry def)) else 1)"
    by (simp add: stepMaxAttempts_def)
  ultimately show ?thesis by simp
qed

theorem attempts_bounded_witness:
  "\<exists>r w'. execute (example_orchestrator ok_trigger (example_message ''r'')) None (example_definition [example_step]) ''r'' world0
     = Some (r, None, w') \<and> int (tr_Attempts r) \<le> 2"
proof -
  from example_run obtain r w' where
    e: "execute (example_orchestrator ok_trigger (example_message ''r'')) None (example_definition [example_step]) ''r'' world0 = Some (r, None, w')"
    by blast
  from attempts_bounded [OF e] e show ?thesis by (auto simp: example_definition_def)
qed

lemma execute_enabled:
  assumes "td_Enabled def"
    and "variables_loop (or_lib orc) (fst (go_range (td_Variables def) (draws (snd (time_Now w))))) [(''run_id'', runID)]
       (snd (go_range (td_Variables def) (draws (snd (time_Now w))))) = Some (vars, e)"
    and "steps_loop orc ctx (td_Retry def) runID (td_Triggers def) 0 [] vars
       (initial_result def runID (fst (time_Now w))) ((snd (time_Now w))\<lparr>draws := e\<rparr>) = Some (result, defers, w1)"
  shows "execute orc ctx def runID w =
     Some (let (r, w') = finish (fst (time_Now w)) result (fold (releaseRecipients orc) defers w1)
       in (r, if tr_Status r = StatusFailed \<or> tr_Status r = StatusError then Some (td_OnFailure def, r) else None, w'))"
  using assms unfolding initial_result_def
  by (simp add: execute_def executeSequential_def split_beta Let_def)

text \<open>C5 (failed_step_ends_run): where the steps of a test do not pass, steps added after them
  change nothing: the run, its report and its effects are the same.\<close>

theorem failed_step_ends_run:
  assumes "execute orc ctx (def\<lparr>td_Triggers := steps\<rparr>) runID w = Some (r, note, w')"
    and "tr_Status r \<noteq> StatusPassed"
  shows "execute orc ctx (def\<lparr>td_Triggers := steps @ rest\<rparr>) runID w = Some (r, note, w')"
  using assms(1)
proof (cases rule: execute_cases)
  case disabled
  have "execute orc ctx (def\<lparr>td_Triggers := steps @ rest\<rparr>) runID w = execute orc ctx (def\<lparr>td_Triggers := steps\<rparr>) runID w"
    using disabled(1) by (simp add: execute_def)
  with assms(1) show ?thesis by simp
next
  case (enabled vars ord e result defers w1)
  let ?w = "snd (time_Now w)" and ?t = "fst (time_Now w)"
  have "tr_Status result \<noteq> StatusPassed" using enabled(5) assms(2) by simp
  with steps_loop_failed_prefix [OF enabled(4), of rest]
  have l: "steps_loop orc ctx (td_Retry def) runID (steps @ rest) 0 [] vars
      (initial_result (def\<lparr>td_Triggers := steps @ rest\<rparr>) runID ?t) (?w\<lparr>draws := e\<rparr>) = Some (result, defers, w1)"
    by (simp add: initial_result_def)
  have d: "td_Enabled (def\<lparr>td_Triggers := steps @ rest\<rparr>)"
      "td_Variables (def\<lparr>td_Triggers := steps @ rest\<rparr>) = td_Variables def"
      "td_Retry (def\<lparr>td_Triggers := steps @ rest\<rparr>) = td_Retry def"
      "td_Triggers (def\<lparr>td_Triggers := steps @ rest\<rparr>) = steps @ rest"
      "td_OnFailure (def\<lparr>td_Triggers := steps @ rest\<rparr>) = td_OnFailure def"
    using enabled(1) by simp_all
  have v: "variables_loop (or_lib orc) (fst (go_range (td_Variables def) (draws ?w))) [(''run_id'', runID)]
      (snd (go_range (td_Variables def) (draws ?w))) = Some (vars, e)"
    using enabled(2,3) by simp
  from execute_enabled [OF d(1), unfolded d(2-5), OF v l] enabled(5-7) show ?thesis
    by (simp add: split_beta Let_def)
qed


text \<open>A step one of whose attempts had a trigger failure never
  ends in \<open>failed\<close>: if a later attempt fails on its assertions, the run still ends in an error that
  names the trigger.\<close>

theorem trigger_error_hides_failure:
  assumes "TriggerRegistry_Create (or_triggers orc) (EffectiveType step) (tc_Options step) = Inr trig"
    and "attempt_loop orc ctx rt runID trig step i (stepMaxAttempts rt) None vars result w1 =
         Some ((False, Some err), result1, vars1, w2)"
    and "reserveRecipients orc (tc_Receivers step) runID w = ((reserved, None), w0)" and "w1 = snd (time_Now w0)"
    and "tc_DelayBefore step \<le> 0"
  shows "\<exists>result' defers' w'. steps_loop orc ctx rt runID (step # steps) i defers vars result w = Some (result', defers', w')
     \<and> tr_Status result' = StatusError
     \<and> tr_Error result' = step_text i ('' trigger failed: '' @ etext err)"
  using assms by (simp add: run_step_def split_beta Let_def)

text \<open>C8 (report_independent_of_completion_order): whatever the order in which the goroutines of a
  step take the lock, the status of the run is the worst among its own and theirs, and the report
  holds the same receiver results.\<close>

theorem report_independent_of_completion_order:
  assumes "mset rs' = mset rs"
    and "\<forall>r \<in> set rs. rr_Status r \<in> {StatusPassed, StatusFailed, StatusError}"
    and "tr_Status result \<in> {StatusPassed, StatusFailed, StatusError}"
  shows "tr_Status (fold merge_result rs result) = Max (insert (tr_Status result) (rr_Status ` set rs))
     \<and> tr_Status (fold merge_result rs' result) = tr_Status (fold merge_result rs result)
     \<and> mset (tr_Receivers (fold merge_result rs' result)) = mset (tr_Receivers (fold merge_result rs result))"
proof -
  have v: "\<forall>r \<in> set rs. verdict (rr_Status r)" "verdict (tr_Status result)" "\<forall>r \<in> set rs'. verdict (rr_Status r)"
    using assms mset_eq_setD [OF assms(1)] by auto
  have "mset (statuses rs') = mset (statuses rs)" using assms(1) by simp
  from fold_max_mset [OF this] merge_all [OF v(1,2)] merge_all [OF v(3,2)] assms(1)
  show ?thesis by (simp add: fold_max)
qed

definition example_result :: "RunStatus \<Rightarrow> ReceiverResult" where
  "example_result s = \<lparr>rr_Type = ''api'', rr_TriggerIndex = 0, rr_Status = s, rr_DurationMs = 0, rr_Error = [], rr_Message = None\<rparr>"

theorem report_independent_of_completion_order_witness:
  "tr_Status (fold merge_result [example_result StatusError, example_result StatusFailed] (initial_result (example_definition []) ''r'' 0))
   = tr_Status (fold merge_result [example_result StatusFailed, example_result StatusError] (initial_result (example_definition []) ''r'' 0))"
  using report_independent_of_completion_order [of "[example_result StatusError, example_result StatusFailed]"
      "[example_result StatusFailed, example_result StatusError]" "initial_result (example_definition []) ''r'' 0"]
  by (simp add: example_result_def)

subsection \<open>A retry after a failing receiver\<close>

text \<open>The world counts the attempts; the trigger extracts the count, and the receiver's message
  shows it. The assertion holds from the second attempt on.\<close>

definition counting_trigger :: "nat Trigger" where
  "counting_trigger ctx step runID vars w = Some (Inr [], vars, w\<lparr>outside := Suc (outside w)\<rparr>)"

definition counting_message :: "nat \<Rightarrow> Message" where
  "counting_message n = (example_message ''r'')\<lparr>m_Fields := [(''state'', if 2 \<le> n then ''done'' else ''pending'')]\<rparr>"

definition counting_receivers :: "(unit, nat) Receivers" where
  "counting_receivers = (example_receivers (example_message ''r''))
     \<lparr>rv_Collect := (\<lambda>i ctx vars w. Some (Inr (counting_message (outside w)), vars, w))\<rparr>"

definition counting_orchestrator :: "(unit, nat) Orchestrator" where
  "counting_orchestrator =
     \<lparr>or_lib = example_lib, or_triggers = [(''http'', \<lambda>options. Inr counting_trigger)], or_store = disabled_port,
      or_receivers = counting_receivers, or_assertions = NewDefaultRegistry example_lib\<rparr>"

definition state_receiver :: ReceiverConfig where
  "state_receiver = \<lparr>rc_Type = ''api'', rc_Timeout = 0, rc_Recipient = [], rc_Options = [],
     rc_Assertions = [\<lparr>ac_Type = ''equals'', ac_Field = ''state'', ac_Value = ''done''\<rparr>], rc_Interval = 0, rc_Method = [],
     rc_URL = [], rc_Headers = None, rc_Body = None, rc_ExpectedStatus = 0, rc_ResponseAsserts = [], rc_Extract = []\<rparr>"

definition waiting_step :: TriggerConfig where
  "waiting_step = example_step\<lparr>tc_WaitForReceivers := True, tc_Receivers := [state_receiver]\<rparr>"

lemma counting_text:
  "ReplaceString L ''state'' vars e = Some (''state'', vars, snd (go_range vars e))"
  "ReplaceString L ''done'' vars e = Some (''done'', vars, snd (go_range vars e))"
  by (rule ReplaceString_text, simp)+

lemma counting_assert:
  "\<exists>tx e'. assert_loop example_lib (NewDefaultRegistry example_lib) (rc_Assertions state_receiver) (counting_message n) vars e
     = Some ((if 2 \<le> n then StatusPassed else StatusFailed, tx), vars, e')"
proof -
  have s: "ToLower ''state'' = ''state''" by (simp add: ToLower_def lower_char_def)
  show ?thesis
    by (simp add: state_receiver_def counting_text Create_def default_lookup NewEqualsAssertion_def
        equals_Assert_def counting_message_def s go_index_def Let_def)
qed

lemma counting_collect:
  assumes "verdict (tr_Status result)"
  shows "\<exists>rcv err w'. collectAndAssertAll counting_orchestrator None ''r'' [\<lparr>ar_cfg = state_receiver, ar_instance = ()\<rparr>] vars result i w
     = Some ((merge_result rcv result)\<lparr>tr_Error := err\<rparr>, vars, w')
     \<and> outside w' = outside w
     \<and> rr_Status rcv = (if 2 \<le> outside w then StatusPassed else StatusFailed)"
proof -
  let ?r = "\<lparr>ar_cfg = state_receiver, ar_instance = ()\<rparr>"
  have g: "\<exists>rcv w'. receiver_goroutine counting_orchestrator None ''r'' i ?r vars w1 = Some (rcv, vars, w')
     \<and> outside w' = outside w1 \<and> rr_Status rcv = (if 2 \<le> outside w1 then StatusPassed else StatusFailed)" for w1
  proof -
    let ?w2 = "snd (time_Now w1)"
    from counting_assert [of "outside w1" vars "draws ?w2"] obtain tx e' where
      a: "assert_loop example_lib (NewDefaultRegistry example_lib) (rc_Assertions state_receiver) (counting_message (outside w1)) vars (draws ?w2)
        = Some ((if 2 \<le> outside w1 then StatusPassed else StatusFailed, tx), vars, e')" by blast
    have t: "rc_Timeout state_receiver = 0" by (simp add: state_receiver_def)
    show ?thesis
      by (simp add: receiver_goroutine_def collectAndAssert_def t counting_orchestrator_def counting_receivers_def
          example_receivers_def disabled_port_def a split_beta Let_def)
  qed
  from g [of "w\<lparr>draws := \<lambda>n. draws w (Suc n), clock := clock w\<rparr>"] obtain rcv w' where
    r: "receiver_goroutine counting_orchestrator None ''r'' i ?r vars (w\<lparr>draws := \<lambda>n. draws w (Suc n), clock := clock w\<rparr>) = Some (rcv, vars, w')"
    and w': "outside w' = outside w" "rr_Status rcv = (if 2 \<le> outside w then StatusPassed else StatusFailed)" by auto
  let ?err = "if tr_Error result = [] \<and> tr_Status (merge_result rcv result) \<noteq> StatusPassed
      then summarizeReceiverErrors (tr_Receivers (merge_result rcv result)) else tr_Error result"
  have "collectAndAssertAll counting_orchestrator None ''r'' [?r] vars result i w =
      Some ((merge_result rcv result)\<lparr>tr_Error := ?err\<rparr>, vars, w'\<lparr>clock := max (clock w) (clock w')\<rparr>)"
    using r by (simp add: collectAndAssertAll_def merge_result_def)
  with w' show ?thesis by (intro exI [of _ rcv] exI [of _ ?err] exI) (auto)
qed

lemma counting_start:
  "startReceivers counting_orchestrator ctx (tc_Receivers waiting_step) runID vars w =
     (([\<lparr>ar_cfg = state_receiver, ar_instance = ()\<rparr>], None), w)"
  by (simp add: startReceivers_def counting_orchestrator_def counting_receivers_def example_receivers_def waiting_step_def)

lemma time_Sleep_0 [simp]: "time_Sleep 0 w = w"
  by (simp add: time_Sleep_def)

lemma counting_stop [simp]: "stopReceivers counting_orchestrator [\<lparr>ar_cfg = state_receiver, ar_instance = ()\<rparr>] w = w"
  by (simp add: stopReceivers_def counting_orchestrator_def counting_receivers_def example_receivers_def)

definition counting_retry :: RetryConfig where
  "counting_retry = \<lparr>rt_Enabled = True, rt_Attempts = 2, rt_Delay = 0\<rparr>"

lemma waiting_step_waits: "tc_WaitForReceivers waiting_step" "tc_Receivers waiting_step \<noteq> []"
  by (simp_all add: waiting_step_def)

lemma counting_attempt:
  fixes w :: "nat world"
  assumes "verdict (tr_Status result)"
  shows "\<exists>rcv err w'. attempt_loop counting_orchestrator None counting_retry ''r'' counting_trigger waiting_step 0 (Suc left) None vars result w =
      (let result' = (merge_result rcv (result\<lparr>tr_Attempts := tr_Attempts result + 1\<rparr>))\<lparr>tr_Error := err\<rparr> in
       if tr_Status result' = StatusPassed then Some ((True, None), result', vars, w')
       else attempt_loop counting_orchestrator None counting_retry ''r'' counting_trigger waiting_step 0 left None vars result' w')
    \<and> outside w' = Suc (outside w)
    \<and> rr_Status rcv = (if 1 \<le> outside w then StatusPassed else StatusFailed)"
proof -
  let ?r = "result\<lparr>tr_Attempts := tr_Attempts result + 1\<rparr>" and ?w = "w\<lparr>outside := Suc (outside w)\<rparr>"
  from counting_collect [of ?r vars 0 ?w] assms obtain rcv err w2 where
    c: "collectAndAssertAll counting_orchestrator None ''r'' [\<lparr>ar_cfg = state_receiver, ar_instance = ()\<rparr>] vars ?r 0 ?w =
      Some ((merge_result rcv ?r)\<lparr>tr_Error := err\<rparr>, vars, w2)"
    and o: "outside w2 = Suc (outside w)" "rr_Status rcv = (if 1 \<le> outside w then StatusPassed else StatusFailed)" by auto
  show ?thesis
    using c o waiting_step_waits
    by (intro exI [of _ rcv] exI [of _ err] exI) (auto simp: counting_trigger_def counting_start counting_retry_def Let_def)
qed

text \<open>There is a run whose second attempt passes completely, with
  its trigger and its only receiver, and that is nevertheless reported as failed.\<close>

theorem passing_retry_reported_failed:
  "\<exists>r note w'. execute counting_orchestrator None (example_definition [waiting_step]) ''r''
       \<lparr>draws = \<lambda>_. 0, clock = 0, outside = 0\<rparr> = Some (r, note, w')
     \<and> tr_Status r = StatusFailed \<and> tr_Attempts r = 2
     \<and> map rr_Status (tr_Receivers r) = [StatusFailed, StatusPassed]"
proof -
  let ?orc = counting_orchestrator and ?step = waiting_step and ?rt = counting_retry
  note one = counting_attempt
  have rt: "stepMaxAttempts ?rt = 2" by (simp add: stepMaxAttempts_def counting_retry_def)
  let ?start = "\<lparr>draws = \<lambda>_. 0, clock = 0, outside = 0\<rparr> :: nat world"
  let ?def = "example_definition [?step]" and ?now = "snd (time_Now ?start)"
  let ?init = "initial_result ?def ''r'' (fst (time_Now ?start))" and ?vars = "[(''run_id'', ''r'')]"
  let ?begun = "snd (time_Now (?now\<lparr>draws := draws ?now\<rparr>))"
  have v0: "verdict (tr_Status ?init)" by simp
  from one [OF v0, of 1 ?vars ?begun] obtain rcv1 err1 w2 where
    a1: "attempt_loop ?orc None ?rt ''r'' counting_trigger ?step 0 (Suc 1) None ?vars ?init ?begun =
      (let result' = (merge_result rcv1 (?init\<lparr>tr_Attempts := tr_Attempts ?init + 1\<rparr>))\<lparr>tr_Error := err1\<rparr> in
       if tr_Status result' = StatusPassed then Some ((True, None), result', ?vars, w2)
       else attempt_loop ?orc None ?rt ''r'' counting_trigger ?step 0 1 None ?vars result' w2)"
    and o1: "outside w2 = Suc (outside ?begun)" "rr_Status rcv1 = (if 1 \<le> outside ?begun then StatusPassed else StatusFailed)" by blast
  let ?first = "(merge_result rcv1 (?init\<lparr>tr_Attempts := tr_Attempts ?init + 1\<rparr>))\<lparr>tr_Error := err1\<rparr>"
  have s1: "rr_Status rcv1 = StatusFailed" "tr_Status ?first = StatusFailed" "outside w2 = 1"
    using o1 by (simp_all add: merge_result_def merge_status_def)
  have v1: "verdict (tr_Status ?first)" unfolding s1(2) by simp
  from one [OF v1, of 0 ?vars w2] obtain rcv2 err2 w3 where
    a2: "attempt_loop ?orc None ?rt ''r'' counting_trigger ?step 0 (Suc 0) None ?vars ?first w2 =
      (let result' = (merge_result rcv2 (?first\<lparr>tr_Attempts := tr_Attempts ?first + 1\<rparr>))\<lparr>tr_Error := err2\<rparr> in
       if tr_Status result' = StatusPassed then Some ((True, None), result', ?vars, w3)
       else attempt_loop ?orc None ?rt ''r'' counting_trigger ?step 0 0 None ?vars result' w3)"
    and o2: "rr_Status rcv2 = (if 1 \<le> outside w2 then StatusPassed else StatusFailed)" by blast
  let ?second = "(merge_result rcv2 (?first\<lparr>tr_Attempts := tr_Attempts ?first + 1\<rparr>))\<lparr>tr_Error := err2\<rparr>"
  have s2: "rr_Status rcv2 = StatusPassed" "tr_Status ?second = StatusFailed"
    using o2 s1 by (simp_all add: merge_result_def merge_status_def)
  have a: "attempt_loop ?orc None ?rt ''r'' counting_trigger ?step 0 2 None ?vars ?init ?begun = Some ((False, None), ?second, ?vars, w3)"
    using a1 a2 s1(2) s2(2) by (simp add: eval_nat_numeral Let_def)
  have tr: "TriggerRegistry_Create (or_triggers ?orc) (EffectiveType ?step) (tc_Options ?step) = Inr counting_trigger"
    "tc_DelayBefore ?step = 0"
    by (simp_all add: counting_orchestrator_def TriggerRegistry_Create_def EffectiveType_def waiting_step_def example_step_def)
  have res: "reserveRecipients ?orc (tc_Receivers ?step) ''r'' w = (([], None), w)" for w
    by (simp add: reserveRecipients_def waiting_step_def state_receiver_def)
  have l: "steps_loop ?orc None (td_Retry ?def) ''r'' (td_Triggers ?def) 0 [] ?vars ?init (?now\<lparr>draws := draws ?now\<rparr>) =
      Some (?second\<lparr>tr_TriggerVars := ?vars\<rparr>, [[]], w3)"
    using a rt by (simp add: example_definition_def run_step_def tr res counting_retry_def)
  have "execute ?orc None ?def ''r'' ?start =
     Some (let (r, w') = finish (fst (time_Now ?start)) (?second\<lparr>tr_TriggerVars := ?vars\<rparr>) (fold (releaseRecipients ?orc) [[]] w3)
       in (r, if tr_Status r = StatusFailed \<or> tr_Status r = StatusError then Some (td_OnFailure ?def, r) else None, w'))"
    by (rule execute_enabled [OF _ _ l]) (simp_all add: example_definition_def)
  moreover have "tr_Status ?second = StatusFailed" "tr_Attempts ?second = 2"
    "map rr_Status (tr_Receivers ?second) = [StatusFailed, StatusPassed]"
    using s2 s1 by (simp_all add: merge_result_def)
  ultimately show ?thesis by (simp add: split_beta Let_def)
qed



text \<open>A trigger that always fails, for examples.\<close>

definition failing_trigger :: "'x Trigger" where
  "failing_trigger ctx step runID vars w = Some (Inl (errorf ErrTriggerFailed ''refused''), vars, w)"

definition failing_orchestrator :: "(unit, unit) Orchestrator" where
  "failing_orchestrator = example_orchestrator failing_trigger (example_message ''r'')"

definition once :: RetryConfig where
  "once = \<lparr>rt_Enabled = False, rt_Attempts = 0, rt_Delay = 0\<rparr>"

theorem trigger_error_hides_failure_witness:
  "\<exists>result' defers' w'. steps_loop failing_orchestrator None once ''r'' [example_step] 0 [] []
       (initial_result (example_definition []) ''r'' 0) world0 = Some (result', defers', w')
     \<and> tr_Status result' = StatusError"
proof -
  have c: "TriggerRegistry_Create (or_triggers failing_orchestrator) (EffectiveType example_step) (tc_Options example_step) = Inr failing_trigger"
    by (simp add: failing_orchestrator_def example_orchestrator_def TriggerRegistry_Create_def EffectiveType_def example_step_def)
  have r: "reserveRecipients failing_orchestrator (tc_Receivers example_step) ''r'' world0 = (([], None), world0)"
    by (simp add: reserveRecipients_def example_step_def)
  have a: "attempt_loop failing_orchestrator None once ''r'' failing_trigger example_step 0 (stepMaxAttempts once) None []
      (initial_result (example_definition []) ''r'' 0) (snd (time_Now world0)) =
      Some ((False, Some (errorf ErrTriggerFailed ''refused'')),
        (initial_result (example_definition []) ''r'' 0)\<lparr>tr_Attempts := 1\<rparr>, [], snd (time_Now world0))"
    by (simp add: stepMaxAttempts_def once_def failing_trigger_def)
  have d: "tc_DelayBefore example_step \<le> 0" by (simp add: example_step_def)
  from trigger_error_hides_failure [OF c a r refl d, of "[]" "[]"] show ?thesis by auto
qed

theorem failed_step_ends_run_witness:
  "\<exists>r nt w'. execute failing_orchestrator None ((example_definition [])\<lparr>td_Triggers := [example_step] @ [waiting_step]\<rparr>) ''r'' world0
     = Some (r, nt, w') \<and> tr_Status r = StatusError"
proof -
  obtain r nt w' where e: "execute failing_orchestrator None ((example_definition [])\<lparr>td_Triggers := [example_step]\<rparr>) ''r'' world0
      = Some (r, nt, w')" and s: "tr_Status r = StatusError"
    by (simp add: execute_def executeSequential_def example_definition_def failing_orchestrator_def example_orchestrator_def
      run_step_def TriggerRegistry_Create_def EffectiveType_def example_step_def reserveRecipients_def
      stepMaxAttempts_def eval_nat_numeral failing_trigger_def split_beta Let_def)
  from failed_step_ends_run [OF e, of "[waiting_step]"] s show ?thesis by auto
qed

subsection \<open>Sequences\<close>

lemma RunTest_result:
  assumes "RunTest orc ctx def w = Some (runID, r, nt, w')"
  shows "tr_TestID r = td_ID def"
    and "nt = (if is_failure (tr_Status r) then Some (td_OnFailure def, r) else None)"
    and "tr_RunID r = runID"
proof -
  from assms obtain w1 where "execute orc ctx def runID w1 = Some (r, nt, w')"
    by (auto simp: RunTest_def split_beta Let_def split: Option.bind_split_asm)
  from execute_status [OF this]
  show "tr_TestID r = td_ID def"
    and "nt = (if is_failure (tr_Status r) then Some (td_OnFailure def, r) else None)"
    and "tr_RunID r = runID" by blast+
qed

definition stops :: "SequenceConfig \<Rightarrow> TestResult \<Rightarrow> bool" where
  "stops cfg r \<longleftrightarrow> sq_SkipFailTest cfg \<and> is_failure (tr_Status r)"

lemma sequence_loop_result:
  assumes "sequence_loop orc ctx cfg first defs w = Some (results, nts, w')"
  shows "map tr_TestID results = map td_ID (take (length results) defs)"
    and "\<forall>r \<in> set (butlast results). \<not> stops cfg r"
    and "length results < length defs \<Longrightarrow> results \<noteq> [] \<and> stops cfg (last results)"
    and "map snd nts = filter (\<lambda>r. is_failure (tr_Status r)) results"
    and "length results \<le> length defs"
proof -
  have "map tr_TestID results = map td_ID (take (length results) defs)
    \<and> (\<forall>r \<in> set (butlast results). \<not> stops cfg r)
    \<and> (length results < length defs \<longrightarrow> results \<noteq> [] \<and> stops cfg (last results))
    \<and> map snd nts = filter (\<lambda>r. is_failure (tr_Status r)) results
    \<and> length results \<le> length defs"
    using assms
  proof (induction defs arbitrary: first w results nts)
    case Nil
    then show ?case by simp
  next
    case (Cons def defs)
    let ?w = "if \<not> first \<and> 0 < sq_Delay cfg then time_Sleep (sq_Delay cfg) w else w"
    from Cons.prems obtain runID r nt w1 where t: "RunTest orc ctx def ?w = Some (runID, r, nt, w1)"
      by (cases "RunTest orc ctx def ?w") (auto simp: Let_def split: if_splits)
    note rt = RunTest_result [OF t]
    show ?case
    proof (cases "stops cfg r")
      case True
      with Cons.prems t have "results = [r]" "nts = (case nt of None \<Rightarrow> [] | Some n \<Rightarrow> [n])"
        by (auto simp: Let_def stops_def is_failure_def)
      with True rt show ?thesis by (auto simp: stops_def)
    next
      case False
      with Cons.prems t obtain results' nts' where
        l: "sequence_loop orc ctx cfg False defs w1 = Some (results', nts', w')"
        and r: "results = r # results'" "nts = (case nt of None \<Rightarrow> [] | Some n \<Rightarrow> [n]) @ nts'"
        by (cases "sequence_loop orc ctx cfg False defs w1") (auto simp: Let_def stops_def is_failure_def)
      from Cons.IH [OF l] r rt False show ?thesis by auto
    qed
  qed
  then show "map tr_TestID results = map td_ID (take (length results) defs)"
    and "\<forall>r \<in> set (butlast results). \<not> stops cfg r"
    and "length results < length defs \<Longrightarrow> results \<noteq> [] \<and> stops cfg (last results)"
    and "map snd nts = filter (\<lambda>r. is_failure (tr_Status r)) results"
    and "length results \<le> length defs" by blast+
qed

subsection \<open>The variables block\<close>

lemma set_AList_update: "set (AList.update k v m) \<subseteq> insert (k, v) (set m)"
  by (induction m) auto

lemma paren_free_vars_update: "paren_free_vars vars \<Longrightarrow> paren_free v \<Longrightarrow> paren_free_vars (AList.update k v vars)"
  using set_AList_update [of k v vars] by (auto simp: paren_free_vars_def)

lemma variables_loop_paren_free:
  assumes "\<forall>(k, v) \<in> set kvs. paren_free v" and "paren_free_vars vars"
  shows "\<exists>vars' e'. variables_loop L kvs vars e = Some (vars', e') \<and> paren_free_vars vars'
     \<and> dom (map_of vars') = dom (map_of vars) \<union> (fst ` set kvs - set reservedVarNames)
     \<and> (\<forall>k \<in> set reservedVarNames. map_of vars' k = map_of vars k)"
  using assms
proof (induction kvs arbitrary: vars e)
  case Nil
  then show ?case by simp
next
  case (Cons kv kvs)
  obtain k v where kv: "kv = (k, v)" by (cases kv)
  show ?case
  proof (cases "k \<in> set reservedVarNames")
    case True
    with Cons.IH [of vars e] Cons.prems kv show ?thesis by auto
  next
    case False
    from Cons.prems(1) kv have pv: "paren_free v" by simp
    obtain v' e1 where r: "ReplaceString L v vars e = Some (v', vars, e1)" "paren_free v'"
      using ReplaceString_paren_free(1) [OF pv Cons.prems(2)] ReplaceString_paren_free(2) [OF pv Cons.prems(2)] by blast
    have "paren_free_vars (AList.update k v' vars)"
      using Cons.prems(2) r(2) by (rule paren_free_vars_update)
    moreover have "\<forall>(k, v) \<in> set kvs. paren_free v" using Cons.prems(1) by simp
    ultimately obtain vars' e' where
      "variables_loop L kvs (AList.update k v' vars) e1 = Some (vars', e')" "paren_free_vars vars'"
      "dom (map_of vars') = dom (map_of (AList.update k v' vars)) \<union> (fst ` set kvs - set reservedVarNames)"
      "\<forall>k' \<in> set reservedVarNames. map_of vars' k' = map_of (AList.update k v' vars) k'"
      using Cons.IH [of "AList.update k v' vars" e1] by blast
    with r(1) kv False show ?thesis by auto
  qed
qed


subsection \<open>Reservations of a run\<close>

text \<open>The memory store inside of a world.\<close>

definition stored_in :: "('x \<Rightarrow> MemoryStore) \<Rightarrow> (MemoryStore \<Rightarrow> 'x \<Rightarrow> 'x) \<Rightarrow> bool" where
  "stored_in get put \<longleftrightarrow> (\<forall>s x. get (put s x) = s)"

lemma release_memory:
  assumes "or_store orc = memory_port cod get put" and "stored_in get put"
  shows "get (outside (releaseRecipients orc reserved w)) =
     fold (\<lambda>rcfg. mem_Release (rc_Type rcfg) (rc_Recipient rcfg)) reserved (get (outside w))"
  using assms(2)
  by (induction reserved arbitrary: w)
    (simp_all add: releaseRecipients_def assms(1) memory_port_def stored_in_def)

lemma releases_memory:
  assumes "or_store orc = memory_port cod get put" and "stored_in get put"
  shows "get (outside (fold (releaseRecipients orc) defers w)) =
     fold (\<lambda>rcfg. mem_Release (rc_Type rcfg) (rc_Recipient rcfg)) (concat defers) (get (outside w))"
  by (induction defers arbitrary: w) (simp_all add: release_memory [OF assms])

lemma mem_Releases_slot:
  "map_of (ms_reservations (fold (\<lambda>rcfg. mem_Release (rc_Type rcfg) (rc_Recipient rcfg)) reserved s)) k =
     (if \<exists>rcfg \<in> set reserved. store_key (rc_Type rcfg) (rc_Recipient rcfg) = k then None
      else map_of (ms_reservations s) k)"
  by (induction reserved arbitrary: s) (auto simp: mem_Release_def)

text \<open>The slots that belong to a run.\<close>

definition owned :: "string \<Rightarrow> ReceiverConfig list \<Rightarrow> MemoryStore \<Rightarrow> bool" where
  "owned runID reserved s \<longleftrightarrow>
     (\<forall>rcfg \<in> set reserved. \<exists>entry. map_of (ms_reservations s) (store_key (rc_Type rcfg) (rc_Recipient rcfg)) = Some entry
        \<and> mr_runID entry = runID)"

lemma reserve_loop_owned:
  assumes "reserve_loop (memory_port cod get put) runID configs reserved w = ((reserved', err), w')"
    and "stored_in get put" and "owned runID reserved (get (outside w))"
  shows "owned runID reserved' (get (outside w'))"
  using assms(1,3)
proof (induction configs arbitrary: reserved w)
  case Nil
  then show ?case by simp
next
  case (Cons rcfg configs)
  let ?st = "memory_port cod get put" and ?s = "get (outside w)"
  show ?case
  proof (cases "rc_Recipient rcfg = []")
    case True
    with Cons show ?thesis by simp
  next
    case False
    obtain res w1 where r: "st_Reserve ?st (rc_Type rcfg) (rc_Recipient rcfg) runID w = (res, w1)" by (metis surj_pair)
    let ?now = "fst (time_Now w)" and ?now' = "fst (time_Now (snd (time_Now w)))"
    have m: "mem_Reserve (rc_Type rcfg) (rc_Recipient rcfg) runID ?now ?now' ?s = (res, get (outside w1))"
      using r assms(2) by (auto simp: memory_port_def split_beta Let_def stored_in_def)
    show ?thesis
    proof (cases res)
      case (Some e)
      with m have "get (outside w1) = ?s" by (auto simp: mem_Reserve_def Let_def split: option.splits if_splits)
      with Cons.prems False r Some show ?thesis by simp
    next
      case None
      have m': "get (outside w1) = snd (mem_Reserve (rc_Type rcfg) (rc_Recipient rcfg) runID ?now ?now' ?s)"
        "fst (mem_Reserve (rc_Type rcfg) (rc_Recipient rcfg) runID ?now ?now' ?s) = None"
        using None by (simp_all add: m)
      then have s1: "ms_reservations (get (outside w1)) = AList.update (store_key (rc_Type rcfg) (rc_Recipient rcfg))
          \<lparr>mr_runID = runID, mr_expiresAt = ?now' + reservationTTL\<rparr> (ms_reservations ?s)"
        by (auto simp: mem_Reserve_def Let_def split: option.splits if_splits)
      have "owned runID (reserved @ [rcfg]) (get (outside w1))"
        using Cons.prems(2) by (auto simp: owned_def s1)
      with Cons.IH [OF _ this] Cons.prems(1) False r None show ?thesis by simp
    qed
  qed
qed


text \<open>C14 (sequence_prefix): a sequence runs its tests in order; its results are those of a prefix
  of the list. With \<open>SkipFailTest\<close> it stops at the first test that fails or errs and at no other;
  without it, it runs them all. The notifications sent are those of the failing results, in
  order.\<close>

theorem sequence_prefix:
  assumes "RunSequence orc ctx defs cfg w = Some (results, nts, w')"
  shows "map tr_TestID results = map td_ID (take (length results) defs)
     \<and> (\<not> sq_SkipFailTest cfg \<longrightarrow> length results = length defs)
     \<and> (sq_SkipFailTest cfg \<longrightarrow> (\<forall>r \<in> set (butlast results). \<not> is_failure (tr_Status r))
          \<and> (length results < length defs \<longrightarrow> results \<noteq> [] \<and> is_failure (tr_Status (last results))))
     \<and> map snd nts = filter (\<lambda>r. is_failure (tr_Status r)) results"
  using sequence_loop_result [of orc ctx cfg True defs "snd (time_Now w)" results nts w'] assms
  by (auto simp: RunSequence_def stops_def le_less)

theorem sequence_prefix_witness:
  "\<exists>results nts w'. RunSequence failing_orchestrator None [example_definition [example_step], example_definition []]
       \<lparr>sq_Delay = 0, sq_SkipFailTest = True\<rparr> world0 = Some (results, nts, w')
     \<and> map tr_TestID results = map td_ID (take (length results) [example_definition [example_step], example_definition []])"
proof -
  obtain results nts w' where r: "RunSequence failing_orchestrator None [example_definition [example_step], example_definition []]
       \<lparr>sq_Delay = 0, sq_SkipFailTest = True\<rparr> world0 = Some (results, nts, w')"
    by (simp add: RunSequence_def RunTest_def execute_def executeSequential_def example_definition_def failing_orchestrator_def example_orchestrator_def
      run_step_def TriggerRegistry_Create_def EffectiveType_def example_step_def reserveRecipients_def
      stepMaxAttempts_def eval_nat_numeral failing_trigger_def split_beta Let_def)
  from sequence_prefix [OF r] r show ?thesis by blast
qed

text \<open>On variables without calls, the block never panics, defines exactly
  the variables listed in it other than the reserved names, and leaves \<open>run_id\<close> as it is.\<close>

theorem variables_are_safe:
  assumes "\<forall>(k, v) \<in> set (td_Variables def). paren_free v" and "paren_free runID"
  shows "\<exists>vars e'. variables_loop L (fst (go_range (td_Variables def) e)) [(''run_id'', runID)] (snd (go_range (td_Variables def) e)) = Some (vars, e')
     \<and> map_of vars ''run_id'' = Some runID \<and> map_of vars ''test_id'' = None \<and> map_of vars ''error'' = None
     \<and> dom (map_of vars) = insert ''run_id'' (fst ` set (td_Variables def) - {''run_id'', ''test_id'', ''error''})"
proof -
  have "\<forall>(k, v) \<in> set (fst (go_range (td_Variables def) e)). paren_free v" using assms(1) by simp
  moreover have "paren_free_vars [(''run_id'', runID)]" using assms(2) by (simp add: paren_free_vars_def)
  ultimately obtain vars e' where
    v: "variables_loop L (fst (go_range (td_Variables def) e)) [(''run_id'', runID)] (snd (go_range (td_Variables def) e)) = Some (vars, e')"
    and d: "dom (map_of vars) = dom (map_of [(''run_id'', runID)]) \<union> (fst ` set (fst (go_range (td_Variables def) e)) - set reservedVarNames)"
    and k: "\<forall>k \<in> set reservedVarNames. map_of vars k = map_of [(''run_id'', runID)] k"
    using variables_loop_paren_free by blast
  have "dom (map_of [(''run_id'', runID)]) = {''run_id''}" by (auto simp: dom_def)
  with d have "dom (map_of vars) = insert ''run_id'' (fst ` set (td_Variables def) - {''run_id'', ''test_id'', ''error''})"
    by (simp add: reservedVarNames_def)
  with v k show ?thesis by (simp add: reservedVarNames_def)
qed

theorem variables_are_safe_witness:
  "\<exists>vars e'. variables_loop example_lib [(''error'', ''x''), (''a'', ''1'')] [(''run_id'', ''r'')] (\<lambda>_. 0) = Some (vars, e')
     \<and> map_of vars ''run_id'' = Some ''r'' \<and> map_of vars ''error'' = None"
proof -
  let ?def = "(example_definition [])\<lparr>td_Variables := [(''error'', ''x''), (''a'', ''1'')]\<rparr>"
  have p: "\<forall>(k, v) \<in> set (td_Variables ?def). paren_free v" "paren_free ''r''" by (simp_all add: paren_free_def)
  from variables_are_safe [OF p, of example_lib "\<lambda>_. 0"] show ?thesis by auto
qed

text \<open>C15 (recipients_released): with the memory store, every recipient that a passing run has
  reserved is free again when the run has ended.\<close>

theorem recipients_released:
  assumes "execute orc ctx def runID w = Some (r, note, w')" and "tr_Status r = StatusPassed"
    and "or_store orc = memory_port cod get put" and "stored_in get put"
    and "step \<in> set (td_Triggers def)" and "rcfg \<in> set (tc_Receivers step)" and "rc_Recipient rcfg \<noteq> []"
  shows "mem_holder (rc_Type rcfg) (rc_Recipient rcfg) now (get (outside w')) = None"
  using assms(1)
proof (cases rule: execute_cases)
  case disabled
  with assms(2) show ?thesis by simp
next
  case (enabled vars ord e result defers w1)
  with assms(2) have p: "tr_Status result = StatusPassed" by simp
  from steps_loop_passed(4) [OF enabled(4) initial_result_simps(1) p] assms(5)
  have "filter has_recipient (tc_Receivers step) \<in> set defers" by blast
  moreover have "rcfg \<in> set (filter has_recipient (tc_Receivers step))"
    using assms(6,7) by (simp add: has_recipient_def)
  ultimately have "rcfg \<in> set (concat defers)" unfolding set_concat by blast
  then have "\<exists>x \<in> set (concat defers). store_key (rc_Type x) (rc_Recipient x) = store_key (rc_Type rcfg) (rc_Recipient rcfg)"
    by blast
  then have "map_of (ms_reservations (get (outside w'))) (store_key (rc_Type rcfg) (rc_Recipient rcfg)) = None"
    unfolding enabled(6) finish_simps releases_memory [OF assms(3,4)] mem_Releases_slot by (rule if_P)
  then show ?thesis by (simp add: mem_holder_def)
qed

text \<open>An orchestrator on a memory store, and a step that reserves a recipient.\<close>

definition memory_orchestrator :: "(unit, MemoryStore) Orchestrator" where
  "memory_orchestrator = (example_orchestrator ok_trigger (example_message ''r''))
     \<lparr>or_store := memory_port example_codec id (\<lambda>s _. s)\<rparr>"

definition recipient_step :: "nat \<Rightarrow> TriggerConfig" where
  "recipient_step n = example_step\<lparr>tc_Receivers := replicate n (state_receiver\<lparr>rc_Recipient := ''a''\<rparr>)\<rparr>"

definition memory_world :: "MemoryStore world" where
  "memory_world = \<lparr>draws = \<lambda>_. 0, clock = 0, outside = NewMemoryStore 5\<rparr>"

lemma memory_reserve:
  "reserveRecipients memory_orchestrator (tc_Receivers (recipient_step (Suc 0))) ''r'' memory_world =
     (([state_receiver\<lparr>rc_Recipient := ''a''\<rparr>], None),
      memory_world\<lparr>outside := (NewMemoryStore 5)\<lparr>ms_reservations := [(''api:a'', \<lparr>mr_runID = ''r'', mr_expiresAt = reservationTTL\<rparr>)]\<rparr>\<rparr>)"
  by (simp add: reserveRecipients_def memory_orchestrator_def recipient_step_def memory_port_def memory_world_def
      mem_Reserve_def NewMemoryStore_def time_Now_def draw_def state_receiver_def store_key_def Let_def)

lemma memory_now: "snd (time_Now memory_world) = memory_world" "draws memory_world = (\<lambda>_. 0)"
  by (simp_all add: memory_world_def time_Now_def draw_def Let_def)

theorem recipients_released_witness:
  "\<exists>r w'. execute memory_orchestrator None (example_definition [recipient_step (Suc 0)]) ''r'' memory_world = Some (r, None, w')
     \<and> mem_holder ''api'' ''a'' 0 (outside w') = None"
proof -
  let ?def = "example_definition [recipient_step (Suc 0)]"
  have tr: "TriggerRegistry_Create (or_triggers memory_orchestrator) (EffectiveType (recipient_step (Suc 0))) (tc_Options (recipient_step (Suc 0))) = Inr ok_trigger"
    "tc_DelayBefore (recipient_step (Suc 0)) = 0" "tc_WaitForReceivers (recipient_step (Suc 0)) = False"
    by (simp_all add: memory_orchestrator_def example_orchestrator_def TriggerRegistry_Create_def EffectiveType_def recipient_step_def example_step_def)
  obtain r w' where e: "execute memory_orchestrator None ?def ''r'' memory_world = Some (r, None, w')" and p: "tr_Status r = StatusPassed"
    by (simp add: execute_def executeSequential_def example_definition_def run_step_def tr memory_reserve memory_now
      stepMaxAttempts_def eval_nat_numeral ok_trigger_def split_beta Let_def)
  have m: "or_store memory_orchestrator = memory_port example_codec id (\<lambda>s _. s)" "stored_in id (\<lambda>s _. s)"
    by (simp_all add: memory_orchestrator_def stored_in_def)
  have "mem_holder (rc_Type (state_receiver\<lparr>rc_Recipient := ''a''\<rparr>)) (rc_Recipient (state_receiver\<lparr>rc_Recipient := ''a''\<rparr>)) 0 (id (outside w')) = None"
    by (rule recipients_released [OF e p m, of "recipient_step (Suc 0)"])
      (simp_all add: example_definition_def recipient_step_def)
  with e show ?thesis by (simp add: state_receiver_def)
qed




end
