(* ===== verification/Run_Frame.thy ===== *)
theory Run_Frame
  imports Orchestrator
begin

section \<open>What a run does to the world around it\<close>

text \<open>
  A run touches the world through its ports only: the trigger, the methods of its receivers, and the
  store. The locale states, as two relations between worlds, what each of them may do, and lifts it to
  the loops of the orchestrator. \<open>C\<close> is for what happens inside of the goroutines of a step, which all
  start at the same clock; \<open>R\<close> for everything else. Reservations are left out: they are what the
  relations talk about.
\<close>

locale run_frame =
  fixes orc :: "('i, 'x) Orchestrator"
    and R :: "'x world \<Rightarrow> 'x world \<Rightarrow> bool"
    and C :: "'x world \<Rightarrow> 'x world \<Rightarrow> bool"
  assumes R_trans: "R w1 w2 \<Longrightarrow> R w2 w3 \<Longrightarrow> R w1 w3"
    and C_refl: "C w w"
    and C_trans: "C w1 w2 \<Longrightarrow> C w2 w3 \<Longrightarrow> C w1 w3"
    and C_R: "C w w' \<Longrightarrow> R w w'"
    and C_later: "C w w' \<Longrightarrow> clock w \<le> t \<Longrightarrow> C w (w'\<lparr>clock := t\<rparr>)"
    and C_draws: "C w (w\<lparr>draws := e\<rparr>)"
    and C_collect: "rv_Collect (or_receivers orc) inst ctx vars w = Some (collected, vars', w') \<Longrightarrow> C w w'"
    and C_delete: "C w (snd (st_Delete (or_store orc) runID typ w))"
    and R_trigger: "TriggerRegistry_Create (or_triggers orc) ty opts = Inr trig
      \<Longrightarrow> trig ctx step runID vars w = Some (out, vars', w') \<Longrightarrow> R w w'"
    and R_start: "rv_Start (or_receivers orc) inst ctx runID vars w = (err, inst', w') \<Longrightarrow> R w w'"
    and R_stop: "R w (snd (rv_Stop (or_receivers orc) inst w))"
begin

lemma R_refl: "R w w"
  by (rule C_R) (rule C_refl)

lemma C_now: "C w (snd (time_Now w))"
proof -
  from C_later [OF C_draws, of w "clock (snd (time_Now w))" "draws (snd (time_Now w))"] clock_time_Now(2) [of w]
  show ?thesis by (simp add: time_Now_def split_beta Let_def)
qed

lemma C_sleep: "C w (time_Sleep d w)"
  using C_later [OF C_refl, of w "clock w + max 0 d"] by (simp add: time_Sleep_def)

lemma collectAndAssert_C:
  assumes "collectAndAssert orc ctx runID rcfg inst vars w = Some (res, vars', w')"
  shows "C w w'"
proof -
  obtain collectCtx w1 where c: "(if 0 < rc_Timeout rcfg
      then let (now, w) = time_Now w in (WithTimeout ctx now (rc_Timeout rcfg), w) else (ctx, w)) = (collectCtx, w1)"
    by (metis surj_pair)
  have w1: "C w w1" using c C_now [of w] C_refl by (auto simp: Let_def split_beta split: if_splits)
  from assms c obtain out vars1 w2 where k: "rv_Collect (or_receivers orc) inst collectCtx vars w1 = Some (out, vars1, w2)"
    by (auto simp: collectAndAssert_def Let_def split: Option.bind_split_asm)
  from C_trans [OF w1 C_collect [OF k]] have w2: "C w w2" .
  show ?thesis
  proof (cases out)
    case (Inl err)
    with assms c k w2 show ?thesis by (auto simp: collectAndAssert_def Let_def)
  next
    case (Inr msg)
    obtain e w3 where d: "st_Delete (or_store orc) runID (rc_Type rcfg) w2 = (e, w3)" by (metis surj_pair)
    with C_trans [OF w2 C_delete [of w2 runID "rc_Type rcfg"]] have w3: "C w w3" by simp
    from assms c k Inr d show ?thesis
      by (auto simp: collectAndAssert_def Let_def split: Option.bind_split_asm intro: C_trans [OF w3 C_draws])
  qed
qed

lemma receiver_goroutine_C:
  assumes "receiver_goroutine orc ctx runID i r vars w = Some (res, vars', w')"
  shows "C w w'"
proof -
  from assms obtain res' w2 where
    "collectAndAssert orc ctx runID (ar_cfg r) (ar_instance r) vars (snd (time_Now w)) = Some (res', vars', w2)"
    and w': "w' = snd (time_Now w2)"
    by (auto simp: receiver_goroutine_def split_beta Let_def split: Option.bind_split_asm)
  from C_trans [OF C_trans [OF C_now collectAndAssert_C [OF this(1)]] C_now] show ?thesis by (simp add: w')
qed

lemma collect_loop_C:
  assumes "collect_loop orc ctx runID i (clock w0) t1 rs vars result w = Some (result', vars', w')"
    and "C w0 w" and "clock w0 \<le> t1"
  shows "C w0 w'"
  using assms
proof (induction rs arbitrary: t1 vars result w)
  case Nil
  then show ?case by (auto intro: C_later)
next
  case (Cons r rs)
  let ?w = "w\<lparr>clock := clock w0\<rparr>"
  from Cons.prems(1) obtain res vars1 w1 where
    g: "receiver_goroutine orc ctx runID i r vars ?w = Some (res, vars1, w1)"
    and l: "collect_loop orc ctx runID i (clock w0) (max t1 (clock w1)) rs vars1 (merge_result res result) w1 = Some (result', vars', w')"
    by (auto split: Option.bind_split_asm)
  have "C w0 ?w" using Cons.prems(2) by (rule C_later) simp
  from Cons.IH [OF l C_trans [OF this receiver_goroutine_C [OF g]]] Cons.prems(3) show ?case by simp
qed

lemma collectAndAssertAll_C:
  assumes "collectAndAssertAll orc ctx runID active vars result i w = Some (result', vars', w')"
  shows "C w w'"
proof -
  let ?w = "w\<lparr>draws := snd (go_range active (draws w))\<rparr>"
  from assms obtain result1 where
    "collect_loop orc ctx runID i (clock w) (clock w) (fst (go_range active (draws w))) vars result ?w = Some (result1, vars', w')"
    by (auto simp: collectAndAssertAll_def split_beta Let_def split: Option.bind_split_asm)
  from collect_loop_C [OF this C_draws] show ?thesis by simp
qed

lemma start_loop_R: "start_loop (or_receivers orc) ctx runID vars configs active w = ((active', err), w') \<Longrightarrow> R w w'"
proof (induction configs arbitrary: active w)
  case Nil
  then show ?case by (simp add: R_refl)
next
  case (Cons rcfg configs)
  show ?case
  proof (cases "rv_Create (or_receivers orc) rcfg")
    case (Inl e)
    with Cons.prems show ?thesis by (simp add: R_refl)
  next
    case (Inr inst)
    obtain e inst' w1 where s: "rv_Start (or_receivers orc) inst ctx runID vars w = (e, inst', w1)" by (metis prod_cases3)
    from R_start [OF s] Cons.IH [of _ w1] Cons.prems Inr s show ?thesis
      by (cases e) (auto intro: R_trans)
  qed
qed

lemma startReceivers_R: "startReceivers orc ctx configs runID vars w = ((active, err), w') \<Longrightarrow> R w w'"
  unfolding startReceivers_def by (rule start_loop_R)

lemma stopReceivers_R: "R w (stopReceivers orc active w)"
proof -
  have "R w (fold (\<lambda>r w. snd (rv_Stop (or_receivers orc) (ar_instance r) w)) active w1)" if "R w w1" for w1
    using that by (induction active arbitrary: w1) (auto intro: R_trans [OF _ R_stop])
  from this [OF R_refl] show ?thesis by (simp add: stopReceivers_def)
qed

lemma failResult_R: "R w (snd (failResult tx result w))"
  using C_R [OF C_now [of w]] by (simp add: failResult_def split_beta Let_def)

lemma attempt_loop_R:
  assumes "TriggerRegistry_Create (or_triggers orc) ty opts = Inr trig"
    and "attempt_loop orc ctx rt runID trig step i left le vars result w = Some ((p, le'), result', vars', w')"
  shows "R w w'"
  using assms(2)
proof (induction left arbitrary: le vars result w)
  case 0
  then show ?case by (simp add: R_refl)
next
  case (Suc left)
  have pause: "R w (if 0 < left then time_Sleep (rt_Delay rt) w else w)" for w
    by (simp add: R_refl C_R [OF C_sleep])
  note trigger = R_trigger [OF assms(1)]
  from Suc.prems show ?case
  proof (cases rule: attempt_cases)
    case (trigger_failed err vars1 w1)
    from R_trans [OF R_trans [OF trigger [OF trigger_failed(1)] pause] Suc.IH [OF trigger_failed(2)]] show ?thesis .
  next
    case (no_wait stepVars vars1)
    from trigger [OF no_wait(1)] show ?thesis .
  next
    case (start_failed stepVars vars1 w1 active e w2 tx)
    from R_trans [OF R_trans [OF trigger [OF start_failed(1)] startReceivers_R [OF start_failed(2)]] failResult_R]
    show ?thesis by (simp add: start_failed(8))
  next
    case (collected stepVars vars1 w1 active w2 result2 vars2 w3)
    note w3 = R_trans [OF R_trans [OF R_trans [OF trigger [OF collected(1)] startReceivers_R [OF collected(2)]]
        C_R [OF collectAndAssertAll_C [OF collected(5)]]] stopReceivers_R [of w3 active]]
    show ?thesis
    proof (cases "tr_Status result2 = StatusPassed")
      case True
      with w3 collected(6) show ?thesis by simp
    next
      case False
      from R_trans [OF R_trans [OF w3 pause] Suc.IH [OF collected(7) [OF False]]] show ?thesis .
    qed
  qed
qed

lemma step_start_R: "R w (step_start step w)"
  by (simp add: step_start_def R_refl C_R [OF C_sleep])

lemma now_R: "R w (snd (time_Now w))"
  by (rule C_R) (rule C_now)

end

subsection \<open>The worlds of a step\<close>

text \<open>\<open>run_step_cases\<close> of the orchestrator without the results.\<close>

lemma run_step_worlds:
  assumes "run_step orc ctx rt runID step i defers vars result w = Some out"
  obtains
    (no_trigger) tx r where "out = Inl (fst (failResult tx r (step_start step w)), defers, snd (failResult tx r (step_start step w)))"
  | (refused) reserved e w1 tx r where
      "reserveRecipients orc (tc_Receivers step) runID (step_start step w) = ((reserved, Some e), w1)"
      "out = Inl (fst (failResult tx r w1), defers, snd (failResult tx r w1))"
  | (ran) trig reserved w1 p le result1 vars1 w2 where
      "TriggerRegistry_Create (or_triggers orc) (EffectiveType step) (tc_Options step) = Inr trig"
      "reserveRecipients orc (tc_Receivers step) runID (step_start step w) = ((reserved, None), w1)"
      "attempt_loop orc ctx rt runID trig step i (stepMaxAttempts rt) None vars result (snd (time_Now w1))
         = Some ((p, le), result1, vars1, w2)"
      "p \<Longrightarrow> \<exists>r. out = Inr (vars1, r, reserved # defers, w2)"
      "\<not> p \<Longrightarrow> \<exists>r w3. out = Inl (r, reserved # defers, w3) \<and> (w3 = w2 \<or> (\<exists>tx r. w3 = snd (failResult tx r w2)))"
  using assms
proof (cases rule: run_step_cases)
  case (no_trigger err)
  with that(1) show thesis by blast
next
  case (conflict reserved1 err w2)
  with that(2) show thesis by blast
next
  case (failed trig w2 le vars1 result1 w3 tx)
  from failed(4) show thesis
    by (intro that(3) [OF failed(1,3,2)]) (auto split: if_splits)
next
  case (passed trig w2 le vars1 result1 w3)
  from passed(4) show thesis by (intro that(3) [OF passed(1,3,2)]) auto
qed

end
