(* ===== verification/Reservations.thy ===== *)
theory Reservations
  imports Run_Frame
begin

section \<open>The reservations of a run\<close>

text \<open>
  A run reserves the recipients of a step when it comes to it and releases all of them when it returns,
  so it holds the recipients of its earlier steps while it reserves those of a later one.
\<close>

definition slot_of :: "ReceiverConfig \<Rightarrow> string" where
  "slot_of rcfg = store_key (rc_Type rcfg) (rc_Recipient rcfg)"

text \<open>The slots that a step asks for, in order.\<close>

definition step_slots :: "TriggerConfig \<Rightarrow> string list" where
  "step_slots step = map slot_of (filter has_recipient (tc_Receivers step))"

definition entry_at :: "('x \<Rightarrow> MemoryStore) \<Rightarrow> string \<Rightarrow> 'x world \<Rightarrow> memReservation option" where
  "entry_at get k w = map_of (ms_reservations (get (outside w))) k"

lemma mem_Reserve_ok:
  assumes "mem_Reserve channel recipient runID now now' s = (None, s')"
  shows "map_of (ms_reservations s') = (map_of (ms_reservations s))
      (store_key channel recipient \<mapsto> \<lparr>mr_runID = runID, mr_expiresAt = now' + reservationTTL\<rparr>)"
    and "map_of (ms_reservations s) (store_key channel recipient) = Some e \<Longrightarrow> mr_expiresAt e \<le> now"
proof -
  have "s' = s\<lparr>ms_reservations := AList.update (store_key channel recipient)
      \<lparr>mr_runID = runID, mr_expiresAt = now' + reservationTTL\<rparr> (ms_reservations s)\<rparr>"
    using assms by (auto simp: mem_Reserve_def Let_def split: option.splits if_splits)
  then show "map_of (ms_reservations s') = (map_of (ms_reservations s))
      (store_key channel recipient \<mapsto> \<lparr>mr_runID = runID, mr_expiresAt = now' + reservationTTL\<rparr>)"
    by (simp add: update_conv')
  show "map_of (ms_reservations s) (store_key channel recipient) = Some e \<Longrightarrow> mr_expiresAt e \<le> now"
    using assms by (auto simp: mem_Reserve_def Let_def split: if_splits)
qed

subsection \<open>When nobody else touches a slot\<close>

definition leaves_slot :: "('x \<Rightarrow> MemoryStore) \<Rightarrow> string \<Rightarrow> 'x world \<Rightarrow> 'x world \<Rightarrow> bool" where
  "leaves_slot get k w w' \<longleftrightarrow> clock w \<le> clock w' \<and> entry_at get k w' = entry_at get k w"

text \<open>The orchestrator works on a memory store, and neither its triggers nor its receivers touch the slot.\<close>

definition undisturbed ::
  "('i, 'x) Orchestrator \<Rightarrow> codec \<Rightarrow> ('x \<Rightarrow> MemoryStore) \<Rightarrow> (MemoryStore \<Rightarrow> 'x \<Rightarrow> 'x) \<Rightarrow> string \<Rightarrow> bool" where
  "undisturbed orc cod get put k \<longleftrightarrow>
     or_store orc = memory_port cod get put \<and> stored_in get put
   \<and> (\<forall>inst ctx vars w out vars' w'. rv_Collect (or_receivers orc) inst ctx vars w = Some (out, vars', w')
        \<longrightarrow> leaves_slot get k w w')
   \<and> (\<forall>inst ctx runID vars w. leaves_slot get k w (snd (snd (rv_Start (or_receivers orc) inst ctx runID vars w))))
   \<and> (\<forall>inst w. leaves_slot get k w (snd (rv_Stop (or_receivers orc) inst w)))
   \<and> (\<forall>ty opts trig ctx step runID vars w out vars' w'. TriggerRegistry_Create (or_triggers orc) ty opts = Inr trig
        \<longrightarrow> trig ctx step runID vars w = Some (out, vars', w') \<longrightarrow> leaves_slot get k w w')"

lemma leaves_slot_refl [simp]: "leaves_slot get k w w"
  by (simp add: leaves_slot_def)

lemma leaves_slot_trans: "leaves_slot get k w1 w2 \<Longrightarrow> leaves_slot get k w2 w3 \<Longrightarrow> leaves_slot get k w1 w3"
  by (simp add: leaves_slot_def)

lemma delete_memory:
  assumes "stored_in get put"
  shows "leaves_slot get k w (snd (st_Delete (memory_port cod get put) runID typ w))"
  using assms by (simp add: leaves_slot_def entry_at_def memory_port_def stored_in_def mem_Delete_def)

lemma undisturbed_steps:
  assumes "undisturbed orc cod get put k"
  shows "rv_Collect (or_receivers orc) inst ctx vars w = Some (collected, vars', w') \<Longrightarrow> leaves_slot get k w w'"
    and "rv_Start (or_receivers orc) inst ctx runID vars w = (err, inst', w') \<Longrightarrow> leaves_slot get k w w'"
    and "leaves_slot get k w (snd (rv_Stop (or_receivers orc) inst w))"
    and "TriggerRegistry_Create (or_triggers orc) ty opts = Inr trig
      \<Longrightarrow> trig ctx step runID vars w = Some (out, vars', w') \<Longrightarrow> leaves_slot get k w w'"
    and "or_store orc = memory_port cod get put" and "stored_in get put"
proof -
  note u = assms [unfolded undisturbed_def]
  have "leaves_slot get k w (snd (snd (rv_Start (or_receivers orc) inst ctx runID vars w)))" using u by simp
  then show "rv_Start (or_receivers orc) inst ctx runID vars w = (err, inst', w') \<Longrightarrow> leaves_slot get k w w'" by simp
  show "rv_Collect (or_receivers orc) inst ctx vars w = Some (collected, vars', w') \<Longrightarrow> leaves_slot get k w w'"
    using u by simp
  show "leaves_slot get k w (snd (rv_Stop (or_receivers orc) inst w))" using u by simp
  show "TriggerRegistry_Create (or_triggers orc) ty opts = Inr trig
      \<Longrightarrow> trig ctx step runID vars w = Some (out, vars', w') \<Longrightarrow> leaves_slot get k w w'" using u by simp
  show "or_store orc = memory_port cod get put" and "stored_in get put" using u by simp_all
qed

lemma leaves_slot_later: "leaves_slot get k w w' \<Longrightarrow> clock w \<le> t \<Longrightarrow> leaves_slot get k w (w'\<lparr>clock := t\<rparr>)"
  by (simp add: leaves_slot_def entry_at_def)

lemma leaves_slot_draws: "leaves_slot get k w (w\<lparr>draws := e\<rparr>)"
  by (simp add: leaves_slot_def entry_at_def)

interpretation quiet: run_frame orc "\<lambda>w w'. undisturbed orc cod get put k \<longrightarrow> leaves_slot get k w w'"
    "\<lambda>w w'. undisturbed orc cod get put k \<longrightarrow> leaves_slot get k w w'" for orc cod get put k
  by unfold_locales
    (auto intro: leaves_slot_trans leaves_slot_later leaves_slot_draws delete_memory undisturbed_steps(1-4)
      simp: undisturbed_steps(5) dest: undisturbed_steps(6))

lemma releases_clock:
  assumes "undisturbed orc cod get put k"
  shows "clock (fold (releaseRecipients orc) defers w) = clock w"
proof -
  have "clock (releaseRecipients orc reserved w) = clock w" for reserved w
    using undisturbed_steps(5) [OF assms]
    by (induction reserved arbitrary: w) (simp_all add: releaseRecipients_def memory_port_def)
  then show ?thesis by (induction defers arbitrary: w) simp_all
qed

text \<open>The slot holds an entry that lasts until \<open>d\<close> at least.\<close>

definition lasting :: "('x \<Rightarrow> MemoryStore) \<Rightarrow> string \<Rightarrow> int \<Rightarrow> 'x world \<Rightarrow> bool" where
  "lasting get k d w \<longleftrightarrow> (\<exists>e. entry_at get k w = Some e \<and> d \<le> mr_expiresAt e)"

lemma leaves_lasting: "leaves_slot get k w w' \<Longrightarrow> lasting get k d w' = lasting get k d w"
  by (simp add: leaves_slot_def lasting_def)

lemma reserve_loop_clock:
  "reserve_loop (memory_port cod get put) runID configs reserved w = ((reserved', err), w') \<Longrightarrow> clock w \<le> clock w'"
proof (induction configs arbitrary: reserved w)
  case (Cons rcfg configs)
  obtain res w1 where r: "st_Reserve (memory_port cod get put) (rc_Type rcfg) (rc_Recipient rcfg) runID w = (res, w1)"
    by (metis surj_pair)
  have "clock w \<le> clock w1"
    using r clock_time_Now(2) [of w] clock_time_Now(2) [of "snd (time_Now w)"]
    by (auto simp: memory_port_def split_beta Let_def)
  with Cons r show ?case by (fastforce split: if_splits option.splits)
qed simp

text \<open>One attempt: it takes a slot that does not last, and leaves the others.\<close>

lemma reserve_lasting:
  assumes "st_Reserve (memory_port cod get put) (rc_Type rcfg) (rc_Recipient rcfg) runID w = (None, w1)"
    and "stored_in get put" and "clock w1 < d" and "d \<le> clock w + reservationTTL"
  shows "clock w \<le> clock w1" and "\<not> lasting get (slot_of rcfg) d w" and "lasting get (slot_of rcfg) d w1"
    and "k \<noteq> slot_of rcfg \<Longrightarrow> lasting get k d w1 = lasting get k d w"
proof -
  let ?now = "fst (time_Now w)" and ?now' = "fst (time_Now (snd (time_Now w)))"
  have m: "mem_Reserve (rc_Type rcfg) (rc_Recipient rcfg) runID ?now ?now' (get (outside w)) = (None, get (outside w1))"
    using assms(1,2) by (auto simp: memory_port_def split_beta Let_def stored_in_def prod_eq_iff)
  have c1: "clock w1 = ?now'" using assms(1) by (auto simp: memory_port_def split_beta Let_def clock_time_Now(1))
  have t: "clock w \<le> ?now" "?now \<le> ?now'"
    using clock_time_Now [of w] clock_time_Now [of "snd (time_Now w)"] by simp_all
  with c1 show "clock w \<le> clock w1" by simp
  have e1: "entry_at get k w1 = (if k = slot_of rcfg then Some \<lparr>mr_runID = runID, mr_expiresAt = ?now' + reservationTTL\<rparr>
      else entry_at get k w)" for k
    by (simp add: entry_at_def slot_of_def mem_Reserve_ok(1) [OF m])
  then show "lasting get (slot_of rcfg) d w1" "k \<noteq> slot_of rcfg \<Longrightarrow> lasting get k d w1 = lasting get k d w"
    using assms(4) t by (simp_all add: lasting_def)
  show "\<not> lasting get (slot_of rcfg) d w"
  proof
    assume "lasting get (slot_of rcfg) d w"
    then obtain e where e: "map_of (ms_reservations (get (outside w))) (store_key (rc_Type rcfg) (rc_Recipient rcfg)) = Some e"
      "d \<le> mr_expiresAt e" by (auto simp: lasting_def entry_at_def slot_of_def)
    from mem_Reserve_ok(2) [OF m e(1)] e(2) assms(3) c1 t show False by simp
  qed
qed

lemma reserve_loop_lasting:
  assumes "reserve_loop (memory_port cod get put) runID configs reserved w = ((reserved', None), w')"
    and "stored_in get put" and "clock w' < d" and "d \<le> clock w + reservationTTL"
  shows "clock w \<le> clock w'
    \<and> (lasting get k d w \<longrightarrow> k \<notin> slot_of ` set (filter has_recipient configs))
    \<and> count_list (map slot_of (filter has_recipient configs)) k \<le> 1
    \<and> (lasting get k d w \<or> k \<in> slot_of ` set (filter has_recipient configs) \<longrightarrow> lasting get k d w')"
  using assms(1,4)
proof (induction configs arbitrary: reserved w)
  case Nil
  then show ?case by simp
next
  case (Cons rcfg configs)
  show ?case
  proof (cases "rc_Recipient rcfg = []")
    case True
    with Cons show ?thesis by (simp add: has_recipient_def)
  next
    case False
    obtain res w1 where r: "st_Reserve (memory_port cod get put) (rc_Type rcfg) (rc_Recipient rcfg) runID w = (res, w1)"
      by (metis surj_pair)
    from Cons.prems(1) False r have res: "res = None"
      and l: "reserve_loop (memory_port cod get put) runID configs (reserved @ [rcfg]) w1 = ((reserved', None), w')"
      by (auto split: option.splits)
    from reserve_loop_clock [OF l] assms(3) have "clock w1 < d" by simp
    note one = reserve_lasting [OF r[unfolded res] assms(2) this Cons.prems(2)]
    have "d \<le> clock w1 + reservationTTL" using Cons.prems(2) one(1) by simp
    from Cons.IH [OF l this] one False show ?thesis
      by (cases "k = slot_of rcfg") (auto simp: has_recipient_def count_list_0_iff)
  qed
qed

lemma run_step_clock:
  assumes "undisturbed orc cod get put k"
    and "run_step orc ctx rt runID step i defers vars result w = Some (Inr (vars1, r1, defers1, w1))"
  shows "clock w \<le> clock w1"
  using assms(2)
proof (cases rule: run_step_worlds)
  case (ran trig reserved w2 p le result1 vars2 w3)
  then have "w3 = w1" by (cases p) auto
  then have "leaves_slot get k w2 w1"
    using leaves_slot_trans quiet.now_R quiet.attempt_loop_R [OF ran(1,3)] assms(1) by blast
  moreover have "leaves_slot get k w (step_start step w)" using quiet.step_start_R assms(1) by blast
  moreover have "clock (step_start step w) \<le> clock w2"
    using ran(2) undisturbed_steps(5) [OF assms(1)] by (auto simp: reserveRecipients_def intro: reserve_loop_clock)
  ultimately show ?thesis by (simp add: leaves_slot_def)
qed simp_all

text \<open>The same for a step that passes and for the steps of a test that passes.\<close>

lemma run_step_lasting:
  assumes "undisturbed orc cod get put k"
    and "run_step orc ctx rt runID step i defers vars result w = Some (Inr (vars1, r1, defers1, w1))"
    and "clock w1 < d" and "d \<le> clock w + reservationTTL"
  shows "clock w \<le> clock w1
    \<and> (lasting get k d w \<longrightarrow> k \<notin> set (step_slots step)) \<and> count_list (step_slots step) k \<le> 1
    \<and> (lasting get k d w \<or> k \<in> set (step_slots step) \<longrightarrow> lasting get k d w1)"
  using assms(2)
proof (cases rule: run_step_worlds)
  case (ran trig reserved w2 p le result1 vars2 w3)
  have p: "p" and w3: "w3 = w1" using ran(4,5) by auto
  have s: "leaves_slot get k w (step_start step w)" using quiet.step_start_R assms(1) by blast
  have l: "reserve_loop (memory_port cod get put) runID (tc_Receivers step) [] (step_start step w) = ((reserved, None), w2)"
    using ran(2) undisturbed_steps(5) [OF assms(1)] by (simp add: reserveRecipients_def)
  have a: "leaves_slot get k w2 w1"
    using leaves_slot_trans quiet.now_R quiet.attempt_loop_R [OF ran(1,3)] assms(1) w3 by blast
  have c: "clock w2 < d" "d \<le> clock (step_start step w) + reservationTTL"
    using a s assms(3,4) by (simp_all add: leaves_slot_def)
  note r = reserve_loop_lasting [OF l undisturbed_steps(6) [OF assms(1)] c]
  from r [where k = k] a s show ?thesis
    by (auto simp: leaves_lasting step_slots_def leaves_slot_def)
qed simp_all

lemma steps_loop_lasting:
  assumes "undisturbed orc cod get put k"
    and "steps_loop orc ctx rt runID steps i defers vars result w = Some (result', defers', w')"
    and "tr_Status result = StatusPassed" and "tr_Status result' = StatusPassed"
    and "clock w' < d" and "d \<le> clock w + reservationTTL"
  shows "clock w \<le> clock w' \<and> count_list (concat (map step_slots steps)) k + of_bool (lasting get k d w) \<le> 1"
  using assms(2,3,6)
proof (induction steps arbitrary: i defers vars result w)
  case Nil
  then show ?case by auto
next
  case (Cons step steps)
  from Cons.prems(1) show ?case
  proof (cases rule: steps_cases)
    case stop
    from run_step_stop [OF stop Cons.prems(2)] assms(4) show ?thesis by simp
  next
    case (next_step vars1 result1 defers1 w1)
    from run_step_extends [OF next_step(1) Cons.prems(2)] have p: "tr_Status result1 = StatusPassed" by simp
    from run_step_clock [OF assms(1) next_step(1)]
    have d: "d \<le> clock w1 + reservationTTL" using Cons.prems(3) by simp
    note ih = Cons.IH [OF next_step(2) p d]
    then have "clock w1 < d" using assms(5) by simp
    from run_step_lasting [OF assms(1) next_step(1) this Cons.prems(3)] ih show ?thesis
      by (cases "k \<in> set (step_slots step)"; cases "lasting get k d w")
        (auto simp: count_list_0_iff of_bool_def split: if_splits)
  qed
qed

subsection \<open>Properties\<close>



end
