(* ===== verification/Interleaving.thy ===== *)
theory Interleaving
  imports Store
begin

section \<open>Runs that take turns on one store\<close>

text \<open>
  The service runs many tests at once, each in a goroutine of its own, on one store, and several instances of the
  service can share one database. For the reservations a
  run is a small machine: it comes to a step, reserves the recipients of the step one by one, works, goes on or
  returns, and releases what it has reserved. A turn of a run is one call of the store
  or a move that no other run sees. \<open>rn_held\<close> is no state of the program: it keeps, for
  every slot that the run has reserved and not released since, the time at which the reservation expires.
  The machine runs on any store that keeps the contract of reservations; all clocks are in step.
\<close>

text \<open>The reservations of a store.\<close>

record ('s, 'k) reservations =
  rs_reserve :: "string \<Rightarrow> string \<Rightarrow> string \<Rightarrow> int \<Rightarrow> int \<Rightarrow> 's \<Rightarrow> bool \<times> 's"
  rs_release :: "string \<Rightarrow> string \<Rightarrow> 's \<Rightarrow> 's"
  rs_holder :: "string \<Rightarrow> string \<Rightarrow> int \<Rightarrow> 's \<Rightarrow> string option"
  rs_slot :: "string \<Rightarrow> string \<Rightarrow> 'k"
  rs_until :: "int \<Rightarrow> int \<Rightarrow> int"

definition wanted :: "('s, 'k) reservations \<Rightarrow> ReceiverConfig \<Rightarrow> 'k" where
  "wanted R rcfg = rs_slot R (rc_Type rcfg) (rc_Recipient rcfg)"

datatype run_phase =
    Reserving "ReceiverConfig list" "ReceiverConfig list"
  | Working
  | Releasing "ReceiverConfig list"
  | Returned

record 'k run_thread =
  rn_runID :: string
  rn_steps :: "ReceiverConfig list list"
  rn_phase :: run_phase
  rn_defers :: "ReceiverConfig list list"
  rn_held :: "('k \<times> int) list"

definition new_thread :: "string \<Rightarrow> TestDefinition \<Rightarrow> 'k run_thread" where
  "new_thread runID def =
     \<lparr>rn_runID = runID, rn_steps = map tc_Receivers (td_Triggers def), rn_phase = Working, rn_defers = [], rn_held = []\<rparr>"

text \<open>The clock, the store and the runs.\<close>

type_synonym ('s, 'k) machine = "int \<times> 's \<times> (nat \<Rightarrow> 'k run_thread)"

text \<open>What is paid to messages, by anyone, leaves the reservations as they are from then on.\<close>

definition same_holders :: "('s, 'k) reservations \<Rightarrow> int \<Rightarrow> 's \<Rightarrow> 's \<Rightarrow> bool" where
  "same_holders R now s s' \<longleftrightarrow> (\<forall>c r t. now \<le> t \<longrightarrow> rs_holder R c r t s' = rs_holder R c r t s)"

inductive turn :: "('s, 'k) reservations \<Rightarrow> nat \<Rightarrow> ('s, 'k) machine \<Rightarrow> ('s, 'k) machine \<Rightarrow> bool" for R where
  time: "t \<le> t' \<Longrightarrow> turn R i (t, s, rs) (t', s, rs)"
| messages: "t \<le> now \<Longrightarrow> same_holders R now s s' \<Longrightarrow> turn R i (t, s, rs) (now, s', rs)"
| step: "rn_phase (rs i) = Working \<Longrightarrow> rn_steps (rs i) = configs # steps
    \<Longrightarrow> turn R i (t, s, rs) (t, s, rs(i := (rs i)\<lparr>rn_phase := Reserving configs [], rn_steps := steps\<rparr>))"
| skip: "rn_phase (rs i) = Reserving (rcfg # todo) reserved \<Longrightarrow> rc_Recipient rcfg = []
    \<Longrightarrow> turn R i (t, s, rs) (t, s, rs(i := (rs i)\<lparr>rn_phase := Reserving todo reserved\<rparr>))"
| reserve: "rn_phase (rs i) = Reserving (rcfg # todo) reserved \<Longrightarrow> rc_Recipient rcfg \<noteq> []
    \<Longrightarrow> t \<le> now \<Longrightarrow> now \<le> now'
    \<Longrightarrow> rs_reserve R (rc_Type rcfg) (rc_Recipient rcfg) (rn_runID (rs i)) now now' s = (True, s')
    \<Longrightarrow> turn R i (t, s, rs) (now', s', rs(i := (rs i)\<lparr>rn_phase := Reserving todo (reserved @ [rcfg]),
          rn_held := (wanted R rcfg, rs_until R now now') # rn_held (rs i)\<rparr>))"
| refuse: "rn_phase (rs i) = Reserving (rcfg # todo) reserved \<Longrightarrow> rc_Recipient rcfg \<noteq> []
    \<Longrightarrow> t \<le> now \<Longrightarrow> now \<le> now'
    \<Longrightarrow> rs_reserve R (rc_Type rcfg) (rc_Recipient rcfg) (rn_runID (rs i)) now now' s = (False, s')
    \<Longrightarrow> turn R i (t, s, rs) (now', s', rs(i := (rs i)\<lparr>rn_phase := Releasing (concat (rn_defers (rs i)))\<rparr>))"
| reserved: "rn_phase (rs i) = Reserving [] reserved
    \<Longrightarrow> turn R i (t, s, rs) (t, s, rs(i := (rs i)\<lparr>rn_phase := Working, rn_defers := reserved # rn_defers (rs i)\<rparr>))"
| return: "rn_phase (rs i) = Working
    \<Longrightarrow> turn R i (t, s, rs) (t, s, rs(i := (rs i)\<lparr>rn_phase := Releasing (concat (rn_defers (rs i)))\<rparr>))"
| release: "rn_phase (rs i) = Releasing (rcfg # todo)
    \<Longrightarrow> turn R i (t, s, rs) (t, rs_release R (rc_Type rcfg) (rc_Recipient rcfg) s,
          rs(i := (rs i)\<lparr>rn_phase := Releasing todo,
            rn_held := filter (\<lambda>(k, e). k \<noteq> wanted R rcfg) (rn_held (rs i))\<rparr>))"
| returned: "rn_phase (rs i) = Releasing []
    \<Longrightarrow> turn R i (t, s, rs) (t, s, rs(i := (rs i)\<lparr>rn_phase := Returned\<rparr>))"

text \<open>No run has kept a reservation for longer than it lasts.\<close>

definition timely :: "('s, 'k) machine \<Rightarrow> bool" where
  "timely = (\<lambda>(t, s, rs). \<forall>i. \<forall>(k, e) \<in> set (rn_held (rs i)). t < e)"

definition starting :: "('s, 'k) machine \<Rightarrow> bool" where
  "starting = (\<lambda>(t, s, rs). \<forall>i. \<exists>runID def. rs i = new_thread runID def)"

text \<open>The states that can be reached through states with a property.\<close>

inductive reachable :: "('s, 'k) reservations \<Rightarrow> (('s, 'k) machine \<Rightarrow> bool) \<Rightarrow> ('s, 'k) machine \<Rightarrow> bool" for R P where
  reach_start: "starting m \<Longrightarrow> reachable R P m"
| reach_turn: "reachable R P m \<Longrightarrow> turn R i m m' \<Longrightarrow> P m' \<Longrightarrow> reachable R P m'"

text \<open>What a run still has to release.\<close>

definition owed :: "'k run_thread \<Rightarrow> ReceiverConfig list" where
  "owed n = (case rn_phase n of
     Reserving todo reserved \<Rightarrow> reserved @ concat (rn_defers n)
   | Working \<Rightarrow> concat (rn_defers n)
   | Releasing todo \<Rightarrow> todo
   | Returned \<Rightarrow> [])"

lemma reachable_timely: "reachable R timely m \<Longrightarrow> timely m"
proof (induction rule: reachable.induct)
  case (reach_start m)
  obtain t s rs where m: "m = (t, s, rs)" by (cases m)
  have "rn_held (rs i) = []" for i
    using reach_start by (auto simp: m starting_def new_thread_def dest: spec [of _ i])
  then show ?case by (simp add: m timely_def)
qed

subsection \<open>Stores that keep the contract\<close>

locale shared_store = exclusive_store "rs_reserve R" "rs_release R" "rs_holder R" "rs_slot R" "rs_until R"
  for R :: "('s, 'k) reservations"
begin

definition keeps_owed :: "'k run_thread \<Rightarrow> bool" where
  "keeps_owed n \<longleftrightarrow> distinct (map (wanted R) (owed n)) \<and> wanted R ` set (owed n) \<subseteq> fst ` set (rn_held n)
     \<and> distinct (map fst (rn_held n))"

text \<open>A slot belongs to a run until some time.\<close>

definition belongs :: "'s \<Rightarrow> 'k \<Rightarrow> int \<Rightarrow> string \<Rightarrow> bool" where
  "belongs s k e run \<longleftrightarrow> (\<forall>c r t. rs_slot R c r = k \<longrightarrow> t < e \<longrightarrow> rs_holder R c r t s = Some run)"

definition in_order :: "('s, 'k) machine \<Rightarrow> bool" where
  "in_order = (\<lambda>(t, s, rs).
     (\<forall>i. keeps_owed (rs i) \<and> (\<forall>(k, e) \<in> set (rn_held (rs i)). belongs s k e (rn_runID (rs i))))
   \<and> (\<forall>i j. i \<noteq> j \<longrightarrow> fst ` set (rn_held (rs i)) \<inter> fst ` set (rn_held (rs j)) = {}))"

lemma starting_in_order:
  assumes "starting m"
  shows "in_order m"
proof -
  obtain t s rs where m: "m = (t, s, rs)" by (cases m)
  have "rn_held (rs i) = []" "owed (rs i) = []" for i
    using assms by (auto simp: m starting_def owed_def new_thread_def dest: spec [of _ i])
  then show ?thesis by (simp add: m in_order_def keeps_owed_def)
qed

lemma in_orderD:
  assumes "in_order (t, s, rs)"
  shows "keeps_owed (rs i)"
    and "(k, e) \<in> set (rn_held (rs i)) \<Longrightarrow> belongs s k e (rn_runID (rs i))"
    and "i \<noteq> j \<Longrightarrow> fst ` set (rn_held (rs i)) \<inter> fst ` set (rn_held (rs j)) = {}"
  using assms unfolding in_order_def by blast+

lemma in_orderI:
  assumes "\<And>i. keeps_owed (rs i)"
    and "\<And>i k e. (k, e) \<in> set (rn_held (rs i)) \<Longrightarrow> belongs s k e (rn_runID (rs i))"
    and "\<And>i j. i \<noteq> j \<Longrightarrow> fst ` set (rn_held (rs i)) \<inter> fst ` set (rn_held (rs j)) = {}"
  shows "in_order (t, s, rs)"
  using assms unfolding in_order_def by blast

text \<open>From a time on is enough, for a reservation never begins late.\<close>

lemma belongs_from:
  assumes "belongs s k e run" and "now < e"
    and "\<And>c r t. rs_slot R c r = k \<Longrightarrow> now \<le> t \<Longrightarrow> rs_holder R c r t s' = rs_holder R c r t s"
  shows "belongs s' k e run"
  unfolding belongs_def
proof (intro allI impI)
  fix c r t assume k: "rs_slot R c r = k" and t: "t < e"
  have late: "rs_holder R c r x s' = Some run" if "now \<le> x" "x < e" for x
    using assms(1,3) k that by (simp add: belongs_def)
  show "rs_holder R c r t s' = Some run"
  proof (cases "now \<le> t")
    case False
    with late [OF order_refl assms(2)] holder_antimono [of t now c r s' run] show ?thesis by simp
  qed (use late t in simp)
qed

lemma timely_held:
  assumes "timely (t, s, rs)" and "(k, e) \<in> set (rn_held (rs i))"
  shows "t < e"
  using assms unfolding timely_def by fastforce

lemma in_order_store:
  assumes "in_order (t, s, rs)" and "same_holders R now s s'" and "timely (t', s', rs)" and "now \<le> t'"
  shows "in_order (t', s', rs)"
proof (rule in_orderI)
  fix i k e assume h: "(k, e) \<in> set (rn_held (rs i))"
  from timely_held [OF assms(3) h] assms(4) have "now < e" by simp
  with belongs_from [OF in_orderD(2) [OF assms(1) h]] assms(2)
  show "belongs s' k e (rn_runID (rs i))" by (simp add: same_holders_def)
qed (use in_orderD [OF assms(1)] in blast)+

lemma keeps_owed_less:
  assumes "keeps_owed n" and "owed n = paid @ owed n'" and "rn_held n' = rn_held n"
  shows "keeps_owed n'"
proof -
  note o = assms(1) [unfolded keeps_owed_def assms(2)]
  from o have "distinct (map (wanted R) (owed n'))" by simp
  moreover from o have "wanted R ` set (owed n') \<subseteq> fst ` set (rn_held n)" unfolding set_append image_Un by blast
  ultimately show ?thesis using o assms(3) by (simp add: keeps_owed_def)
qed

lemma in_order_move:
  assumes "in_order (t, s, rs)" and "owed (rs i) = paid @ owed n" and "rn_held n = rn_held (rs i)"
    and "rn_runID n = rn_runID (rs i)"
  shows "in_order (t', s, rs(i := n))"
proof -
  note inv = in_orderD [OF assms(1)]
  have same: "rn_held ((rs(i := n)) j) = rn_held (rs j)" "rn_runID ((rs(i := n)) j) = rn_runID (rs j)" for j
    using assms(3,4) by simp_all
  show ?thesis
  proof (rule in_orderI [where rs = "rs(i := n)"])
    show "keeps_owed ((rs(i := n)) j)" for j
      using inv(1) [of j] keeps_owed_less [OF inv(1) assms(2,3)] by (cases "j = i") simp_all
    show "belongs s k e (rn_runID ((rs(i := n)) j))" if "(k, e) \<in> set (rn_held ((rs(i := n)) j))" for j k e
      using that inv(2) [of k e j] unfolding same by simp
    show "fst ` set (rn_held ((rs(i := n)) j)) \<inter> fst ` set (rn_held ((rs(i := n)) j')) = {}" if "j \<noteq> j'" for j j'
      using inv(3) [OF that] unfolding same .
  qed
qed

text \<open>An attempt leaves all slots but its own as they are; one that fails leaves them all.\<close>

lemma reserve_ok:
  assumes "rs_reserve R c r run now now' s = (True, s')"
  shows "rs_holder R c r now s = None" and "belongs s' (rs_slot R c r) (rs_until R now now') run"
proof -
  show "rs_holder R c r now s = None"
    using reserve_held [of c r now s _ run now'] assms by (cases "rs_holder R c r now s") auto
  show "belongs s' (rs_slot R c r) (rs_until R now now') run"
    unfolding belongs_def
  proof (intro allI impI)
    fix c' r' t assume k: "rs_slot R c' r' = rs_slot R c r" and t: "t < rs_until R now now'"
    from reserve_granted [OF assms t] holder_slot [OF k, of t s'] show "rs_holder R c' r' t s' = Some run" by simp
  qed
qed

lemma reserve_failed:
  assumes "rs_reserve R c r run now now' s = (False, s')"
  shows "same_holders R now s s'"
proof -
  have "rs_holder R c' r' t s' = rs_holder R c' r' t s" if "now \<le> t" for c' r' t
  proof (cases "rs_slot R c r = rs_slot R c' r'")
    case True
    from reserve_refused [OF assms that] holder_slot [OF True, of t] show ?thesis by simp
  next
    case False
    from reserve_other [OF this that, of run now' s] assms show ?thesis by simp
  qed
  then show ?thesis by (simp add: same_holders_def)
qed

text \<open>Whoever reserves takes a slot that nobody holds.\<close>

lemma in_order_reserve:
  assumes "in_order (t, s, rs)" and "rn_phase (rs i) = Reserving (rcfg # todo) reserved" and "now \<le> now'"
    and "rs_reserve R (rc_Type rcfg) (rc_Recipient rcfg) (rn_runID (rs i)) now now' s = (True, s')"
    and "timely (now', s', rs(i := (rs i)\<lparr>rn_phase := Reserving todo (reserved @ [rcfg]),
          rn_held := (wanted R rcfg, rs_until R now now') # rn_held (rs i)\<rparr>))"
  shows "in_order (now', s', rs(i := (rs i)\<lparr>rn_phase := Reserving todo (reserved @ [rcfg]),
          rn_held := (wanted R rcfg, rs_until R now now') # rn_held (rs i)\<rparr>))"
proof -
  let ?k = "wanted R rcfg"
  let ?rs = "rs(i := (rs i)\<lparr>rn_phase := Reserving todo (reserved @ [rcfg]),
          rn_held := (?k, rs_until R now now') # rn_held (rs i)\<rparr>)"
  note inv = in_orderD [OF assms(1)] and new = reserve_ok [OF assms(4), folded wanted_def]
  have lasts: "now < e" if "(k, e) \<in> set (rn_held (rs j))" for j k e
  proof -
    from that have "(k, e) \<in> set (rn_held (?rs j))" by (cases "j = i") simp_all
    with assms(5) have "now' < e" unfolding timely_def by blast
    with assms(3) show ?thesis by simp
  qed
  have free: "?k \<notin> fst ` set (rn_held (rs j))" for j
  proof
    assume "?k \<in> fst ` set (rn_held (rs j))"
    then obtain e where e: "(?k, e) \<in> set (rn_held (rs j))" by auto
    from inv(2) [OF e] lasts [OF e] new(1) show False by (simp add: belongs_def wanted_def)
  qed
  define c where "c = concat (rn_defers (rs i))"
  have o: "owed (?rs i) = reserved @ rcfg # c" "owed (rs i) = reserved @ c"
    by (simp_all add: owed_def assms(2) c_def)
  from inv(1) [of i] free [of i] have "keeps_owed (?rs i)"
    unfolding keeps_owed_def o by auto
  then have "keeps_owed (?rs j)" for j using inv(1) [of j] by (cases "j = i") simp_all
  moreover have "belongs s' k e (rn_runID (?rs j))" if "(k, e) \<in> set (rn_held (?rs j))" for j k e
  proof (cases "j = i \<and> k = ?k")
    case True
    with that free [of i] have "e = rs_until R now now'" by force
    with True new(2) show ?thesis by simp
  next
    case False
    with that have h: "(k, e) \<in> set (rn_held (rs j))" by (auto split: if_splits)
    with free [of j] have k: "k \<noteq> ?k" by force
    have "rs_holder R c r x s' = rs_holder R c r x s" if "rs_slot R c r = k" "now \<le> x" for c r x
      using reserve_other [of "rc_Type rcfg" "rc_Recipient rcfg" c r now x "rn_runID (rs i)" now' s] that k assms(4)
      by (simp add: wanted_def)
    from belongs_from [OF inv(2) [OF h] lasts [OF h] this] show ?thesis by (cases "j = i") simp_all
  qed
  moreover have "fst ` set (rn_held (?rs j)) \<inter> fst ` set (rn_held (?rs j')) = {}" if "j \<noteq> j'" for j j'
    using inv(3) [OF that] free that by auto
  ultimately show ?thesis by (rule in_orderI)
qed

text \<open>Whoever releases gives up a slot of its own.\<close>

lemma in_order_release:
  assumes "in_order (t, s, rs)" and "rn_phase (rs i) = Releasing (rcfg # todo)"
  shows "in_order (t, rs_release R (rc_Type rcfg) (rc_Recipient rcfg) s,
     rs(i := (rs i)\<lparr>rn_phase := Releasing todo, rn_held := filter (\<lambda>(k, e). k \<noteq> wanted R rcfg) (rn_held (rs i))\<rparr>))"
proof -
  let ?k = "wanted R rcfg"
  let ?rs = "rs(i := (rs i)\<lparr>rn_phase := Releasing todo, rn_held := filter (\<lambda>(k, e). k \<noteq> ?k) (rn_held (rs i))\<rparr>)"
  note inv = in_orderD [OF assms(1)]
  have o: "owed (?rs i) = todo" "owed (rs i) = rcfg # todo" by (simp_all add: owed_def assms(2))
  note own = inv(1) [of i, unfolded keeps_owed_def o]
  from own have mine: "?k \<in> fst ` set (rn_held (rs i))" by simp
  have held: "set (rn_held (?rs j)) = {(k, e) \<in> set (rn_held (rs j)). k \<noteq> ?k}" for j
    using inv(3) [of i j] mine by (cases "j = i") force+
  have "distinct (map fst (rn_held (?rs i)))"
    using own by (auto simp: distinct_map_filter split_beta)
  moreover have "wanted R ` set todo \<subseteq> fst ` set (rn_held (?rs i))"
  proof
    fix k assume k: "k \<in> wanted R ` set todo"
    with own obtain e where "(k, e) \<in> set (rn_held (rs i))" by force
    moreover have "?k \<notin> wanted R ` set todo" using own by simp
    with k have "k \<noteq> ?k" by blast
    ultimately show "k \<in> fst ` set (rn_held (?rs i))" unfolding held by force
  qed
  ultimately have "keeps_owed (?rs i)" using own by (simp only: keeps_owed_def o) simp
  then have "keeps_owed (?rs j)" for j using inv(1) [of j] by (cases "j = i") simp_all
  moreover have "belongs (rs_release R (rc_Type rcfg) (rc_Recipient rcfg) s) k e (rn_runID (?rs j))"
    if "(k, e) \<in> set (rn_held (?rs j))" for j k e
    using that inv(2) [of k e j] unfolding held by (auto simp: belongs_def release_other wanted_def)
  moreover have "fst ` set (rn_held (?rs j)) \<inter> fst ` set (rn_held (?rs j')) = {}" if "j \<noteq> j'" for j j'
    using inv(3) [OF that] unfolding held by force
  ultimately show ?thesis by (rule in_orderI)
qed

lemma in_order_turn:
  assumes "turn R i m m'" and "in_order m" and "timely m'"
  shows "in_order m'"
  using assms
proof (cases rule: turn.cases)
  case (reserve rs rcfg todo reserved t now now' s s')
  with assms show ?thesis by (simp only:) (rule in_order_reserve; assumption)
next
  case (release rs rcfg todo t s)
  with assms show ?thesis by (simp only:) (rule in_order_release; assumption)
next
  case (messages t now s s' rs)
  with assms(2,3) in_order_store [of t s rs now s' now] show ?thesis by simp
next
  case (time t t' s rs)
  with assms show ?thesis by (auto simp: in_order_def)
next
  case (refuse rs rcfg todo reserved t now now' s s')
  let ?rs = "rs(i := (rs i)\<lparr>rn_phase := Releasing (concat (rn_defers (rs i)))\<rparr>)"
  have "in_order (t, s, ?rs)"
    using assms(2) refuse by (intro in_order_move [where paid = reserved]) (auto simp: owed_def)
  from in_order_store [OF this reserve_failed [OF refuse(7)]] assms(3) refuse show ?thesis by simp
qed (use assms(2) in \<open>auto intro!: in_order_move [where paid = "[]"] simp: owed_def\<close>)

lemma reachable_in_order: "reachable R timely m \<Longrightarrow> in_order m"
  by (induction rule: reachable.induct) (auto intro: starting_in_order in_order_turn)

theorem nobody_shares:
  assumes "reachable R timely (t, s, rs)" and "(rs_slot R c r, e) \<in> set (rn_held (rs i))"
  shows "t < e"
    and "now < e \<Longrightarrow> rs_holder R c r now s = Some (rn_runID (rs i))"
    and "j \<noteq> i \<Longrightarrow> (rs_slot R c r, e') \<notin> set (rn_held (rs j))"
    and "now < e \<Longrightarrow> \<not> fst (rs_reserve R c r run now now' s)"
proof -
  note inv = in_orderD [OF reachable_in_order [OF assms(1)]]
  from timely_held [OF reachable_timely [OF assms(1)] assms(2)] show "t < e" .
  show h: "now < e \<Longrightarrow> rs_holder R c r now s = Some (rn_runID (rs i))"
    using inv(2) [OF assms(2)] by (simp add: belongs_def)
  show "j \<noteq> i \<Longrightarrow> (rs_slot R c r, e') \<notin> set (rn_held (rs j))"
    using inv(3) [of j i] assms(2) by force
  show "now < e \<Longrightarrow> \<not> fst (rs_reserve R c r run now now' s)"
    using reserve_held [OF h] by blast
qed

end

subsection \<open>The first turns of a run\<close>

text \<open>A run that reserves one recipient, and one that returns and releases it.\<close>

lemma reach_reserve:
  assumes "reachable R P (t, s, rs)" and "rs i = new_thread runID def"
    and "map tc_Receivers (td_Triggers def) = [rcfg] # rest" and "rc_Recipient rcfg \<noteq> []"
    and "rs_reserve R (rc_Type rcfg) (rc_Recipient rcfg) runID t t s = (True, s')"
    and "\<And>n. rn_held n = [] \<Longrightarrow> P (t, s, rs(i := n))"
    and "\<And>n. rn_held n = [(wanted R rcfg, rs_until R t t)] \<Longrightarrow> P (t, s', rs(i := n))"
  shows "reachable R P (t, s', rs(i := \<lparr>rn_runID = runID, rn_steps = rest, rn_phase = Reserving [] [rcfg], rn_defers = [],
     rn_held = [(wanted R rcfg, rs_until R t t)]\<rparr>))"
proof -
  let ?rs = "rs(i := (rs i)\<lparr>rn_phase := Reserving [rcfg] [], rn_steps := rest\<rparr>)"
  have "reachable R P (t, s, ?rs)"
    using assms(1) by (rule reach_turn) (rule turn.step, simp_all add: assms(2,3,6) new_thread_def)
  then have "reachable R P (t, s', ?rs(i := (?rs i)\<lparr>rn_phase := Reserving [] ([] @ [rcfg]),
         rn_held := (wanted R rcfg, rs_until R t t) # rn_held (?rs i)\<rparr>))"
    by (rule reach_turn) (rule turn.reserve [where now = t], simp_all add: assms(2-5,7) new_thread_def)
  then show ?thesis by (simp add: assms(2) new_thread_def)
qed

lemma reach_release:
  assumes "reachable R (\<lambda>_. True) (t, s, rs)" and "rs i = \<lparr>rn_runID = runID, rn_steps = rest, rn_phase = Reserving [] [rcfg], rn_defers = [],
     rn_held = [(wanted R rcfg, e)]\<rparr>"
  shows "reachable R (\<lambda>_. True) (t, rs_release R (rc_Type rcfg) (rc_Recipient rcfg) s, rs(i := \<lparr>rn_runID = runID, rn_steps = rest,
     rn_phase = Releasing [], rn_defers = [[rcfg]], rn_held = []\<rparr>))"
proof -
  let ?n = "\<lambda>phase. \<lparr>rn_runID = runID, rn_steps = rest, rn_phase = phase, rn_defers = [[rcfg]], rn_held = [(wanted R rcfg, e)]\<rparr>"
  let ?rs = "rs(i := ?n Working)" and ?rs2 = "rs(i := ?n (Releasing [rcfg]))"
  have "turn R i (t, s, rs) (t, s, rs(i := (rs i)\<lparr>rn_phase := Working, rn_defers := [rcfg] # rn_defers (rs i)\<rparr>))"
    by (rule turn.reserved) (simp add: assms(2))
  with assms have "reachable R (\<lambda>_. True) (t, s, ?rs)" by (auto intro: reach_turn)
  moreover have "turn R i (t, s, ?rs) (t, s, ?rs(i := (?rs i)\<lparr>rn_phase := Releasing (concat (rn_defers (?rs i)))\<rparr>))"
    by (rule turn.return) simp
  ultimately have "reachable R (\<lambda>_. True) (t, s, ?rs2)" by (auto intro: reach_turn)
  moreover have "turn R i (t, s, ?rs2) (t, rs_release R (rc_Type rcfg) (rc_Recipient rcfg) s,
      ?rs2(i := (?rs2 i)\<lparr>rn_phase := Releasing [], rn_held := filter (\<lambda>(k, e). k \<noteq> wanted R rcfg) (rn_held (?rs2 i))\<rparr>))"
    by (rule turn.release) simp
  ultimately show ?thesis using assms(2) by (auto dest: reach_turn)
qed

subsection \<open>The memory store\<close>

definition mem_reservations :: "(MemoryStore, string) reservations" where
  "mem_reservations =
     \<lparr>rs_reserve = mem_try_reserve, rs_release = mem_Release, rs_holder = mem_holder, rs_slot = store_key,
      rs_until = (\<lambda>_ t. t + reservationTTL)\<rparr>"

lemma mem_reservations_simps [simp]:
  "rs_reserve mem_reservations = mem_try_reserve" "rs_release mem_reservations = mem_Release"
  "rs_holder mem_reservations = mem_holder" "rs_slot mem_reservations = store_key"
  "rs_until mem_reservations now t = t + reservationTTL"
  by (simp_all add: mem_reservations_def)

interpretation mem_runs: shared_store mem_reservations
  by (simp add: shared_store_def mem_reservations_def res.exclusive_store_axioms)

lemma mem_same_holders: "ms_reservations s' = ms_reservations s \<Longrightarrow> same_holders mem_reservations now s s'"
  by (simp add: same_holders_def mem_holder_def)

lemma mem_message_turns:
  "same_holders mem_reservations now s (snd (mem_Deposit cod m now s))"
  "same_holders mem_reservations now s (mem_Delete runID receiverType s)"
  by (auto intro!: mem_same_holders simp: mem_Deposit_def mem_Delete_def split: sum.splits)

end
