(* ===== verification/Concurrent_Runs.thy ===== *)
theory Concurrent_Runs
  imports Reservations Interleaving
begin

section \<open>The runs of the orchestrator on the memory store\<close>

text \<open>
  The machine of \<open>Interleaving\<close> on the memory store, which holds its mutex for the whole of a call; and
  the refinement of \<open>execute\<close> to it.
\<close>

lemma wanted_mem [simp]: "wanted mem_reservations = slot_of"
  by (rule ext) (simp add: wanted_def slot_of_def)

subsection \<open>Properties\<close>


lemmas mem_reach_reserve = reach_reserve [where R = mem_reservations, unfolded wanted_mem mem_reservations_simps]
lemmas mem_reach_release = reach_release [where R = mem_reservations, unfolded wanted_mem mem_reservations_simps]

text \<open>A step that reserves one recipient.\<close>

definition mail_step :: TriggerConfig where "mail_step = recipient_step 1"


subsection \<open>The orchestrator takes its turns\<close>

text \<open>
  The runs of the orchestrator, as \<open>execute\<close> models them, are threads of this machine. The world of a run holds
  the store and, at \<open>others\<close>, the state of all other runs. While its triggers work and its receivers start and stop, the
  others take turns; while it collects they may work with messages.
\<close>

definition machine_of :: "('x \<Rightarrow> MemoryStore) \<Rightarrow> ('x \<Rightarrow> nat \<Rightarrow> string run_thread) \<Rightarrow> nat \<Rightarrow> string run_thread \<Rightarrow> 'x world \<Rightarrow> (MemoryStore, string) machine" where
  "machine_of get others i n w = (clock w, get (outside w), (others (outside w))(i := n))"

definition turns :: "nat set \<Rightarrow> (MemoryStore, string) machine \<Rightarrow> (MemoryStore, string) machine \<Rightarrow> bool" where
  "turns A = (\<lambda>m m'. \<exists>i \<in> A. turn mem_reservations i m m')\<^sup>*\<^sup>*"

definition others_turn :: "('x \<Rightarrow> MemoryStore) \<Rightarrow> ('x \<Rightarrow> nat \<Rightarrow> string run_thread) \<Rightarrow> nat \<Rightarrow> 'x world \<Rightarrow> 'x world \<Rightarrow> bool" where
  "others_turn get others i w w' \<longleftrightarrow> (\<forall>n. turns (- {i}) (machine_of get others i n w) (machine_of get others i n w'))"

definition messages_only :: "('x \<Rightarrow> MemoryStore) \<Rightarrow> ('x \<Rightarrow> nat \<Rightarrow> string run_thread) \<Rightarrow> 'x world \<Rightarrow> 'x world \<Rightarrow> bool" where
  "messages_only get others w w' \<longleftrightarrow> clock w \<le> clock w' \<and> others (outside w') = others (outside w)
     \<and> ms_reservations (get (outside w')) = ms_reservations (get (outside w))"

definition taking_turns :: "('i, 'x) Orchestrator \<Rightarrow> codec \<Rightarrow> ('x \<Rightarrow> MemoryStore) \<Rightarrow> (MemoryStore \<Rightarrow> 'x \<Rightarrow> 'x)
    \<Rightarrow> ('x \<Rightarrow> nat \<Rightarrow> string run_thread) \<Rightarrow> nat \<Rightarrow> bool" where
  "taking_turns orc cod get put others i \<longleftrightarrow>
     or_store orc = memory_port cod get put \<and> stored_in get put \<and> (\<forall>s x. others (put s x) = others x)
   \<and> (\<forall>inst ctx vars w out vars' w'. rv_Collect (or_receivers orc) inst ctx vars w = Some (out, vars', w')
        \<longrightarrow> messages_only get others w w')
   \<and> (\<forall>inst ctx runID vars w. others_turn get others i w (snd (snd (rv_Start (or_receivers orc) inst ctx runID vars w))))
   \<and> (\<forall>inst w. others_turn get others i w (snd (rv_Stop (or_receivers orc) inst w)))
   \<and> (\<forall>ty opts trig ctx step runID vars w out vars' w'. TriggerRegistry_Create (or_triggers orc) ty opts = Inr trig
        \<longrightarrow> trig ctx step runID vars w = Some (out, vars', w') \<longrightarrow> others_turn get others i w w')"

lemma turns_refl [simp]: "turns A m m"
  by (simp add: turns_def)

lemma turns_trans [trans]: "turns A m1 m2 \<Longrightarrow> turns A m2 m3 \<Longrightarrow> turns A m1 m3"
  by (simp add: turns_def)

lemma turns_one: "turn mem_reservations i m m' \<Longrightarrow> i \<in> A \<Longrightarrow> turns A m m'"
  unfolding turns_def by (rule r_into_rtranclp) blast

lemma turns_mono: "turns A m m' \<Longrightarrow> A \<subseteq> B \<Longrightarrow> turns B m m'"
  unfolding turns_def by (erule rtranclp_mono [THEN predicate2D, rotated]) blast

lemma others_turn_trans: "others_turn get others i w1 w2 \<Longrightarrow> others_turn get others i w2 w3 \<Longrightarrow> others_turn get others i w1 w3"
  unfolding others_turn_def by (blast intro: turns_trans)

lemma messages_others_turn:
  assumes "messages_only get others w w'"
  shows "others_turn get others i w w'"
  unfolding others_turn_def
proof
  fix n
  have m: "clock w \<le> clock w'" "others (outside w') = others (outside w)"
    "ms_reservations (get (outside w')) = ms_reservations (get (outside w))"
    using assms by (simp_all add: messages_only_def)
  let ?rs = "(others (outside w))(i := n)"
  have "turns (- {i}) (clock w, get (outside w), ?rs) (clock w', get (outside w), ?rs)"
    by (rule turns_one [of "Suc i"]) (simp_all add: turn.time m)
  also have "turns (- {i}) \<dots> (clock w', get (outside w'), ?rs)"
    by (rule turns_one [of "Suc i"]) (rule turn.messages, simp_all add: mem_same_holders m)
  finally show "turns (- {i}) (machine_of get others i n w) (machine_of get others i n w')"
    by (simp add: machine_of_def m)
qed

lemma messages_only_delete:
  assumes "stored_in get put" and "\<forall>s x. others (put s x) = others x"
  shows "messages_only get others w (snd (st_Delete (memory_port cod get put) runID typ w))"
  using assms by (simp add: messages_only_def memory_port_def stored_in_def mem_Delete_def)

lemma taking_turns_steps:
  assumes "taking_turns orc cod get put others i"
  shows "rv_Collect (or_receivers orc) inst ctx vars w = Some (collected, vars', w') \<Longrightarrow> messages_only get others w w'"
    and "rv_Start (or_receivers orc) inst ctx runID vars w = (err, inst', w') \<Longrightarrow> others_turn get others i w w'"
    and "others_turn get others i w (snd (rv_Stop (or_receivers orc) inst w))"
    and "TriggerRegistry_Create (or_triggers orc) ty opts = Inr trig
      \<Longrightarrow> trig ctx step runID vars w = Some (out, vars', w') \<Longrightarrow> others_turn get others i w w'"
    and "or_store orc = memory_port cod get put" and "stored_in get put" and "\<forall>s x. others (put s x) = others x"
proof -
  note u = assms [unfolded taking_turns_def]
  have "others_turn get others i w (snd (snd (rv_Start (or_receivers orc) inst ctx runID vars w)))" using u by simp
  then show "rv_Start (or_receivers orc) inst ctx runID vars w = (err, inst', w') \<Longrightarrow> others_turn get others i w w'" by simp
  show "rv_Collect (or_receivers orc) inst ctx vars w = Some (collected, vars', w') \<Longrightarrow> messages_only get others w w'"
    using u by simp
  show "others_turn get others i w (snd (rv_Stop (or_receivers orc) inst w))" using u by simp
  show "TriggerRegistry_Create (or_triggers orc) ty opts = Inr trig
      \<Longrightarrow> trig ctx step runID vars w = Some (out, vars', w') \<Longrightarrow> others_turn get others i w w'" using u by simp
  show "or_store orc = memory_port cod get put" and "stored_in get put" and "\<forall>s x. others (put s x) = others x"
    using u by simp_all
qed

lemma messages_only_simps:
  "messages_only get others w w"
  "messages_only get others w w' \<Longrightarrow> clock w \<le> t \<Longrightarrow> messages_only get others w (w'\<lparr>clock := t\<rparr>)"
  "messages_only get others w (w\<lparr>draws := e\<rparr>)"
  by (simp_all add: messages_only_def)

lemma messages_only_trans:
  "messages_only get others w1 w2 \<Longrightarrow> messages_only get others w2 w3 \<Longrightarrow> messages_only get others w1 w3"
  by (simp add: messages_only_def)

interpretation turning: run_frame orc
    "\<lambda>w w'. taking_turns orc cod get put others i \<longrightarrow> others_turn get others i w w'"
    "\<lambda>w w'. taking_turns orc cod get put others i \<longrightarrow> messages_only get others w w'" for orc cod get put others i
  by unfold_locales
    (auto intro: others_turn_trans messages_only_trans messages_only_simps messages_others_turn messages_only_delete
        taking_turns_steps(1-4)
      simp: taking_turns_steps(5) dest: taking_turns_steps(6,7))

lemma others_turns:
  "others_turn get others i w w' \<Longrightarrow> turns UNIV (machine_of get others i n w) (machine_of get others i n w')"
  unfolding others_turn_def by (blast intro: turns_mono)

lemma own_turn:
  assumes "turn mem_reservations i (machine_of get others i n w) (t', s', (others (outside w))(i := n'))"
    and "clock w' = t'" and "get (outside w') = s'" and "others (outside w') = others (outside w)"
  shows "turns UNIV (machine_of get others i n w) (machine_of get others i n' w')"
  using assms by (intro turns_one [of i]) (simp_all add: machine_of_def)

lemma skip_turns:
  assumes "rn_phase n = Reserving (rcfg # todo) reserved" and "rc_Recipient rcfg = []"
  shows "turns UNIV (machine_of get others i n w) (machine_of get others i (n\<lparr>rn_phase := Reserving todo reserved\<rparr>) w)"
  by (rule own_turn, unfold machine_of_def,
      rule turn.skip [where R = mem_reservations and rs = "(others (outside w))(i := n)" and i = i, simplified])
    (use assms in simp_all)

text \<open>One attempt to reserve: the thread holds one more recipient, or it begins to release what it owes.\<close>

lemma attempt_turns:
  assumes "st_Reserve (memory_port cod get put) (rc_Type rcfg) (rc_Recipient rcfg) (rn_runID n) w = (res, w1)"
    and "stored_in get put" and "\<forall>s x. others (put s x) = others x"
    and "rn_phase n = Reserving (rcfg # todo) reserved" and "rc_Recipient rcfg \<noteq> []"
  shows "res = None \<Longrightarrow> \<exists>e. turns UNIV (machine_of get others i n w) (machine_of get others i
      (n\<lparr>rn_phase := Reserving todo (reserved @ [rcfg]), rn_held := (slot_of rcfg, e) # rn_held n\<rparr>) w1)"
    and "res \<noteq> None \<Longrightarrow> turns UNIV (machine_of get others i n w)
      (machine_of get others i (n\<lparr>rn_phase := Releasing (concat (rn_defers n))\<rparr>) w1)"
proof -
  let ?now = "fst (time_Now w)" and ?now' = "fst (time_Now (snd (time_Now w)))" and ?rs = "(others (outside w))(i := n)"
  have "mem_Reserve (rc_Type rcfg) (rc_Recipient rcfg) (rn_runID n) ?now ?now' (get (outside w)) = (res, get (outside w1))"
    using assms(1,2) by (auto simp: memory_port_def split_beta Let_def stored_in_def prod_eq_iff)
  then have m: "mem_try_reserve (rc_Type rcfg) (rc_Recipient rcfg) (rn_runID n) ?now ?now' (get (outside w)) = (res = None, get (outside w1))"
    by (simp add: mem_try_reserve_def)
  have w1: "clock w1 = ?now'" "others (outside w1) = others (outside w)"
    using assms(1,3) by (auto simp: memory_port_def split_beta Let_def clock_time_Now(1))
  have t: "clock w \<le> ?now" "?now \<le> ?now'"
    using clock_time_Now [of w] clock_time_Now [of "snd (time_Now w)"] by simp_all
  show "\<exists>e. turns UNIV (machine_of get others i n w) (machine_of get others i
      (n\<lparr>rn_phase := Reserving todo (reserved @ [rcfg]), rn_held := (slot_of rcfg, e) # rn_held n\<rparr>) w1)" if "res = None"
    by (rule exI [of _ "?now' + reservationTTL"], rule own_turn, unfold machine_of_def,
        rule turn.reserve [where R = mem_reservations and rs = ?rs and i = i, simplified])
      (use assms(4,5) that t m w1 in simp_all)
  show "turns UNIV (machine_of get others i n w)
      (machine_of get others i (n\<lparr>rn_phase := Releasing (concat (rn_defers n))\<rparr>) w1)" if "res \<noteq> None"
    by (rule own_turn, unfold machine_of_def, rule turn.refuse [where R = mem_reservations and rs = ?rs and i = i, simplified])
      (use assms(4,5) t m [simplified that simp_thms] w1 in simp_all)
qed

lemma reserve_loop_turns:
  assumes "reserve_loop (memory_port cod get put) runID configs reserved w = ((reserved', err), w')"
    and "stored_in get put" and "\<forall>s x. others (put s x) = others x"
    and "rn_phase n = Reserving configs reserved" and "rn_runID n = runID"
  shows "\<exists>h. turns UNIV (machine_of get others i n w) (machine_of get others i
         (n\<lparr>rn_phase := (case err of None \<Rightarrow> Reserving [] reserved' | Some e \<Rightarrow> Releasing (concat (rn_defers n))), rn_held := h\<rparr>) w')
     \<and> fst ` set h \<subseteq> fst ` set (rn_held n) \<union> slot_of ` set reserved' \<and> set reserved \<subseteq> set reserved'"
  using assms(1,4,5)
proof (induction configs arbitrary: reserved w n)
  case Nil
  then have x: "reserved' = reserved" "err = None" "w' = w" by auto
  have e: "n\<lparr>rn_phase := Reserving [] reserved\<rparr> = n" using Nil.prems(2) by (cases n) simp
  show ?case by (rule exI [of _ "rn_held n"]) (simp add: x e)
next
  case (Cons rcfg configs)
  obtain res w1 where r: "st_Reserve (memory_port cod get put) (rc_Type rcfg) (rc_Recipient rcfg) (rn_runID n) w = (res, w1)"
    by (metis surj_pair)
  note one = attempt_turns [OF r assms(2,3) Cons.prems(2)]
  let ?mo = "machine_of get others i"
    and ?to = "\<lambda>h. n\<lparr>rn_phase := (case err of None \<Rightarrow> Reserving [] reserved' | Some e \<Rightarrow> Releasing (concat (rn_defers n))), rn_held := h\<rparr>"
  consider "rc_Recipient rcfg = []" | e where "rc_Recipient rcfg \<noteq> []" "res = Some e" | "rc_Recipient rcfg \<noteq> []" "res = None"
    by (cases res) auto
  then show ?case
  proof cases
    case 1
    let ?n = "n\<lparr>rn_phase := Reserving configs reserved\<rparr>"
    from Cons.prems(1) 1 have "reserve_loop (memory_port cod get put) runID configs reserved w = ((reserved', err), w')" by simp
    from Cons.IH [OF this, of ?n] Cons.prems(3) obtain h where
      "turns UNIV (?mo ?n w) (?mo (?to h) w')" "fst ` set h \<subseteq> fst ` set (rn_held n) \<union> slot_of ` set reserved'" "set reserved \<subseteq> set reserved'"
      by (auto cong: option.case_cong)
    with turns_trans [OF skip_turns [OF Cons.prems(2) 1]] show ?thesis by blast
  next
    case 2
    with Cons.prems(1,3) r have "err \<noteq> None" "reserved' = reserved" "w' = w1" by auto
    with one(2) [OF 2(1)] 2(2) show ?thesis by (intro exI [of _ "rn_held n"]) auto
  next
    case 3
    from one(1) [OF 3] obtain e where t: "turns UNIV (machine_of get others i n w) (machine_of get others i
        (n\<lparr>rn_phase := Reserving configs (reserved @ [rcfg]), rn_held := (slot_of rcfg, e) # rn_held n\<rparr>) w1)" by blast
    let ?n = "n\<lparr>rn_phase := Reserving configs (reserved @ [rcfg]), rn_held := (slot_of rcfg, e) # rn_held n\<rparr>"
    have "reserve_loop (memory_port cod get put) runID configs (reserved @ [rcfg]) w1 = ((reserved', err), w')"
      using Cons.prems(1,3) 3 r by simp
    from Cons.IH [OF this, of ?n] Cons.prems(3) obtain h where
      "turns UNIV (?mo ?n w1) (?mo (?to h) w')" "fst ` set h \<subseteq> insert (slot_of rcfg) (fst ` set (rn_held n)) \<union> slot_of ` set reserved'"
      "insert rcfg (set reserved) \<subseteq> set reserved'"
      by (auto cong: option.case_cong)
    with turns_trans [OF t] show ?thesis by (intro exI [of _ h]) auto
  qed
qed

text \<open>A step: the thread is at work again, or it has begun to release what it owes.\<close>

definition settled :: "string run_thread \<Rightarrow> bool" where
  "settled n \<longleftrightarrow> fst ` set (rn_held n) \<subseteq> slot_of ` set (owed n)"

lemma failResult_turns:
  assumes "taking_turns orc cod get put others i"
  shows "turns UNIV (machine_of get others i n w) (machine_of get others i n (snd (failResult tx r w)))"
  using turning.failResult_R assms by (intro others_turns) blast

lemma return_turns:
  assumes "rn_phase n = Working"
  shows "turns UNIV (machine_of get others i n w)
    (machine_of get others i (n\<lparr>rn_phase := Releasing (concat (rn_defers n))\<rparr>) w)"
  by (rule own_turn, unfold machine_of_def, rule turn.return [where R = mem_reservations and rs = "(others (outside w))(i := n)" and i = i, simplified])
    (use assms in simp_all)

lemma reserved_turns:
  assumes "rn_phase n = Reserving [] reserved"
  shows "turns UNIV (machine_of get others i n w)
    (machine_of get others i (n\<lparr>rn_phase := Working, rn_defers := reserved # rn_defers n\<rparr>) w)"
  by (rule own_turn, unfold machine_of_def, rule turn.reserved [where R = mem_reservations and rs = "(others (outside w))(i := n)" and i = i, simplified])
    (use assms in simp_all)

lemma reserveRecipients_turns:
  assumes "taking_turns orc cod get put others i"
    and "reserveRecipients orc configs runID w = ((reserved, err), w')"
    and "rn_phase n = Working" and "rn_steps n = configs # steps" and "rn_runID n = runID" and "settled n"
  shows "\<exists>n'. turns UNIV (machine_of get others i n w) (machine_of get others i n' w')
     \<and> rn_runID n' = runID \<and> rn_steps n' = steps
     \<and> (case err of
          None \<Rightarrow> rn_phase n' = Working \<and> rn_defers n' = reserved # rn_defers n \<and> settled n'
        | Some e \<Rightarrow> rn_phase n' = Releasing (concat (rn_defers n)))"
proof -
  let ?mo = "machine_of get others i"
  let ?n = "n\<lparr>rn_phase := Reserving configs [], rn_steps := steps\<rparr>"
  have s: "turns UNIV (?mo n w) (?mo ?n w)"
    by (rule own_turn, unfold machine_of_def, rule turn.step [where R = mem_reservations and rs = "(others (outside w))(i := n)" and i = i, simplified])
      (use assms(3,4) in simp_all)
  have l: "reserve_loop (memory_port cod get put) runID configs [] w = ((reserved, err), w')"
    using assms(2) taking_turns_steps(5) [OF assms(1)] by (simp add: reserveRecipients_def)
  from reserve_loop_turns [OF l taking_turns_steps(6,7) [OF assms(1)], of ?n i] assms(5) obtain h where
    h: "turns UNIV (?mo ?n w) (?mo (?n\<lparr>rn_phase := (case err of None \<Rightarrow> Reserving [] reserved | Some e \<Rightarrow> Releasing (concat (rn_defers n))),
        rn_held := h\<rparr>) w')" "fst ` set h \<subseteq> fst ` set (rn_held n) \<union> slot_of ` set reserved"
    by (auto cong: option.case_cong)
  show ?thesis
  proof (cases err)
    case (Some e)
    let ?n1 = "?n\<lparr>rn_phase := Releasing (concat (rn_defers n)), rn_held := h\<rparr>"
    from h(1) Some have "turns UNIV (?mo ?n w) (?mo ?n1 w')" by simp
    from turns_trans [OF s this] Some assms(5) show ?thesis by (intro exI [of _ ?n1]) simp
  next
    case None
    let ?n1 = "?n\<lparr>rn_phase := Reserving [] reserved, rn_held := h\<rparr>"
    let ?n2 = "?n1\<lparr>rn_phase := Working, rn_defers := reserved # rn_defers n\<rparr>"
    have "turns UNIV (?mo ?n1 w') (?mo ?n2 w')"
      using reserved_turns [of ?n1 reserved] by simp
    moreover have "owed ?n2 = reserved @ owed n" by (simp add: owed_def assms(3))
    then have "settled ?n2"
      using h(2) assms(6) unfolding settled_def by (simp add: image_Un) blast
    ultimately show ?thesis
      using None h(1) s assms(5) by (intro exI [of _ ?n2]) (auto intro: turns_trans)
  qed
qed

lemma run_step_turns:
  assumes "taking_turns orc cod get put others i"
    and "run_step orc ctx rt runID step idx (rn_defers n) vars result w = Some out"
    and "rn_phase n = Working" and "rn_steps n = tc_Receivers step # steps" and "rn_runID n = runID" and "settled n"
  shows "case out of
      Inr (vars', r, defers, w') \<Rightarrow> \<exists>n'. turns UNIV (machine_of get others i n w) (machine_of get others i n' w')
        \<and> rn_phase n' = Working \<and> rn_steps n' = steps \<and> rn_runID n' = runID \<and> settled n' \<and> rn_defers n' = defers
    | Inl (r, defers, w') \<Rightarrow> \<exists>n'. turns UNIV (machine_of get others i n w) (machine_of get others i n' w')
        \<and> rn_phase n' = Releasing (concat defers) \<and> rn_runID n' = runID"
proof -
  let ?mo = "machine_of get others i"
  have s: "turns UNIV (?mo n w) (?mo n (step_start step w))" for n
    using turning.step_start_R assms(1) by (intro others_turns) blast
  show ?thesis using assms(2)
  proof (cases rule: run_step_worlds)
    case (no_trigger tx r)
    note turns_trans [OF turns_trans [OF s failResult_turns [OF assms(1)]] return_turns [OF assms(3)]]
    with no_trigger assms(5) show ?thesis by (force simp del: fun_upd_apply)
  next
    case (refused reserved e w1 tx r)
    from reserveRecipients_turns [OF assms(1) refused(1) assms(3-6)] obtain n' where
      n': "turns UNIV (?mo n (step_start step w)) (?mo n' w1)" "rn_runID n' = runID" "rn_phase n' = Releasing (concat (rn_defers n))"
      by auto
    from turns_trans [OF turns_trans [OF s n'(1)] failResult_turns [OF assms(1)]] n'(2,3) refused(2) show ?thesis by force
  next
    case (ran trig reserved w1 p le result1 vars1 w2)
    from reserveRecipients_turns [OF assms(1) ran(2) assms(3-6)] obtain n' where
      n': "turns UNIV (?mo n (step_start step w)) (?mo n' w1)" "rn_runID n' = runID" "rn_steps n' = steps"
        "rn_phase n' = Working" "rn_defers n' = reserved # rn_defers n" "settled n'"
      by auto
    have a: "turns UNIV (?mo n' w1) (?mo n' w2)"
      using turning.now_R turning.attempt_loop_R [OF ran(1,3)] assms(1) others_turn_trans
      by (intro others_turns) blast
    note path = turns_trans [OF turns_trans [OF s n'(1)] a]
    show ?thesis
    proof (cases p)
      case True
      with ran(4) path n' show ?thesis by force
    next
      case False
      with ran(5) obtain r w3 where out: "out = Inl (r, reserved # rn_defers n, w3)"
        and w3: "w3 = w2 \<or> (\<exists>tx r. w3 = snd (failResult tx r w2))" by blast
      from w3 have "turns UNIV (?mo n' w2) (?mo n' w3)"
        using failResult_turns [OF assms(1)] by auto
      from turns_trans [OF turns_trans [OF path this] return_turns [OF n'(4)]] out n' show ?thesis by force
    qed
  qed
qed

lemma steps_loop_turns:
  assumes "taking_turns orc cod get put others i"
    and "steps_loop orc ctx rt runID steps idx (rn_defers n) vars result w = Some (result', defers', w')"
    and "rn_phase n = Working" and "rn_steps n = map tc_Receivers steps" and "rn_runID n = runID" and "settled n"
    and "tr_Status result = StatusPassed"
  shows "\<exists>n'. turns UNIV (machine_of get others i n w) (machine_of get others i n' w')
     \<and> rn_phase n' = Releasing (concat defers') \<and> rn_runID n' = runID
     \<and> (tr_Status result' = StatusPassed \<longrightarrow> rn_steps n' = [] \<and> settled n')"
  using assms(2-7)
proof (induction steps arbitrary: idx n vars result w)
  case Nil
  then have "result'\<lparr>tr_TriggerVars := x\<rparr> = result\<lparr>tr_TriggerVars := x\<rparr>" for x by auto
  let ?n = "n\<lparr>rn_phase := Releasing (concat (rn_defers n))\<rparr>"
  from Nil return_turns [OF Nil.prems(2)] show ?case
    by (intro exI [of _ ?n]) (auto simp: settled_def owed_def)
next
  case (Cons step steps)
  let ?mo = "machine_of get others i"
  from Cons.prems(1) show ?case
  proof (cases rule: steps_cases)
    case stop
    from run_step_turns [OF assms(1) stop Cons.prems(2) _ Cons.prems(4,5)] Cons.prems(3)
      run_step_stop [OF stop Cons.prems(6)] show ?thesis by auto
  next
    case (next_step vars1 result1 defers1 w1)
    from run_step_turns [OF assms(1) next_step(1) Cons.prems(2) _ Cons.prems(4,5)] Cons.prems(3) obtain n1 where
      n1: "turns UNIV (?mo n w) (?mo n1 w1)" "rn_phase n1 = Working" "rn_steps n1 = map tc_Receivers steps"
        "rn_runID n1 = runID" "settled n1" "rn_defers n1 = defers1" by auto
    from run_step_extends [OF next_step(1) Cons.prems(6)] have p: "tr_Status result1 = StatusPassed" by simp
    from Cons.IH [OF next_step(2)[folded n1(6)] n1(2-5) p] n1(1) show ?thesis by (blast intro: turns_trans)
  qed
qed

lemma release_turns:
  assumes "or_store orc = memory_port cod get put" and "stored_in get put" and "\<forall>s x. others (put s x) = others x"
    and "rn_phase n = Releasing (reserved @ todo)"
  shows "\<exists>n'. turns UNIV (machine_of get others i n w) (machine_of get others i n' (releaseRecipients orc reserved w))
     \<and> rn_phase n' = Releasing todo \<and> rn_runID n' = rn_runID n \<and> rn_steps n' = rn_steps n \<and> (settled n \<longrightarrow> settled n')"
  using assms(4)
proof (induction reserved arbitrary: n w)
  case Nil
  then show ?case by (intro exI [of _ n]) (simp add: releaseRecipients_def)
next
  case (Cons rcfg reserved)
  let ?n = "n\<lparr>rn_phase := Releasing (reserved @ todo), rn_held := filter (\<lambda>(k, e). k \<noteq> slot_of rcfg) (rn_held n)\<rparr>"
  let ?w = "snd (st_Release (or_store orc) (rc_Type rcfg) (rc_Recipient rcfg) w)"
  have w: "clock ?w = clock w" "get (outside ?w) = mem_Release (rc_Type rcfg) (rc_Recipient rcfg) (get (outside w))"
    "others (outside ?w) = others (outside w)"
    using assms(2,3) by (simp_all add: assms(1) memory_port_def stored_in_def)
  have "turns UNIV (machine_of get others i n w) (machine_of get others i ?n ?w)"
    by (rule own_turn, unfold machine_of_def, rule turn.release [where R = mem_reservations and rs = "(others (outside w))(i := n)" and i = i, simplified])
      (use Cons.prems w in simp_all)
  moreover have "settled n \<longrightarrow> settled ?n"
    using Cons.prems by (auto simp: settled_def owed_def)
  moreover have "releaseRecipients orc (rcfg # reserved) w = releaseRecipients orc reserved ?w"
    by (simp add: releaseRecipients_def)
  ultimately show ?case
    using Cons.IH [of ?n ?w] by (auto intro: turns_trans)
qed

lemma releases_turns:
  assumes "taking_turns orc cod get put others i" and "rn_phase n = Releasing (concat defers)"
  shows "\<exists>n'. turns UNIV (machine_of get others i n w) (machine_of get others i n' (fold (releaseRecipients orc) defers w))
     \<and> rn_phase n' = Returned \<and> rn_runID n' = rn_runID n \<and> rn_steps n' = rn_steps n \<and> (settled n \<longrightarrow> settled n')"
  using assms(2)
proof (induction defers arbitrary: n w)
  case Nil
  let ?n = "n\<lparr>rn_phase := Returned\<rparr>"
  have "turns UNIV (machine_of get others i n w) (machine_of get others i ?n w)"
    by (rule own_turn, unfold machine_of_def, rule turn.returned [where R = mem_reservations and rs = "(others (outside w))(i := n)" and i = i, simplified])
      (use Nil in simp_all)
  with Nil show ?case by (intro exI [of _ ?n]) (auto simp: settled_def owed_def)
next
  case (Cons reserved defers)
  from release_turns [OF taking_turns_steps(5-7) [OF assms(1)], of n reserved "concat defers" i w] Cons.prems obtain n1 where
    n1: "turns UNIV (machine_of get others i n w) (machine_of get others i n1 (releaseRecipients orc reserved w))"
      "rn_phase n1 = Releasing (concat defers)" "rn_runID n1 = rn_runID n" "rn_steps n1 = rn_steps n" "settled n \<longrightarrow> settled n1"
    by auto
  from Cons.IH [OF n1(2), of "releaseRecipients orc reserved w"] n1 show ?case by (auto intro: turns_trans)
qed



text \<open>A run that holds one recipient, on any store that grants it.\<close>

lemma one_holds:
  assumes "rs_reserve R ''api'' ''a'' ''r'' 0 0 s = (True, s')" and "0 < rs_until R 0 0"
  shows "\<exists>rs. reachable R timely (0, s', rs) \<and> (rs_slot R ''api'' ''a'', rs_until R 0 0) \<in> set (rn_held (rs 0)) \<and> rn_runID (rs 0) = ''r''"
proof -
  let ?c = "state_receiver\<lparr>rc_Recipient := ''a''\<rparr>" and ?def = "example_definition [mail_step]"
  let ?rs = "\<lambda>i. new_thread ''r'' ?def" and ?e = "rs_until R 0 0"
  have c: "map tc_Receivers (td_Triggers ?def) = [?c] # []" "rc_Recipient ?c \<noteq> []" "wanted R ?c = rs_slot R ''api'' ''a''"
    by (simp_all add: example_definition_def mail_step_def recipient_step_def wanted_def state_receiver_def)
  have r: "rs_reserve R (rc_Type ?c) (rc_Recipient ?c) ''r'' 0 0 s = (True, s')"
    using assms(1) by (simp add: state_receiver_def)
  have "reachable R timely (0, s, ?rs)" by (rule reach_start) (auto simp: starting_def)
  from reach_reserve [OF this refl c(1,2) r] assms(2)
  have "reachable R timely (0, s', ?rs(0 := \<lparr>rn_runID = ''r'', rn_steps = [], rn_phase = Reserving [] [?c], rn_defers = [],
      rn_held = [(wanted R ?c, ?e)]\<rparr>))" by (simp add: timely_def new_thread_def)
  with c(3) show ?thesis by (intro exI conjI) (assumption, simp_all)
qed


end
