(* ===== verification/Postgres_Store.thy ===== *)
theory Postgres_Store
  imports Interleaving
begin

section \<open>The Postgres store: \<open>internal/adapters/secondary/store/postgres.go\<close>\<close>

text \<open>
  The store keeps two tables; its SQL statements are operations on them. A table is a map from its
  primary key, which the schema makes unique, to the other columns. The server is a parameter: \<open>pg_jsonb\<close> is the text that a
  \<open>JSONB\<close> column gives back for a text that is stored in it (or the error, if it refuses the text), and
  \<open>pg_timestamptz\<close> is a point in time as a \<open>TIMESTAMPTZ\<close> column keeps it.

  A statement can fail for reasons outside of the program (a lost connection); it changes nothing then.
  \<open>pe_fault\<close> is the error text for each statement that fails during an operation, \<open>pe_now\<close> is what \<open>now()\<close>
  is for it on the server, and \<open>pe_clock\<close> is \<open>time.Now()\<close> in the program.
\<close>

subsection \<open>Tables and statements\<close>

record pg_message =
  pm_payload :: string
  pm_expires_at :: int

record pg_reservation =
  pr_run_id :: string
  pr_expires_at :: int

record PostgresDB =
  e2e_messages :: "string \<times> string \<rightharpoonup> pg_message"
  e2e_reservations :: "string \<times> string \<rightharpoonup> pg_reservation"

record pg_server =
  pg_jsonb :: "string \<Rightarrow> string + string"
  pg_timestamptz :: "int \<Rightarrow> int"

datatype pg_statement =
    PurgeMessagesSQL | PurgeReservationsSQL | DepositSQL | ClaimSQL | ReserveSQL
  | SelectReservationSQL | ReleaseSQL | DeleteMessageSQL

record pg_env =
  pe_fault :: "pg_statement \<Rightarrow> string option"
  pe_now :: "pg_statement \<Rightarrow> int"
  pe_clock :: int

text \<open>The statements, as the server runs them. The number of rows that the two purges and the insertion
  into \<open>e2e_reservations\<close> affect is used by the program.\<close>

definition delete_where :: "('r \<Rightarrow> bool) \<Rightarrow> ('k \<rightharpoonup> 'r) \<Rightarrow> 'k \<rightharpoonup> 'r" where
  "delete_where P t = (\<lambda>k. case t k of None \<Rightarrow> None | Some row \<Rightarrow> if P row then None else Some row)"

definition purgeMessagesSQL :: "int \<Rightarrow> PostgresDB \<Rightarrow> PostgresDB" where
  "purgeMessagesSQL now db = db\<lparr>e2e_messages := delete_where (\<lambda>row. pm_expires_at row \<le> now) (e2e_messages db)\<rparr>"

definition purgeReservationsSQL :: "int \<Rightarrow> PostgresDB \<Rightarrow> PostgresDB" where
  "purgeReservationsSQL now db =
     db\<lparr>e2e_reservations := delete_where (\<lambda>row. pr_expires_at row \<le> now) (e2e_reservations db)\<rparr>"

text \<open>\<open>INSERT ... ON CONFLICT DO UPDATE\<close> replaces the row of the key.\<close>

definition depositSQL :: "pg_server \<Rightarrow> string \<Rightarrow> string \<Rightarrow> string \<Rightarrow> int \<Rightarrow> PostgresDB \<Rightarrow> string option \<times> PostgresDB" where
  "depositSQL pg runID receiverType data expiresAt db =
     (case pg_jsonb pg data of
        Inl err \<Rightarrow> (Some err, db)
      | Inr payload \<Rightarrow>
          (None, db\<lparr>e2e_messages := (e2e_messages db)((runID, receiverType) \<mapsto>
             \<lparr>pm_payload = payload, pm_expires_at = pg_timestamptz pg expiresAt\<rparr>)\<rparr>))"

definition claimSQL :: "string \<Rightarrow> string \<Rightarrow> int \<Rightarrow> PostgresDB \<Rightarrow> string option" where
  "claimSQL runID receiverType now db =
     (case e2e_messages db (runID, receiverType) of
        None \<Rightarrow> None
      | Some row \<Rightarrow> if now < pm_expires_at row then Some (pm_payload row) else None)"

text \<open>\<open>INSERT ... ON CONFLICT DO NOTHING\<close>, with the number of rows it inserts.\<close>

definition reserveSQL :: "pg_server \<Rightarrow> string \<Rightarrow> string \<Rightarrow> string \<Rightarrow> int \<Rightarrow> PostgresDB \<Rightarrow> nat \<times> PostgresDB" where
  "reserveSQL pg channel recipient runID expiresAt db =
     (case e2e_reservations db (channel, recipient) of
        Some _ \<Rightarrow> (0, db)
      | None \<Rightarrow>
          (1, db\<lparr>e2e_reservations := (e2e_reservations db)((channel, recipient) \<mapsto>
             \<lparr>pr_run_id = runID, pr_expires_at = pg_timestamptz pg expiresAt\<rparr>)\<rparr>))"

definition selectReservationSQL :: "string \<Rightarrow> string \<Rightarrow> PostgresDB \<Rightarrow> string option" where
  "selectReservationSQL channel recipient db =
     map_option pr_run_id (e2e_reservations db (channel, recipient))"

definition releaseSQL :: "string \<Rightarrow> string \<Rightarrow> PostgresDB \<Rightarrow> PostgresDB" where
  "releaseSQL channel recipient db =
     db\<lparr>e2e_reservations := (e2e_reservations db)((channel, recipient) := None)\<rparr>"

definition deleteMessageSQL :: "string \<Rightarrow> string \<Rightarrow> PostgresDB \<Rightarrow> PostgresDB" where
  "deleteMessageSQL runID receiverType db =
     db\<lparr>e2e_messages := (e2e_messages db)((runID, receiverType) := None)\<rparr>"

subsection \<open>The operations\<close>

text \<open>Everyone ignores the error of a purge; the second statement is not tried after the first fails.\<close>

definition purgeExpired :: "pg_env \<Rightarrow> PostgresDB \<Rightarrow> string option \<times> PostgresDB" where
  "purgeExpired pe db =
     (case pe_fault pe PurgeMessagesSQL of
        Some err \<Rightarrow> (Some err, db)
      | None \<Rightarrow>
          (let db = purgeMessagesSQL (pe_now pe PurgeMessagesSQL) db in
           case pe_fault pe PurgeReservationsSQL of
             Some err \<Rightarrow> (Some err, db)
           | None \<Rightarrow> (None, purgeReservationsSQL (pe_now pe PurgeReservationsSQL) db)))"

definition pg_Deposit ::
  "codec \<Rightarrow> pg_server \<Rightarrow> int \<Rightarrow> Message \<Rightarrow> pg_env \<Rightarrow> PostgresDB \<Rightarrow> gerror option \<times> PostgresDB" where
  "pg_Deposit cod pg ttl msg pe db =
     (case marshal_message cod msg of
        Inl err \<Rightarrow> (Some (errorf ErrInternal (''failed to serialize message: '' @ err)), db)
      | Inr data \<Rightarrow>
          (let db = snd (purgeExpired pe db);
               (err, db) = (case pe_fault pe DepositSQL of
                  Some x \<Rightarrow> (Some x, db)
                | None \<Rightarrow> depositSQL pg (m_RunID msg) (m_ReceiverType msg) data (pe_clock pe + ttl) db)
           in (map_option (\<lambda>x. errorf ErrInternal (''failed to deposit message: '' @ x)) err, db)))"

definition pg_Claim ::
  "codec \<Rightarrow> string \<Rightarrow> string \<Rightarrow> pg_env \<Rightarrow> PostgresDB \<Rightarrow> (gerror + Message option) \<times> PostgresDB" where
  "pg_Claim cod runID receiverType pe db =
     (let db = snd (purgeExpired pe db) in
      (case pe_fault pe ClaimSQL of
         Some err \<Rightarrow> Inl (errorf ErrInternal (''failed to claim message: '' @ err))
       | None \<Rightarrow>
           (case claimSQL runID receiverType (pe_now pe ClaimSQL) db of
              None \<Rightarrow> Inr None
            | Some data \<Rightarrow>
                (case unmarshal_message cod data of
                   Inl err \<Rightarrow> Inl (errorf ErrInternal (''failed to deserialize message: '' @ err))
                 | Inr msg \<Rightarrow> Inr (Some msg))), db))"

definition pg_Reserve ::
  "pg_server \<Rightarrow> string \<Rightarrow> string \<Rightarrow> string \<Rightarrow> pg_env \<Rightarrow> PostgresDB \<Rightarrow> gerror option \<times> PostgresDB" where
  "pg_Reserve pg channel recipient runID pe db =
     (let db = snd (purgeExpired pe db) in
      case pe_fault pe ReserveSQL of
        Some err \<Rightarrow>
          (Some (errorf ErrInternal (''failed to reserve '' @ channel @ '':'' @ recipient @ '': '' @ err)), db)
      | None \<Rightarrow>
          (let (rows, db) = reserveSQL pg channel recipient runID (pe_clock pe + reservationTTL) db in
           if rows = 0
           then (let existing = (if pe_fault pe SelectReservationSQL \<noteq> None then []
                                 else case selectReservationSQL channel recipient db of None \<Rightarrow> [] | Some r \<Rightarrow> r)
                 in (Some (errorf ErrInternal (''recipient '' @ channel @ '':'' @ recipient
                       @ '' already reserved by run '' @ existing)), db))
           else (None, db)))"

definition pg_Release :: "string \<Rightarrow> string \<Rightarrow> pg_env \<Rightarrow> PostgresDB \<Rightarrow> gerror option \<times> PostgresDB" where
  "pg_Release channel recipient pe db =
     (case pe_fault pe ReleaseSQL of
        Some err \<Rightarrow>
          (Some (errorf ErrInternal (''failed to release '' @ channel @ '':'' @ recipient @ '': '' @ err)), db)
      | None \<Rightarrow> (None, releaseSQL channel recipient db))"

definition pg_Delete :: "string \<Rightarrow> string \<Rightarrow> pg_env \<Rightarrow> PostgresDB \<Rightarrow> gerror option \<times> PostgresDB" where
  "pg_Delete runID receiverType pe db =
     (case pe_fault pe DeleteMessageSQL of
        Some err \<Rightarrow> (Some (errorf ErrInternal (''failed to delete message: '' @ err)), db)
      | None \<Rightarrow> (None, deleteMessageSQL runID receiverType db))"

text \<open>Closing the pool leaves the tables as they are.\<close>

definition pg_Close :: "PostgresDB \<Rightarrow> gerror option \<times> PostgresDB" where
  "pg_Close db = (None, db)"

text \<open>The store creates its tables when it starts; \<open>connect\<close> and \<open>schema\<close> are the outcomes of opening the
  pool and of the statement.\<close>

definition NewPostgresStore :: "string \<Rightarrow> string option \<Rightarrow> string option \<Rightarrow> PostgresDB \<Rightarrow> gerror + PostgresDB" where
  "NewPostgresStore dsn connect schema db =
     (if dsn = [] then Inl (errorf ErrConfiguration ''postgres mode requires a dsn'')
      else case connect of
        Some err \<Rightarrow> Inl (errorf ErrInternal (''failed to connect to postgres store: '' @ err))
      | None \<Rightarrow>
          (case schema of
             Some err \<Rightarrow> Inl (errorf ErrInternal (''failed to init postgres schema: '' @ err))
           | None \<Rightarrow> Inr db))"

text \<open>The store as a port: \<open>get\<close> and \<open>put\<close> say where the database lives, and \<open>env\<close> how an operation
  finds the server and the clocks.\<close>

definition postgres_port ::
  "codec \<Rightarrow> pg_server \<Rightarrow> int \<Rightarrow> ('x \<Rightarrow> PostgresDB) \<Rightarrow> (PostgresDB \<Rightarrow> 'x \<Rightarrow> 'x) \<Rightarrow> ('x world \<Rightarrow> pg_env \<times> 'x world)
    \<Rightarrow> 'x Store" where
  "postgres_port cod pg ttl get put env =
     (let run = (\<lambda>op w. let (pe, w) = env w; (r, db) = op pe (get (outside w)) in (r, w\<lparr>outside := put db (outside w)\<rparr>)) in
      \<lparr>st_Deposit = (\<lambda>msg. run (pg_Deposit cod pg ttl msg)),
       st_Claim = (\<lambda>runID receiverType w. let (pe, w) = env w; (r, db) = pg_Claim cod runID receiverType pe (get (outside w))
         in (r, w\<lparr>outside := put db (outside w)\<rparr>)),
       st_Reserve = (\<lambda>channel recipient runID. run (pg_Reserve pg channel recipient runID)),
       st_Release = (\<lambda>channel recipient. run (pg_Release channel recipient)),
       st_Delete = (\<lambda>runID receiverType. run (pg_Delete runID receiverType)),
       st_Close = run (\<lambda>pe. pg_Close)\<rparr>)"

definition empty_db :: PostgresDB where "empty_db = \<lparr>e2e_messages = Map.empty, e2e_reservations = Map.empty\<rparr>"

subsection \<open>The contracts of the stores\<close>

text \<open>An operation that no fault disturbs, with one reading of the server's clock for all of its
  statements.\<close>

definition steady :: "int \<Rightarrow> int \<Rightarrow> pg_env" where
  "steady now clk = \<lparr>pe_fault = (\<lambda>_. None), pe_now = (\<lambda>_. now), pe_clock = clk\<rparr>"

lemma steady_simps [simp]:
  "pe_fault (steady now clk) st = None" "pe_now (steady now clk) st = now" "pe_clock (steady now clk) = clk"
  by (simp_all add: steady_def)

lemma purgeExpired_steady [simp]:
  "snd (purgeExpired (steady now clk) db) = purgeReservationsSQL now (purgeMessagesSQL now db)"
  by (simp add: purgeExpired_def Let_def)

lemmas pg_tables = purgeReservationsSQL_def purgeMessagesSQL_def delete_where_def depositSQL_def claimSQL_def
  reserveSQL_def releaseSQL_def deleteMessageSQL_def selectReservationSQL_def

lemmas pg_defs = pg_Deposit_def pg_Claim_def pg_Reserve_def pg_Release_def pg_Delete_def

text \<open>What comes back for a message, and the slots and lifetimes of the store.\<close>

definition pg_stored :: "codec \<Rightarrow> pg_server \<Rightarrow> Message \<Rightarrow> (gerror + Message option) option" where
  "pg_stored cod pg msg =
     (case marshal_message cod msg of
        Inl _ \<Rightarrow> None
      | Inr data \<Rightarrow>
          (case pg_jsonb pg data of
             Inl _ \<Rightarrow> None
           | Inr payload \<Rightarrow>
               Some (case unmarshal_message cod payload of
                  Inl err \<Rightarrow> Inl (errorf ErrInternal (''failed to deserialize message: '' @ err))
                | Inr m \<Rightarrow> Inr (Some m))))"

definition pg_claim_at :: "codec \<Rightarrow> string \<Rightarrow> string \<Rightarrow> int \<Rightarrow> PostgresDB \<Rightarrow> gerror + Message option" where
  "pg_claim_at cod runID receiverType now db = fst (pg_Claim cod runID receiverType (steady now now) db)"

lemma pg_claim_at:
  "pg_claim_at cod runID receiverType now db =
     (case e2e_messages db (runID, receiverType) of
        None \<Rightarrow> Inr None
      | Some row \<Rightarrow>
          if now < pm_expires_at row
          then (case unmarshal_message cod (pm_payload row) of
                  Inl err \<Rightarrow> Inl (errorf ErrInternal (''failed to deserialize message: '' @ err))
                | Inr msg \<Rightarrow> Inr (Some msg))
          else Inr None)"
  by (auto simp: pg_claim_at_def pg_Claim_def pg_tables Let_def split: option.splits sum.splits)

text \<open>The claim does not depend on its purge: that may fail, or run earlier, since the query looks at the
  expiry again.\<close>

lemma pg_Claim_any_purge:
  assumes "pe_fault pe ClaimSQL = None" and "pe_now pe PurgeMessagesSQL \<le> pe_now pe ClaimSQL"
  shows "fst (pg_Claim cod runID receiverType pe db) = pg_claim_at cod runID receiverType (pe_now pe ClaimSQL) db"
  using assms
  by (auto simp: pg_claim_at pg_Claim_def purgeExpired_def pg_tables Let_def split: option.splits sum.splits)

lemma pg_Deposit_steady:
  "e2e_messages (snd (pg_Deposit cod pg ttl msg (steady now now) db)) =
     (case marshal_message cod msg of
        Inl err \<Rightarrow> e2e_messages db
      | Inr data \<Rightarrow>
          (let t = delete_where (\<lambda>row. pm_expires_at row \<le> now) (e2e_messages db) in
           case pg_jsonb pg data of
             Inl err \<Rightarrow> t
           | Inr payload \<Rightarrow> t((m_RunID msg, m_ReceiverType msg) \<mapsto>
               \<lparr>pm_payload = payload, pm_expires_at = pg_timestamptz pg (now + ttl)\<rparr>)))"
  by (auto simp: pg_Deposit_def purgeMessagesSQL_def purgeReservationsSQL_def depositSQL_def Let_def split_beta split: sum.splits)

text \<open>The state of the contract is a database with the time to live of the store.\<close>

interpretation pgm: message_store
    "\<lambda>m now s. (fst s, snd (pg_Deposit cod pg (fst s) m (steady now now) (snd s)))"
    "\<lambda>r t now s. pg_claim_at cod r t now (snd s)"
    "\<lambda>r t s. (fst s, snd (pg_Delete r t (steady 0 0) (snd s)))"
    fst "pg_stored cod pg" Pair "\<lambda>expiry now. now < pg_timestamptz pg expiry" for cod pg
proof unfold_locales
  fix m :: Message and out r t and now now' :: int and s :: "int \<times> PostgresDB"
  assume "pg_stored cod pg m = Some out" and "(m_RunID m, m_ReceiverType m) = (r, t)" and "now \<le> now'"
  then show "pg_claim_at cod r t now' (snd (fst s, snd (pg_Deposit cod pg (fst s) m (steady now now) (snd s)))) =
      (if now' < pg_timestamptz pg (now + fst s) then out else Inr None)"
    by (auto simp: pg_claim_at pg_Deposit_steady pg_stored_def Let_def split: sum.splits)
next
  fix m :: Message and r t and now now' :: int and s :: "int \<times> PostgresDB"
  assume "(m_RunID m, m_ReceiverType m) \<noteq> (r, t)" and "now \<le> now'"
  then show "pg_claim_at cod r t now' (snd (fst s, snd (pg_Deposit cod pg (fst s) m (steady now now) (snd s)))) =
      pg_claim_at cod r t now' (snd s)"
    by (cases "e2e_messages (snd s) (r, t)")
      (auto simp: pg_claim_at pg_Deposit_steady delete_where_def Let_def split: sum.splits)
next
  fix m :: Message and r t and now now' :: int and s :: "int \<times> PostgresDB"
  assume "pg_stored cod pg m = None" and "now \<le> now'"
  then show "pg_claim_at cod r t now' (snd (fst s, snd (pg_Deposit cod pg (fst s) m (steady now now) (snd s)))) =
      pg_claim_at cod r t now' (snd s)"
    by (cases "e2e_messages (snd s) (r, t)")
      (auto simp: pg_claim_at pg_Deposit_steady pg_stored_def delete_where_def Let_def split: sum.splits)
qed (auto simp: pg_claim_at pg_Delete_def deleteMessageSQL_def)

definition pg_holder :: "string \<Rightarrow> string \<Rightarrow> int \<Rightarrow> PostgresDB \<Rightarrow> string option" where
  "pg_holder channel recipient now db =
     (case e2e_reservations db (channel, recipient) of
        None \<Rightarrow> None
      | Some row \<Rightarrow> if now < pr_expires_at row then Some (pr_run_id row) else None)"

definition pg_try_reserve ::
  "pg_server \<Rightarrow> string \<Rightarrow> string \<Rightarrow> string \<Rightarrow> int \<Rightarrow> int \<Rightarrow> PostgresDB \<Rightarrow> bool \<times> PostgresDB" where
  "pg_try_reserve pg channel recipient runID now clk db =
     (let (err, db) = pg_Reserve pg channel recipient runID (steady now clk) db in (err = None, db))"

lemma pg_Reserve_steady:
  "pg_try_reserve pg channel recipient runID now clk db =
     (let t = delete_where (\<lambda>row. pr_expires_at row \<le> now) (e2e_reservations db); db = purgeReservationsSQL now (purgeMessagesSQL now db) in
      case t (channel, recipient) of
        Some row \<Rightarrow> (False, db)
      | None \<Rightarrow> (True, db\<lparr>e2e_reservations := t((channel, recipient) \<mapsto>
          \<lparr>pr_run_id = runID, pr_expires_at = pg_timestamptz pg (clk + reservationTTL)\<rparr>)\<rparr>))"
  by (simp add: pg_try_reserve_def pg_Reserve_def reserveSQL_def purgeReservationsSQL_def purgeMessagesSQL_def Let_def
      split: option.splits)

interpretation pgr: reservation_store "pg_try_reserve pg"
    "\<lambda>c r s. snd (pg_Release c r (steady 0 0) s)" pg_holder Pair "\<lambda>_ t. pg_timestamptz pg (t + reservationTTL)" for pg
  by unfold_locales
    (auto simp: pg_Reserve_steady pg_holder_def delete_where_def purgeReservationsSQL_def purgeMessagesSQL_def
      pg_Release_def releaseSQL_def Let_def split: option.splits if_splits)

lemma pg_Reserve_error: "fst (pg_Reserve pg channel recipient runID pe db) = Some err \<Longrightarrow> errors_Is err ErrInternal"
  by (auto simp: pg_Reserve_def split_beta Let_def split: if_splits option.splits)

text \<open>
  Several instances of the service can share one database. What takes its turn then is a statement, not a call: the
  insertion reserves, and between it and the purge in front of it anyone may come. The insertion refuses a row that has
  expired and was not purged, so it keeps the exclusive half of the contract only.
\<close>

definition pg_insert :: "pg_server \<Rightarrow> string \<Rightarrow> string \<Rightarrow> string \<Rightarrow> int \<Rightarrow> int \<Rightarrow> PostgresDB \<Rightarrow> bool \<times> PostgresDB" where
  "pg_insert pg channel recipient runID now clk db =
     (let (rows, db) = reserveSQL pg channel recipient runID (clk + reservationTTL) db in (rows \<noteq> 0, db))"

definition pg_statements :: "pg_server \<Rightarrow> (PostgresDB, string \<times> string) reservations" where
  "pg_statements pg =
     \<lparr>rs_reserve = pg_insert pg, rs_release = releaseSQL, rs_holder = pg_holder, rs_slot = Pair,
      rs_until = (\<lambda>_ t. pg_timestamptz pg (t + reservationTTL))\<rparr>"

interpretation pg_runs: shared_store "pg_statements pg" for pg
  unfolding shared_store_def
  by unfold_locales
    (auto simp: pg_statements_def pg_insert_def reserveSQL_def releaseSQL_def pg_holder_def
      split: option.splits if_splits)

text \<open>The other statements are turns that leave the reservations as they are, and a call that nobody interrupts is
  the purge and the insertion.\<close>

lemma pg_message_turns:
  "same_holders (pg_statements pg) now db (purgeMessagesSQL t db)"
  "same_holders (pg_statements pg) now db (purgeReservationsSQL now db)"
  "same_holders (pg_statements pg) now db (snd (depositSQL pg runID receiverType data expiresAt db))"
  "same_holders (pg_statements pg) now db (deleteMessageSQL runID receiverType db)"
  by (auto simp: same_holders_def pg_statements_def pg_holder_def pg_tables split: option.splits sum.splits)

lemma pg_Reserve_statements:
  "pg_try_reserve pg channel recipient runID now clk db =
     pg_insert pg channel recipient runID now clk (purgeReservationsSQL now (purgeMessagesSQL now db))"
  by (simp add: pg_Reserve_steady pg_insert_def reserveSQL_def purgeReservationsSQL_def purgeMessagesSQL_def Let_def
      split: option.splits)

subsection \<open>Histories\<close>

text \<open>A sequence of operations that no fault disturbs, with the clocks of the program and of the server in
  step.\<close>

fun pg_step :: "codec \<Rightarrow> pg_server \<Rightarrow> int \<Rightarrow> message_op \<Rightarrow> PostgresDB \<Rightarrow> PostgresDB" where
  "pg_step cod pg ttl (DepositOp m now) db = snd (pg_Deposit cod pg ttl m (steady now now) db)"
| "pg_step cod pg ttl (DeleteOp r t) db = snd (pg_Delete r t (steady 0 0) db)"

fun pg_res_step :: "pg_server \<Rightarrow> reservation_op \<Rightarrow> PostgresDB \<Rightarrow> PostgresDB" where
  "pg_res_step pg (ReserveOp c r run now now') db = snd (pg_Reserve pg c r run (steady now now') db)"
| "pg_res_step pg (ReleaseOp c r) db = snd (pg_Release c r (steady 0 0) db)"

lemma pg_steps_exec: "fold (pgm.exec cod pg) ops (ttl, db) = (ttl, fold (pg_step cod pg ttl) ops db)"
proof (induction ops arbitrary: db)
  case (Cons p ops)
  then show ?case by (cases p) simp_all
qed simp

lemma pg_res_step_exec: "pg_res_step pg = pgr.exec pg"
  by (intro ext, rename_tac p s) (case_tac p; simp add: pg_try_reserve_def split_beta Let_def)

text \<open>The last operation on the slot.\<close>

fun pg_touches :: "codec \<Rightarrow> pg_server \<Rightarrow> string \<times> string \<Rightarrow> message_op \<Rightarrow> bool" where
  "pg_touches cod pg k (DepositOp m now) \<longleftrightarrow> pg_stored cod pg m \<noteq> None \<and> (m_RunID m, m_ReceiverType m) = k"
| "pg_touches cod pg k (DeleteOp r t) \<longleftrightarrow> (r, t) = k"

definition pg_last_claim ::
  "codec \<Rightarrow> pg_server \<Rightarrow> int \<Rightarrow> string \<Rightarrow> string \<Rightarrow> int \<Rightarrow> message_op list \<Rightarrow> gerror + Message option" where
  "pg_last_claim cod pg ttl runID receiverType now ops =
     (case List.find (pg_touches cod pg (runID, receiverType)) (rev ops) of
        Some (DepositOp m t0) \<Rightarrow> if now < pg_timestamptz pg (t0 + ttl) then the (pg_stored cod pg m) else Inr None
      | _ \<Rightarrow> Inr None)"

lemma pg_abs_claim_last:
  "pgm.abs_claim pg r t now (fold (pgm.abs_exec cod pg ttl) ops Map.empty) = pg_last_claim cod pg ttl r t now ops"
proof (induction ops rule: rev_induct)
  case Nil
  then show ?case by (simp add: pgm.abs_claim_def pg_last_claim_def)
next
  case (snoc p ops)
  then show ?case
    by (cases p) (auto simp: pgm.abs_claim_def pg_last_claim_def split: option.splits)
qed

subsection \<open>Properties\<close>

text \<open>C20 (postgres_claim_last): the Postgres store refines the same contract as the memory store: after any
  history of deposits and deletions, with their purges, a claim returns what the last operation on its slot
  says, whether its own purge succeeds or not. Its slots are exact pairs, and a message expires at the very
  instant of its expiry.\<close>

theorem postgres_claim_last:
  assumes "\<forall>p \<in> set ops. \<forall>t. op_time p = Some t \<longrightarrow> t \<le> pe_now pe ClaimSQL"
    and "pe_fault pe ClaimSQL = None" and "pe_now pe PurgeMessagesSQL \<le> pe_now pe ClaimSQL"
  shows "fst (pg_Claim cod runID receiverType pe (fold (pg_step cod pg ttl) ops empty_db)) =
     pg_last_claim cod pg ttl runID receiverType (pe_now pe ClaimSQL) ops"
proof -
  define now where "now = pe_now pe ClaimSQL"
  have "pgm.at_most now p" if "p \<in> set ops" for p
    using assms(1) that by (cases p) (auto simp: now_def)
  moreover have "pg_claim_at cod r t now (snd (ttl, empty_db)) = pgm.abs_claim pg r t now Map.empty" for r t
    by (simp add: pg_claim_at empty_db_def pgm.abs_claim_def)
  ultimately show ?thesis
    using pgm.claim_refines [where cod = cod and pg = pg and now = now and s = "(ttl, empty_db)" and a = Map.empty
        and ops = ops and r = runID and t = receiverType]
    by (simp add: pg_steps_exec pg_abs_claim_last pg_Claim_any_purge [OF assms(2,3)] now_def)
qed

text \<open>A server whose purges fail.\<close>

definition no_purge :: "int \<Rightarrow> pg_env" where
  "no_purge now =
     \<lparr>pe_fault = (\<lambda>s. if s = PurgeMessagesSQL then Some ''canceling statement'' else None), pe_now = (\<lambda>_. now),
      pe_clock = now\<rparr>"

definition plain_server :: pg_server where
  "plain_server = \<lparr>pg_jsonb = Inr, pg_timestamptz = (\<lambda>t. t div 1000 * 1000)\<rparr>"

theorem postgres_claim_last_witness:
  "fst (pg_Claim example_codec ''r'' ''webhook'' (steady 5999 5999)
     (fold (pg_step example_codec plain_server 5000) [DepositOp (example_message ''r'') 1500] empty_db)) =
     Inr (Some (example_message ''r''))
   \<and> fst (pg_Claim example_codec ''r'' ''webhook'' (no_purge 6000)
     (fold (pg_step example_codec plain_server 5000) [DepositOp (example_message ''r'') 1500] empty_db)) = Inr None"
  using postgres_claim_last [of "[DepositOp (example_message ''r'') 1500]" "steady 5999 5999" example_codec
      "''r''" "''webhook''" plain_server 5000]
    postgres_claim_last [of "[DepositOp (example_message ''r'') 1500]" "no_purge 6000" example_codec
      "''r''" "''webhook''" plain_server 5000]
  by (simp add: pg_last_claim_def pg_stored_def plain_server_def example_codec_def example_message_def no_purge_def
      del: pg_step.simps)

text \<open>A recipient that a run has reserved in Postgres cannot be reserved
  again, by anyone, before it is released or its reservation expires, whatever is reserved and purged
  meanwhile.\<close>

theorem postgres_reservation_exclusive:
  assumes "pg_Reserve pg channel recipient runID (steady now clk) db = (None, db')"
    and "\<forall>p \<in> set ops. (case p of
        ReleaseOp c r \<Rightarrow> (c, r) \<noteq> (channel, recipient)
      | ReserveOp c r run t t' \<Rightarrow> t < pg_timestamptz pg (clk + reservationTTL))"
    and "t < pg_timestamptz pg (clk + reservationTTL)"
  shows "\<exists>err. fst (pg_Reserve pg channel recipient other (steady t t') (fold (pg_res_step pg) ops db')) = Some err
     \<and> errors_Is err ErrInternal"
proof -
  have ok: "pg_try_reserve pg channel recipient runID now clk db = (True, db')"
    using assms(1) by (simp add: pg_try_reserve_def)
  have ops: "\<forall>p \<in> set ops. \<not> pgr.releases (channel, recipient) p \<and> pgr.before_op (pg_timestamptz pg (clk + reservationTTL)) p"
  proof
    fix p assume "p \<in> set ops"
    with assms(2) show "\<not> pgr.releases (channel, recipient) p \<and> pgr.before_op (pg_timestamptz pg (clk + reservationTTL)) p"
      by (cases p) fastforce+
  qed
  let ?db = "fold (pg_res_step pg) ops db'"
  have "\<not> fst (pg_try_reserve pg channel recipient other t t' ?db)"
    using pgr.exclusive [OF ok ops refl assms(3), of other t'] by (simp add: pg_res_step_exec)
  then obtain err where "fst (pg_Reserve pg channel recipient other (steady t t') ?db) = Some err"
    by (auto simp: pg_try_reserve_def split_beta Let_def)
  with pg_Reserve_error [of pg channel recipient other "steady t t'" ?db] show ?thesis by simp
qed

theorem postgres_reservation_exclusive_witness:
  "\<exists>err. fst (pg_Reserve plain_server ''imap'' ''a@b'' ''r2'' (steady 7 8)
     (snd (pg_Reserve plain_server ''imap'' ''a@b'' ''r1'' (steady 1 2) empty_db))) = Some err \<and> errors_Is err ErrInternal"
proof -
  have "pg_Reserve plain_server ''imap'' ''a@b'' ''r1'' (steady 1 2) empty_db =
      (None, snd (pg_Reserve plain_server ''imap'' ''a@b'' ''r1'' (steady 1 2) empty_db))"
    by (simp add: pg_Reserve_def pg_tables empty_db_def)
  from postgres_reservation_exclusive [OF this, of "[]" 7 "''r2''" 8] show ?thesis
    by (simp add: reservationTTL_def plain_server_def)
qed

text \<open>The purge is what makes room for a new reservation, and its errors are
  dropped: as long as it fails, a recipient whose reservation has expired stays reserved, however long ago that
  was, although nothing else is wrong with the database.\<close>

theorem failed_purge_keeps_reservation:
  assumes "e2e_reservations db (channel, recipient) = Some row" and "pe_fault pe PurgeReservationsSQL = Some x"
  shows "\<exists>err db'. pg_Reserve pg channel recipient runID pe db = (Some err, db') \<and> errors_Is err ErrInternal
     \<and> e2e_reservations db' = e2e_reservations db"
  using assms
  by (cases "pe_fault pe PurgeMessagesSQL"; cases "pe_fault pe ReserveSQL")
    (auto simp: pg_Reserve_def purgeExpired_def purgeMessagesSQL_def reserveSQL_def Let_def)

theorem failed_purge_keeps_reservation_witness:
  "\<exists>err db'. pg_Reserve plain_server ''imap'' ''a@b'' ''r2''
       \<lparr>pe_fault = (\<lambda>st. if st = PurgeReservationsSQL then Some ''lock timeout'' else None), pe_now = (\<lambda>_. 10 ^ 20), pe_clock = 10 ^ 20\<rparr>
       (snd (pg_Reserve plain_server ''imap'' ''a@b'' ''r1'' (steady 1 2) empty_db)) = (Some err, db')"
proof -
  let ?pe = "\<lparr>pe_fault = (\<lambda>st. if st = PurgeReservationsSQL then Some ''lock timeout'' else None),
       pe_now = (\<lambda>_. 10 ^ 20), pe_clock = 10 ^ 20\<rparr>"
  obtain row where r: "e2e_reservations (snd (pg_Reserve plain_server ''imap'' ''a@b'' ''r1'' (steady 1 2) empty_db)) (''imap'', ''a@b'') = Some row"
    by (simp add: pg_Reserve_def pg_tables empty_db_def)
  have "pe_fault ?pe PurgeReservationsSQL = Some ''lock timeout''" by simp
  from failed_purge_keeps_reservation [OF r this, of plain_server "''r2''"] show ?thesis by (elim exE conjE) (intro exI)
qed

end
