(* ===== verification/Api_Server.thy ===== *)
theory Api_Server
  imports Orchestrator
begin

section \<open>The HTTP API: \<open>internal/adapters/primary/api\<close>\<close>

text \<open>
  The handlers of the API as functions on the state of the server: the tests, the cache of
  results with the order of their insertion, and the asynchronous runs whose result has not
  arrived yet, as the test and the run id each. A request is what the handlers read of it; the response is the status with
  the text of \<open>http.Error\<close> or the value given to \<open>respondJSON\<close>. The mux has chosen the
  route. \<open>storeResult\<close> holds the lock for its whole body, so it is one step.
\<close>

subsection \<open>Groups of tests\<close>

record TestGroup =
  tg_Tests :: "string list"
  tg_TestDelay :: int
  tg_SkipFailTest :: bool

definition GroupResolver_Resolve :: "(string, TestGroup) gomap \<Rightarrow> string \<Rightarrow> TestGroup option" where
  "GroupResolver_Resolve groups name =
     (case map_of groups name of
        None \<Rightarrow> None
      | Some grp \<Rightarrow>
          Some \<lparr>tg_Tests = tg_Tests grp, tg_TestDelay = tg_TestDelay grp, tg_SkipFailTest = tg_SkipFailTest grp\<rparr>)"

subsection \<open>The server and its requests\<close>

record ApiServer =
  as_AuthEnable :: bool
  as_JWTSecret :: string
  as_Resolver :: "(string, TestGroup) gomap option"
  as_tests :: "(string, TestDefinition) gomap"
  as_results :: "(string, TestResult) gomap"
  as_resultOrder :: "string list"
  as_waiting :: "(TestDefinition \<times> string) list"

definition NewServer ::
  "bool \<Rightarrow> string \<Rightarrow> (string, TestGroup) gomap option \<Rightarrow> (string, TestDefinition) gomap \<Rightarrow> ApiServer" where
  "NewServer authEnable secret resolver tests =
     \<lparr>as_AuthEnable = authEnable, as_JWTSecret = secret, as_Resolver = resolver, as_tests = tests,
      as_results = [], as_resultOrder = [], as_waiting = []\<rparr>"

text \<open>\<open>aq_Query\<close> is \<open>r.URL.Query().Get\<close>, \<open>aq_Body\<close> the outcome of \<open>io.ReadAll(r.Body)\<close>.\<close>

record ApiRequest =
  aq_Method :: string
  aq_Path :: string
  aq_Query :: "string \<Rightarrow> string"
  aq_Authorization :: string
  aq_Body :: "string + string"

datatype ApiResponse =
    HttpError int string
  | JsonMap int "(string \<times> string) list"
  | JsonResult int TestResult
  | JsonResults int "TestResult option list"

fun response_status :: "ApiResponse \<Rightarrow> int" where
  "response_status (HttpError code msg) = code"
| "response_status (JsonMap code m) = code"
| "response_status (JsonResult code r) = code"
| "response_status (JsonResults code rs) = code"

subsection \<open>The cache of results\<close>

definition maxStoredResults :: nat where "maxStoredResults = 100"

definition storeResult :: "TestResult \<Rightarrow> ApiServer \<Rightarrow> ApiServer" where
  "storeResult res s =
     (let order = (if map_of (as_results s) (tr_RunID res) = None
                   then as_resultOrder s @ [tr_RunID res] else as_resultOrder s);
          results = AList.update (tr_RunID res) res (as_results s) in
      if maxStoredResults < length order
      then s\<lparr>as_resultOrder := tl order, as_results := AList.delete (hd order) results\<rparr>
      else s\<lparr>as_resultOrder := order, as_results := results\<rparr>)"

subsection \<open>The handlers\<close>

type_synonym ('x, 'a) handled = "('a \<times> ApiServer \<times> notification list \<times> 'x world) option"

definition MethodPost :: string where "MethodPost = ''POST''"

definition sent :: "notification option \<Rightarrow> notification list" where
  "sent n = (case n of None \<Rightarrow> [] | Some x \<Rightarrow> [x])"

definition running_result :: "TestDefinition \<Rightarrow> string \<Rightarrow> int \<Rightarrow> TestResult" where
  "running_result def runID now =
     \<lparr>tr_TestID = td_ID def, tr_RunID = runID, tr_Status = StatusRunning, tr_Attempts = 0, tr_DurationMs = 0,
      tr_Receivers = [], tr_Error = [], tr_StartedAt = now, tr_FinishedAt = zero_time, tr_TriggerVars = []\<rparr>"

text \<open>An asynchronous run gets its id at once; the run itself and the goroutine that stores its result
  are a later step, \<open>deliver\<close>. The context has no deadline (\<open>context.WithoutCancel\<close>).\<close>

definition handleRun ::
  "('i, 'x) Orchestrator \<Rightarrow> ApiRequest \<Rightarrow> ApiServer \<Rightarrow> 'x world \<Rightarrow> ('x, ApiResponse) handled" where
  "handleRun orc r s w =
     (if aq_Method r \<noteq> MethodPost then Some (HttpError 405 ''method not allowed'', s, [], w)
      else let tid = aq_Query r ''id'' in
        case map_of (as_tests s) tid of
          None \<Rightarrow> Some (HttpError 404 (''test '' @ Quote tid @ '' not found''), s, [], w)
        | Some def \<Rightarrow>
            if td_Async def then
              (let (runID, w) = RunTest_id def w;
                   (now, w) = time_Now w;
                   s = storeResult (running_result def runID now) s
               in Some (JsonMap 202 [(''run_id'', runID), (''status'', status_text StatusRunning)],
                        s\<lparr>as_waiting := as_waiting s @ [(def, runID)]\<rparr>, [], w))
            else do {
              (runID, result, nt, w) \<leftarrow> RunTest orc None def w;
              Some (JsonResult 200 result, storeResult result s, sent nt, w)
            })"

text \<open>One of the asynchronous runs takes place and its result is stored. A run does not touch the
  server, so it can be taken to happen at the moment its result arrives.\<close>

definition deliver ::
  "('i, 'x) Orchestrator \<Rightarrow> nat \<Rightarrow> ApiServer \<Rightarrow> 'x world \<Rightarrow> (ApiServer \<times> notification list \<times> 'x world) option" where
  "deliver orc i s w =
     (if i < length (as_waiting s)
      then do {
        let (def, runID) = as_waiting s ! i;
        (result, nt, w) \<leftarrow> execute orc None def runID w;
        Some (storeResult result (s\<lparr>as_waiting := take i (as_waiting s) @ drop (Suc i) (as_waiting s)\<rparr>), sent nt, w)
      }
      else Some (s, [], w))"

definition handleResultByID :: "ApiRequest \<Rightarrow> ApiServer \<Rightarrow> ApiResponse" where
  "handleResultByID r s =
     (let runID = TrimPrefix (aq_Path r) ''/results/'' in
      if runID = [] then HttpError 400 ''run_id required''
      else case map_of (as_results s) runID of
        None \<Rightarrow> HttpError 404 (''run '' @ Quote runID @ '' not found'')
      | Some result \<Rightarrow> JsonResult 200 result)"

definition handleResults :: "ApiServer \<Rightarrow> ApiResponse" where
  "handleResults s = JsonResults 200 (map (map_of (as_results s)) (as_resultOrder s))"

definition handleHealth :: ApiResponse where
  "handleHealth = JsonMap 200 [(''status'', ''ok'')]"

text \<open>The tests of a sequence: an error response, or the group if one is named and the ids.\<close>

definition sequence_rules ::
  "lib \<Rightarrow> ApiRequest \<Rightarrow> ApiServer \<Rightarrow> ApiResponse + TestGroup option \<times> string list" where
  "sequence_rules L r s = do {
     let groupName = aq_Query r ''test_group'';
     let not_found = HttpError 404 (''test group '' @ Quote groupName @ '' not found'');
     let named = (if groupName = [] then Inr None
       else case as_Resolver s of
         None \<Rightarrow> Inl not_found
       | Some groups \<Rightarrow>
           (case GroupResolver_Resolve groups groupName of
              None \<Rightarrow> Inl not_found
            | Some g \<Rightarrow> Inr (Some g)));
     case named of
       Inl resp \<Rightarrow> Inl resp
     | Inr grp \<Rightarrow>
         (let rules = (case grp of None \<Rightarrow> [] | Some g \<Rightarrow> tg_Tests g) in
          case aq_Body r of
            Inl err \<Rightarrow> Inl (HttpError 400 ''invalid request body'')
          | Inr body \<Rightarrow>
              if TrimSpace body = [] then Inr (grp, rules)
              else if grp \<noteq> None
              then Inl (HttpError 400 ''test_group and body test list are mutually exclusive'')
              else case lib_unmarshal_strings L (TrimSpace body) of
                Inl err \<Rightarrow> Inl (HttpError 400 ''invalid request body'')
              | Inr ids \<Rightarrow> Inr (grp, ids))
   }"

text \<open>The delay and the flag: the query wins over the group.\<close>

definition sequence_config :: "lib \<Rightarrow> ApiRequest \<Rightarrow> TestGroup option \<Rightarrow> ApiResponse + SequenceConfig" where
  "sequence_config L r grp =
     (let rawDelay = aq_Query r ''test_delay''; rawSkip = aq_Query r ''skip_fail_test'' in
      case (if rawDelay = [] then Inr None
            else case lib_duration L rawDelay of
              Inl err \<Rightarrow> Inl (HttpError 400 (''invalid test_delay: '' @ err))
            | Inr d \<Rightarrow> Inr (Some d)) of
        Inl resp \<Rightarrow> Inl resp
      | Inr delay \<Rightarrow>
          Inr \<lparr>sq_Delay = (case delay of Some d \<Rightarrow> d
                 | None \<Rightarrow> (case grp of Some g \<Rightarrow> tg_TestDelay g | None \<Rightarrow> 0)),
               sq_SkipFailTest =
                 (if rawSkip \<noteq> [] then rawSkip = ''true''
                  else case grp of Some g \<Rightarrow> tg_SkipFailTest g | None \<Rightarrow> False)\<rparr>)"

fun lookup_tests :: "(string, TestDefinition) gomap \<Rightarrow> string list \<Rightarrow> string + TestDefinition list" where
  "lookup_tests tests [] = Inr []"
| "lookup_tests tests (tid # ids) =
     (case map_of tests tid of
        None \<Rightarrow> Inl tid
      | Some def \<Rightarrow> (case lookup_tests tests ids of Inl x \<Rightarrow> Inl x | Inr defs \<Rightarrow> Inr (def # defs)))"

definition handleRunSequence ::
  "('i, 'x) Orchestrator \<Rightarrow> ApiRequest \<Rightarrow> ApiServer \<Rightarrow> 'x world \<Rightarrow> ('x, ApiResponse) handled" where
  "handleRunSequence orc r s w =
     (if aq_Method r \<noteq> MethodPost then Some (HttpError 405 ''method not allowed'', s, [], w)
      else case sequence_rules (or_lib orc) r s of
        Inl resp \<Rightarrow> Some (resp, s, [], w)
      | Inr (grp, rules) \<Rightarrow>
          if rules = [] then Some (HttpError 400 ''rules must not be empty'', s, [], w)
          else case sequence_config (or_lib orc) r grp of
            Inl resp \<Rightarrow> Some (resp, s, [], w)
          | Inr cfg \<Rightarrow>
              (case lookup_tests (as_tests s) rules of
                 Inl tid \<Rightarrow> Some (HttpError 404 (''test '' @ Quote tid @ '' not found''), s, [], w)
               | Inr defs \<Rightarrow> do {
                   (results, nts, w) \<leftarrow> RunSequence orc None defs cfg w;
                   Some (JsonResults 200 (map Some results), fold storeResult results s, nts, w)
                 }))"

subsection \<open>Routes and authorisation\<close>

datatype route = HealthRoute | RunRoute | RunSequenceRoute | ResultsRoute | ResultByIDRoute

definition authorized :: "ApiServer \<Rightarrow> ApiRequest \<Rightarrow> bool" where
  "authorized s r \<longleftrightarrow> \<not> as_AuthEnable s \<or> TrimPrefix (aq_Authorization r) ''Bearer '' \<noteq> []"

definition authMiddleware ::
  "(ApiRequest \<Rightarrow> ApiServer \<Rightarrow> 'x world \<Rightarrow> ('x, ApiResponse) handled)
    \<Rightarrow> ApiRequest \<Rightarrow> ApiServer \<Rightarrow> 'x world \<Rightarrow> ('x, ApiResponse) handled" where
  "authMiddleware next_handler r s w =
     (if authorized s r then next_handler r s w else Some (HttpError 401 ''unauthorized'', s, [], w))"

definition serve ::
  "('i, 'x) Orchestrator \<Rightarrow> route \<Rightarrow> ApiRequest \<Rightarrow> ApiServer \<Rightarrow> 'x world \<Rightarrow> ('x, ApiResponse) handled" where
  "serve orc rt =
     (case rt of
        HealthRoute \<Rightarrow> (\<lambda>r s w. Some (handleHealth, s, [], w))
      | RunRoute \<Rightarrow> authMiddleware (handleRun orc)
      | RunSequenceRoute \<Rightarrow> authMiddleware (handleRunSequence orc)
      | ResultsRoute \<Rightarrow> authMiddleware (\<lambda>r s w. Some (handleResults s, s, [], w))
      | ResultByIDRoute \<Rightarrow> authMiddleware (\<lambda>r s w. Some (handleResultByID r s, s, [], w)))"

subsection \<open>The cache\<close>

text \<open>The invariant of the cache: the order lists the keys of the map once each, there are at most
  a hundred, and every result is filed under its own run id.\<close>

definition cache_ok :: "ApiServer \<Rightarrow> bool" where
  "cache_ok s \<longleftrightarrow>
     distinct (as_resultOrder s) \<and> length (as_resultOrder s) \<le> maxStoredResults
     \<and> set (as_resultOrder s) = dom (map_of (as_results s))
     \<and> (\<forall>k r. map_of (as_results s) k = Some r \<longrightarrow> tr_RunID r = k)"

lemma cache_ok_NewServer: "cache_ok (NewServer auth secret resolver tests)"
  by (simp add: cache_ok_def NewServer_def)

lemma cache_ok_waiting [simp]: "cache_ok (s\<lparr>as_waiting := x\<rparr>) = cache_ok s"
  by (simp add: cache_ok_def)

lemma cache_ok_storeResult:
  assumes "cache_ok s"
  shows "cache_ok (storeResult res s)"
proof -
  let ?id = "tr_RunID res"
  let ?order = "if map_of (as_results s) ?id = None then as_resultOrder s @ [?id] else as_resultOrder s"
  have o: "distinct ?order" "set ?order = insert ?id (dom (map_of (as_results s)))"
    "length ?order \<le> Suc maxStoredResults"
    using assms by (auto simp: cache_ok_def)
  show ?thesis
  proof (cases "maxStoredResults < length ?order")
    case False
    with o assms show ?thesis by (auto simp: cache_ok_def storeResult_def Let_def)
  next
    case True
    then obtain k ks where ks: "?order = k # ks" by (cases ?order) auto
    with o have k: "k \<notin> set ks" "distinct ks" "insert k (set ks) = insert ?id (dom (map_of (as_results s)))"
      "length ks \<le> maxStoredResults" by simp_all
    have "storeResult res s = s\<lparr>as_resultOrder := ks,
        as_results := AList.delete k (AList.update ?id res (as_results s))\<rparr>"
      using True ks by (simp add: storeResult_def Let_def)
    moreover have "dom ((map_of (as_results s))(?id \<mapsto> res, k := None)) = set ks"
      using k by auto
    ultimately show ?thesis
      using k assms by (auto simp: cache_ok_def)
  qed
qed

lemma cache_ok_store_all: "cache_ok s \<Longrightarrow> cache_ok (fold storeResult results s)"
  by (induction results arbitrary: s) (simp_all add: cache_ok_storeResult)

lemma cache_ok_deliver: "deliver orc i s w = Some (s', ns, w') \<Longrightarrow> cache_ok s \<Longrightarrow> cache_ok s'"
  by (auto simp: deliver_def split_beta cache_ok_storeResult split: if_splits Option.bind_split_asm)

lemma serve_cases:
  assumes "serve orc rt r s w = Some (resp, s', ns, w')"
  obtains (unchanged) "s' = s"
  | (stored) result where "s' = storeResult result s"
  | (started) running run where "s' = (storeResult running s)\<lparr>as_waiting := as_waiting s @ [run]\<rparr>"
  | (sequence) results where "s' = fold storeResult results s"
proof (cases rt)
  case HealthRoute
  with assms unchanged show thesis by (simp add: serve_def)
next
  case RunRoute
  show thesis
  proof (cases "authorized s r \<and> aq_Method r = MethodPost")
    case False
    with assms RunRoute unchanged show thesis
      by (auto simp: serve_def authMiddleware_def handleRun_def split: if_splits)
  next
    case True
    show thesis
    proof (cases "map_of (as_tests s) (aq_Query r ''id'')")
      case None
      with assms RunRoute True unchanged show thesis by (simp add: serve_def authMiddleware_def handleRun_def)
    next
      case (Some def)
      show thesis
      proof (cases "td_Async def")
        case async: True
        have "as_waiting (storeResult x s) = as_waiting s" for x by (simp add: storeResult_def Let_def)
        with assms RunRoute True Some async started show thesis
          by (auto simp: serve_def authMiddleware_def handleRun_def split_beta Let_def)
      next
        case sync: False
        with assms RunRoute True Some obtain runID result nt w1 where "RunTest orc None def w = Some (runID, result, nt, w1)"
          by (cases "RunTest orc None def w") (auto simp: serve_def authMiddleware_def handleRun_def)
        with assms RunRoute True Some sync stored show thesis
          by (auto simp: serve_def authMiddleware_def handleRun_def)
      qed
    qed
  qed
next
  case RunSequenceRoute
  with assms unchanged sequence show thesis
    by (auto simp: serve_def authMiddleware_def handleRunSequence_def
        split: if_splits sum.splits prod.splits Option.bind_split_asm)
next
  case ResultsRoute
  with assms unchanged show thesis by (auto simp: serve_def authMiddleware_def split: if_splits)
next
  case ResultByIDRoute
  with assms unchanged show thesis by (auto simp: serve_def authMiddleware_def split: if_splits)
qed

text \<open>The server under any history: requests on any route, results that arrive, and whatever happens
  in the world meanwhile.\<close>

inductive api_step :: "('i, 'x) Orchestrator \<Rightarrow> ApiServer \<times> 'x world \<Rightarrow> ApiServer \<times> 'x world \<Rightarrow> bool"
  for orc where
  request: "serve orc rt r s w = Some (resp, s', ns, w') \<Longrightarrow> api_step orc (s, w) (s', w')"
| delivery: "deliver orc i s w = Some (s', ns, w') \<Longrightarrow> api_step orc (s, w) (s', w')"
| elsewhere: "api_step orc (s, w) (s, w')"

inductive_cases api_stepE: "api_step orc (s, w) (s', w')"

inductive api_reachable :: "('i, 'x) Orchestrator \<Rightarrow> ApiServer \<Rightarrow> ApiServer \<times> 'x world \<Rightarrow> bool"
  for orc s0 where
  start: "api_reachable orc s0 (s0, w)"
| step: "api_reachable orc s0 sw \<Longrightarrow> api_step orc sw sw' \<Longrightarrow> api_reachable orc s0 sw'"

lemma api_step_cache: "api_step orc (s, w) (s', w') \<Longrightarrow> cache_ok s \<Longrightarrow> cache_ok s'"
  by (erule api_stepE)
    (auto elim!: serve_cases simp: cache_ok_storeResult cache_ok_store_all cache_ok_deliver)

lemma api_reachable_cache:
  assumes "api_reachable orc s0 sw" and "cache_ok s0"
  shows "cache_ok (fst sw)"
  using assms
proof (induction rule: api_reachable.induct)
  case (start w)
  then show ?case by simp
next
  case (step sw sw')
  then show ?case by (cases sw; cases sw') (auto dest: api_step_cache)
qed

text \<open>Storing results with new ids keeps the last hundred.\<close>

lemma storeResult_new:
  assumes "cache_ok s" and "tr_RunID res \<notin> set (as_resultOrder s)"
  shows "as_resultOrder (storeResult res s) =
      drop (Suc (length (as_resultOrder s)) - maxStoredResults) (as_resultOrder s @ [tr_RunID res])"
    and "map (map_of (as_results (storeResult res s))) (as_resultOrder (storeResult res s)) =
      drop (Suc (length (as_resultOrder s)) - maxStoredResults)
        (map (map_of (as_results s)) (as_resultOrder s) @ [Some res])"
proof -
  let ?id = "tr_RunID res" and ?order = "as_resultOrder s"
  have new: "map_of (as_results s) ?id = None" using assms by (auto simp: cache_ok_def)
  have m: "maxStoredResults = 100" by (simp add: maxStoredResults_def)
  have upd: "map ((map_of (as_results s))(?id \<mapsto> res)) ?order = map (map_of (as_results s)) ?order"
    using assms(2) by auto
  show "as_resultOrder (storeResult res s) = drop (Suc (length ?order) - maxStoredResults) (?order @ [?id])"
    and "map (map_of (as_results (storeResult res s))) (as_resultOrder (storeResult res s)) =
      drop (Suc (length ?order) - maxStoredResults) (map (map_of (as_results s)) ?order @ [Some res])"
  proof (atomize (full), cases "maxStoredResults < Suc (length ?order)")
    case False
    then show "as_resultOrder (storeResult res s) = drop (Suc (length ?order) - maxStoredResults) (?order @ [?id])
      \<and> map (map_of (as_results (storeResult res s))) (as_resultOrder (storeResult res s)) =
        drop (Suc (length ?order) - maxStoredResults) (map (map_of (as_results s)) ?order @ [Some res])"
      using new upd by (simp add: storeResult_def Let_def)
  next
    case True
    then have l: "length ?order = maxStoredResults" using assms(1) by (simp add: cache_ok_def)
    then obtain k ks where ks: "?order = k # ks" using m by (cases ?order) auto
    with assms have k: "k \<notin> set ks" "k \<noteq> ?id" by (auto simp: cache_ok_def)
    have "map ((map_of (as_results s))(?id \<mapsto> res, k := None)) ks = map (map_of (as_results s)) ks"
      using k assms(2) ks by auto
    with True l ks k new upd show "as_resultOrder (storeResult res s) = drop (Suc (length ?order) - maxStoredResults) (?order @ [?id])
      \<and> map (map_of (as_results (storeResult res s))) (as_resultOrder (storeResult res s)) =
        drop (Suc (length ?order) - maxStoredResults) (map (map_of (as_results s)) ?order @ [Some res])"
      by (simp add: storeResult_def Let_def)
  qed
qed

lemma store_all_new:
  assumes "cache_ok s" and "distinct (map tr_RunID results)"
    and "set (map tr_RunID results) \<inter> set (as_resultOrder s) = {}"
  shows "map (map_of (as_results (fold storeResult results s))) (as_resultOrder (fold storeResult results s)) =
     drop (length (as_resultOrder s) + length results - maxStoredResults)
       (map (map_of (as_results s)) (as_resultOrder s) @ map Some results)"
  using assms
proof (induction results arbitrary: s)
  case Nil
  then show ?case by (simp add: cache_ok_def)
next
  case (Cons res results)
  let ?s = "storeResult res s" and ?n = "length (as_resultOrder s)"
  have new: "tr_RunID res \<notin> set (as_resultOrder s)" using Cons.prems(3) by auto
  note st = storeResult_new [OF Cons.prems(1) new]
  have "set (as_resultOrder ?s) \<subseteq> insert (tr_RunID res) (set (as_resultOrder s))"
    unfolding st(1) using set_drop_subset by fastforce
  moreover have "set (map tr_RunID results) \<inter> insert (tr_RunID res) (set (as_resultOrder s)) = {}"
    using Cons.prems(2,3) by auto
  ultimately have disj: "set (map tr_RunID results) \<inter> set (as_resultOrder ?s) = {}" by blast
  have len: "length (as_resultOrder ?s) = Suc ?n - (Suc ?n - maxStoredResults)"
    unfolding st(1) by simp
  have n: "?n \<le> maxStoredResults" using Cons.prems(1) by (simp add: cache_ok_def)
  from Cons.IH [OF cache_ok_storeResult [OF Cons.prems(1)] _ disj] Cons.prems(2)
  have "map (map_of (as_results (fold storeResult results ?s))) (as_resultOrder (fold storeResult results ?s)) =
     drop (length (as_resultOrder ?s) + length results - maxStoredResults)
       (drop (Suc ?n - maxStoredResults) (map (map_of (as_results s)) (as_resultOrder s) @ [Some res]) @ map Some results)"
    unfolding st(2) by simp
  also have "\<dots> = drop (?n + length (res # results) - maxStoredResults)
       (map (map_of (as_results s)) (as_resultOrder s) @ map Some (res # results))"
    using n by (cases "?n = maxStoredResults") (simp_all add: len maxStoredResults_def)
  finally show ?case by simp
qed


lemma storeResult_lookup:
  assumes "cache_ok s"
  shows "map_of (as_results (storeResult res s)) (tr_RunID res) = Some res"
proof (cases "map_of (as_results s) (tr_RunID res) = None")
  case True
  then have nin: "tr_RunID res \<notin> set (as_resultOrder s)" using assms by (auto simp: cache_ok_def)
  show ?thesis
  proof (cases "as_resultOrder s")
    case Nil
    with True show ?thesis by (simp add: storeResult_def maxStoredResults_def Let_def)
  next
    case (Cons k ks)
    with True nin show ?thesis by (simp add: storeResult_def Let_def)
  qed
next
  case False
  with assms show ?thesis by (auto simp: storeResult_def cache_ok_def Let_def)
qed

lemma storeResult_waiting [simp]: "as_waiting (storeResult res s) = as_waiting s"
  by (simp add: storeResult_def Let_def)

lemma RunTest_status:
  assumes "RunTest orc ctx def w = Some (runID, result, nt, w')"
  shows "tr_TestID result = td_ID def" and "tr_RunID result = runID" and "tr_Status result \<noteq> StatusRunning"
proof -
  from assms obtain w1 where "execute orc ctx def runID w1 = Some (result, nt, w')"
    by (auto simp: RunTest_def split_beta Let_def split: Option.bind_split_asm)
  from execute_status [OF this] show "tr_TestID result = td_ID def" and "tr_RunID result = runID"
    and "tr_Status result \<noteq> StatusRunning" by blast+
qed

lemma deliver_result:
  assumes "deliver orc i s w = Some (s', ns, w')" and "cache_ok s"
    and "i < length (as_waiting s)" and "as_waiting s ! i = (def, runID)"
  shows "\<exists>result. map_of (as_results s') runID = Some result \<and> tr_TestID result = td_ID def
     \<and> tr_Status result \<noteq> StatusRunning"
proof -
  let ?s = "s\<lparr>as_waiting := take i (as_waiting s) @ drop (Suc i) (as_waiting s)\<rparr>"
  from assms(1,3,4) obtain result nt where run: "execute orc None def runID w = Some (result, nt, w')"
    and s': "s' = storeResult result ?s"
    by (auto simp: deliver_def split: Option.bind_split_asm)
  have "cache_ok ?s" using assms(2) by simp
  from storeResult_lookup [OF this, of result] execute_status [OF run] s' show ?thesis by auto
qed

lemma handleRunSequence_cases:
  assumes "handleRunSequence orc r s w = Some (resp, s', ns, w')"
  obtains (refused) code msg where "resp = HttpError code msg" "code \<in> {400, 404, 405}" "s' = s" "w' = w" "ns = []"
  | (accepted) grp rules cfg defs results where "sequence_rules (or_lib orc) r s = Inr (grp, rules)" "rules \<noteq> []"
    "sequence_config (or_lib orc) r grp = Inr cfg" "lookup_tests (as_tests s) rules = Inr defs"
    "RunSequence orc None defs cfg w = Some (results, ns, w')"
    "resp = JsonResults 200 (map Some results)" "s' = fold storeResult results s"
proof (cases "aq_Method r = MethodPost")
  case False
  with assms refused show thesis by (auto simp: handleRunSequence_def)
next
  case post: True
  show thesis
  proof (cases "sequence_rules (or_lib orc) r s")
    case (Inl e)
    then have "\<exists>code msg. e = HttpError code msg \<and> code \<in> {400, 404, 405}"
      by (auto simp: sequence_rules_def Let_def split: if_splits option.splits sum.splits)
    with assms post Inl refused show thesis by (auto simp: handleRunSequence_def)
  next
    case (Inr gr)
    obtain grp rules where gr: "gr = (grp, rules)" by (cases gr)
    show thesis
    proof (cases "rules = []")
      case True
      with assms post Inr gr refused show thesis by (auto simp: handleRunSequence_def)
    next
      case ne: False
      show thesis
      proof (cases "sequence_config (or_lib orc) r grp")
        case (Inl e)
        then have "\<exists>code msg. e = HttpError code msg \<and> code \<in> {400, 404, 405}"
          by (auto simp: sequence_config_def Let_def split: if_splits option.splits sum.splits)
        with assms post Inr gr ne Inl refused show thesis by (auto simp: handleRunSequence_def)
      next
        case cfg: (Inr cfg)
        show thesis
        proof (cases "lookup_tests (as_tests s) rules")
          case (Inl e)
          with assms post Inr gr ne cfg refused show thesis by (auto simp: handleRunSequence_def)
        next
          case defs: (Inr defs)
          with assms post Inr gr ne cfg accepted show thesis
            by (cases "RunSequence orc None defs cfg w") (auto simp: handleRunSequence_def)
        qed
      qed
    qed
  qed
qed

text \<open>A server with one test, and a request to run it.\<close>

definition example_server :: ApiServer where
  "example_server = NewServer False [] None [(''t'', example_definition [example_step])]"

definition example_request :: ApiRequest where
  "example_request = \<lparr>aq_Method = ''POST'', aq_Path = ''/run'', aq_Query = (\<lambda>_. ''t''), aq_Authorization = [], aq_Body = Inr []\<rparr>"

lemma example_run_request:
  "\<exists>resp s' ns w'. handleRun failing_orchestrator example_request example_server world0 = Some (resp, s', ns, w')
     \<and> length (as_resultOrder s') = 1"
  by (simp add: handleRun_def example_server_def example_request_def NewServer_def MethodPost_def RunTest_def
    execute_def executeSequential_def storeResult_def maxStoredResults_def
    example_definition_def failing_orchestrator_def example_orchestrator_def
    run_step_def TriggerRegistry_Create_def EffectiveType_def example_step_def reserveRecipients_def
    stepMaxAttempts_def eval_nat_numeral failing_trigger_def split_beta Let_def)

subsection \<open>Properties\<close>

text \<open>C23 (api_cache_invariant): whatever requests the server gets and whenever the results of
  asynchronous runs arrive, the cache holds at most a hundred results, each under its own run id, and
  the list of results has no gaps: it lists each of them once.\<close>

theorem api_cache_invariant:
  assumes "api_reachable orc (NewServer auth secret resolver tests) (s, w)"
  shows "length (as_resultOrder s) \<le> 100 \<and> distinct (as_resultOrder s)
     \<and> (\<forall>k r. map_of (as_results s) k = Some r \<longrightarrow> tr_RunID r = k)
     \<and> (\<exists>rs. handleResults s = JsonResults 200 (map Some rs) \<and> map tr_RunID rs = as_resultOrder s
          \<and> set rs = ran (map_of (as_results s)))"
proof -
  from api_reachable_cache [OF assms cache_ok_NewServer] have ok: "cache_ok s" by simp
  let ?rs = "map (\<lambda>k. the (map_of (as_results s) k)) (as_resultOrder s)"
  have some: "map_of (as_results s) k = Some (the (map_of (as_results s) k))"
      "tr_RunID (the (map_of (as_results s) k)) = k" if "k \<in> set (as_resultOrder s)" for k
    using ok that by (auto simp: cache_ok_def dom_def)
  then have "map (map_of (as_results s)) (as_resultOrder s) = map Some ?rs" "map tr_RunID ?rs = as_resultOrder s"
    by (auto intro!: map_idI)
  moreover have "set ?rs = ran (map_of (as_results s))"
    using ok some by (force simp: cache_ok_def ran_def dom_def image_iff)
  ultimately have "\<exists>rs. handleResults s = JsonResults 200 (map Some rs) \<and> map tr_RunID rs = as_resultOrder s
      \<and> set rs = ran (map_of (as_results s))"
    unfolding handleResults_def by (intro exI [of _ ?rs]) simp
  then show ?thesis
    using ok by (simp add: cache_ok_def maxStoredResults_def)
qed

theorem api_cache_invariant_witness:
  "\<exists>s result. handleResults s = JsonResults 200 [Some result] \<and> length (as_resultOrder s) \<le> 100
     \<and> as_resultOrder s = [tr_RunID result]"
proof -
  from example_run_request obtain resp s ns w where h: "handleRun failing_orchestrator example_request example_server world0 = Some (resp, s, ns, w)"
    and o: "length (as_resultOrder s) = 1" by blast
  have "serve failing_orchestrator RunRoute example_request example_server world0 = Some (resp, s, ns, w)"
    using h by (simp add: serve_def authMiddleware_def authorized_def example_server_def NewServer_def)
  from api_reachable.step [OF api_reachable.start api_step.request [OF this]]
  have "api_reachable failing_orchestrator (NewServer False [] None [(''t'', example_definition [example_step])]) (s, w)"
    by (simp add: example_server_def)
  from api_cache_invariant [OF this] obtain rs where rs: "handleResults s = JsonResults 200 (map Some rs)"
    "map tr_RunID rs = as_resultOrder s" by blast
  with o obtain result where "rs = [result]" by (metis (no_types, lifting) length_Suc_conv length_0_conv length_map One_nat_def)
  with rs o show ?thesis by (intro exI [of _ s] exI [of _ result]) auto
qed

text \<open>After any number of results with different run ids, the
  endpoint lists the last hundred of them, the oldest first.\<close>

theorem results_are_the_last_hundred:
  assumes "distinct (map tr_RunID results)"
  shows "handleResults (fold storeResult results (NewServer auth secret resolver tests)) =
     JsonResults 200 (map Some (drop (length results - 100) results))"
proof -
  have "as_resultOrder (NewServer auth secret resolver tests) = []" by (simp add: NewServer_def)
  with store_all_new [OF cache_ok_NewServer assms, of auth secret resolver tests]
  show ?thesis by (simp add: handleResults_def maxStoredResults_def drop_map)
qed

theorem results_are_the_last_hundred_witness:
  "handleResults (fold storeResult (map (\<lambda>i. initial_result (example_definition []) (FormatInt (int i)) 0) [0..<250])
       (NewServer False [] None [])) =
     JsonResults 200 (map Some (map (\<lambda>i. initial_result (example_definition []) (FormatInt (int i)) 0) [150..<250]))"
proof -
  let ?rs = "map (\<lambda>i. initial_result (example_definition []) (FormatInt (int i)) 0) [0..<250]"
  have d: "distinct (map tr_RunID ?rs)" by (simp add: comp_def distinct_map inj_on_def)
  have l: "drop (length ?rs - 100) ?rs = map (\<lambda>i. initial_result (example_definition []) (FormatInt (int i)) 0) [150..<250]"
    by (simp only: length_map length_upt drop_map drop_upt) simp
  show ?thesis using results_are_the_last_hundred [OF d, of False "[]" None "[]"] unfolding l .
qed

text \<open>With authorisation on, every route but the health check refuses
  a request whose \<open>Authorization\<close> header has no token, and does nothing else; any token at all is
  accepted, whatever the secret.\<close>

theorem auth_checks_presence_only:
  "(as_AuthEnable s \<and> rt \<noteq> HealthRoute \<and> aq_Authorization r \<in> {[], ''Bearer ''} \<longrightarrow>
      serve orc rt r s w = Some (HttpError 401 ''unauthorized'', s, [], w))
   \<and> (\<forall>token secret. token \<noteq> [] \<longrightarrow>
      (let r = r\<lparr>aq_Authorization := ''Bearer '' @ token\<rparr>; s = s\<lparr>as_JWTSecret := secret\<rparr> in
         serve orc RunRoute r s w = handleRun orc r s w
       \<and> serve orc RunSequenceRoute r s w = handleRunSequence orc r s w
       \<and> serve orc ResultsRoute r s w = Some (handleResults s, s, [], w)
       \<and> serve orc ResultByIDRoute r s w = Some (handleResultByID r s, s, [], w)))"
proof -
  have t: "TrimPrefix [] ''Bearer '' = []" "TrimPrefix ''Bearer '' ''Bearer '' = []" by (simp_all add: TrimPrefix_def)
  have "TrimPrefix (''Bearer '' @ token) ''Bearer '' = token" for token
    unfolding TrimPrefix_def strip_prefix_append by simp
  with t show ?thesis
    by (cases rt) (auto simp: serve_def authMiddleware_def authorized_def Let_def simp del: append.simps)
qed

theorem auth_checks_presence_only_witness:
  "serve failing_orchestrator RunRoute
       \<lparr>aq_Method = ''POST'', aq_Path = ''/run'', aq_Query = (\<lambda>_. ''t''), aq_Authorization = ''Bearer '', aq_Body = Inr []\<rparr>
       (NewServer True ''k'' None []) world0 =
     Some (HttpError 401 ''unauthorized'', NewServer True ''k'' None [], [], world0)"
  using auth_checks_presence_only [of "NewServer True ''k'' None []" RunRoute
      "\<lparr>aq_Method = ''POST'', aq_Path = ''/run'', aq_Query = (\<lambda>_. ''t''), aq_Authorization = ''Bearer '', aq_Body = Inr []\<rparr>"
      failing_orchestrator world0]
  by (simp add: NewServer_def)

text \<open>C24 (run_endpoint): a run request is refused without any effect unless it is a POST that names a
  known test. A synchronous test answers with the result of the run, which is in the cache from then
  on; an asynchronous one answers with its run id, can be looked up as running at once, and has its
  final status under the same id once the run has delivered it.\<close>

theorem run_endpoint:
  assumes "handleRun orc r s w = Some (resp, s', ns, w')" and "cache_ok s"
  shows "(aq_Method r \<noteq> MethodPost \<or> map_of (as_tests s) (aq_Query r ''id'') = None \<longrightarrow>
            s' = s \<and> w' = w \<and> ns = [] \<and> response_status resp \<in> {404, 405})
     \<and> (\<forall>def. aq_Method r = MethodPost \<longrightarrow> map_of (as_tests s) (aq_Query r ''id'') = Some def \<longrightarrow>
          (\<not> td_Async def \<longrightarrow>
             (\<exists>result. resp = JsonResult 200 result \<and> tr_TestID result = td_ID def \<and> tr_Status result \<noteq> StatusRunning
                \<and> map_of (as_results s') (tr_RunID result) = Some result))
        \<and> (td_Async def \<longrightarrow>
             (\<exists>runID running. resp = JsonMap 202 [(''run_id'', runID), (''status'', ''running'')]
                \<and> map_of (as_results s') runID = Some running \<and> tr_Status running = StatusRunning
                \<and> (\<forall>w1 s2 ns2 w2. deliver orc (length (as_waiting s)) s' w1 = Some (s2, ns2, w2) \<longrightarrow>
                     (\<exists>result. map_of (as_results s2) runID = Some result \<and> tr_TestID result = td_ID def
                        \<and> tr_Status result \<noteq> StatusRunning)))))"
proof (cases "aq_Method r = MethodPost \<and> map_of (as_tests s) (aq_Query r ''id'') \<noteq> None")
  case False
  with assms(1) show ?thesis
    by (auto simp: handleRun_def split: if_splits option.splits)
next
  case True
  then obtain def where def: "map_of (as_tests s) (aq_Query r ''id'') = Some def" by blast
  show ?thesis
  proof (cases "td_Async def")
    case False
    with assms True def obtain runID result nt w1 where t: "RunTest orc None def w = Some (runID, result, nt, w1)"
      by (cases "RunTest orc None def w") (auto simp: handleRun_def)
    with assms True def False have "resp = JsonResult 200 result" "s' = storeResult result s"
      by (auto simp: handleRun_def)
    with storeResult_lookup [OF assms(2), of result] RunTest_status [OF t] True def False show ?thesis by auto
  next
    case async: True
    obtain runID now w1 w2 where w: "RunTest_id def w = (runID, w1)" "time_Now w1 = (now, w2)"
      by (metis surj_pair)
    let ?running = "running_result def runID now"
    let ?s = "storeResult ?running s"
    from assms True def async w have
      resp: "resp = JsonMap 202 [(''run_id'', runID), (''status'', ''running'')]"
      and s': "s' = ?s\<lparr>as_waiting := as_waiting s @ [(def, runID)]\<rparr>"
      by (auto simp: handleRun_def)
    have "tr_RunID ?running = runID" "tr_Status ?running = StatusRunning" by (simp_all add: running_result_def)
    with storeResult_lookup [OF assms(2), of ?running] s'
    have running: "map_of (as_results s') runID = Some ?running" "tr_Status ?running = StatusRunning" by simp_all
    have "cache_ok s'" using cache_ok_storeResult [OF assms(2)] by (simp add: s')
    then have "\<exists>result. map_of (as_results s2) runID = Some result \<and> tr_TestID result = td_ID def
        \<and> tr_Status result \<noteq> StatusRunning"
      if "deliver orc (length (as_waiting s)) s' w1 = Some (s2, ns2, w2)" for w1 s2 ns2 w2
      using deliver_result [OF that] by (simp add: s')
    with resp running True def async show ?thesis by auto
  qed
qed

theorem run_endpoint_witness:
  "\<exists>resp s' ns w'. handleRun failing_orchestrator example_request example_server world0 = Some (resp, s', ns, w')
     \<and> (\<exists>result. resp = JsonResult 200 result \<and> map_of (as_results s') (tr_RunID result) = Some result)"
proof -
  from example_run_request obtain resp s' ns w'
    where h: "handleRun failing_orchestrator example_request example_server world0 = Some (resp, s', ns, w')" by blast
  have ok: "cache_ok example_server" by (simp add: example_server_def cache_ok_NewServer)
  have f: "aq_Method example_request = MethodPost"
    "map_of (as_tests example_server) (aq_Query example_request ''id'') = Some (example_definition [example_step])"
    "\<not> td_Async (example_definition [example_step])"
    by (simp_all add: example_request_def example_server_def MethodPost_def NewServer_def example_definition_def)
  from run_endpoint [OF h ok, THEN conjunct2, rule_format, OF f(1,2)] f(3) h
  show ?thesis by (metis (no_types, lifting))
qed

text \<open>C25 (sequence_endpoint): a sequence request that is refused changes nothing and runs nothing. One
  that is accepted runs the tests of the list or of the named group (never both), with the delay and
  the flag of the query where given and those of the group otherwise, and stores all the results it
  answers with.\<close>

theorem sequence_endpoint:
  assumes "handleRunSequence orc r s w = Some (resp, s', ns, w')"
  shows "(\<exists>code msg. resp = HttpError code msg \<and> code \<in> {400, 404, 405} \<and> s' = s \<and> w' = w \<and> ns = [])
     \<or> (\<exists>rules defs cfg results. resp = JsonResults 200 (map Some results) \<and> rules \<noteq> []
          \<and> RunSequence orc None defs cfg w = Some (results, ns, w')
          \<and> map (map_of (as_tests s)) rules = map Some defs
          \<and> s' = fold storeResult results s
          \<and> (if aq_Query r ''test_group'' = []
              then \<exists>body. aq_Body r = Inr body \<and> lib_unmarshal_strings (or_lib orc) (TrimSpace body) = Inr rules
              else \<exists>groups g. as_Resolver s = Some groups \<and> map_of groups (aq_Query r ''test_group'') = Some g
                     \<and> rules = tg_Tests g \<and> (\<exists>body. aq_Body r = Inr body \<and> TrimSpace body = [])
                     \<and> (aq_Query r ''test_delay'' = [] \<longrightarrow> sq_Delay cfg = tg_TestDelay g)
                     \<and> (aq_Query r ''skip_fail_test'' = [] \<longrightarrow> sq_SkipFailTest cfg = tg_SkipFailTest g))
          \<and> (aq_Query r ''test_delay'' \<noteq> [] \<longrightarrow> lib_duration (or_lib orc) (aq_Query r ''test_delay'') = Inr (sq_Delay cfg))
          \<and> (aq_Query r ''skip_fail_test'' \<noteq> [] \<longrightarrow> sq_SkipFailTest cfg = (aq_Query r ''skip_fail_test'' = ''true'')))"
proof -
  let ?L = "or_lib orc"
  have lookup: "lookup_tests tests rules = Inr defs \<Longrightarrow> map (map_of tests) rules = map Some defs" for tests rules defs
    by (induction rules arbitrary: defs) (auto split: option.splits sum.splits)
  from assms show ?thesis
  proof (cases rule: handleRunSequence_cases)
    case refused
    then show ?thesis by blast
  next
    case (accepted grp rules cfg defs results)
    have g: "if aq_Query r ''test_group'' = []
        then grp = None \<and> (\<exists>body. aq_Body r = Inr body \<and> lib_unmarshal_strings ?L (TrimSpace body) = Inr rules)
        else \<exists>groups g. grp = Some g \<and> as_Resolver s = Some groups \<and> map_of groups (aq_Query r ''test_group'') = Some g
               \<and> rules = tg_Tests g \<and> (\<exists>body. aq_Body r = Inr body \<and> TrimSpace body = [])"
      using accepted(1,2)
      by (auto simp: sequence_rules_def GroupResolver_Resolve_def Let_def split: if_splits option.splits sum.splits)
    have c: "cfg = \<lparr>sq_Delay = sq_Delay cfg, sq_SkipFailTest = sq_SkipFailTest cfg\<rparr>" by simp
    have d: "(aq_Query r ''test_delay'' \<noteq> [] \<longrightarrow> lib_duration ?L (aq_Query r ''test_delay'') = Inr (sq_Delay cfg))
      \<and> (\<forall>g. aq_Query r ''test_delay'' = [] \<and> grp = Some g \<longrightarrow> sq_Delay cfg = tg_TestDelay g)"
      "(aq_Query r ''skip_fail_test'' \<noteq> [] \<longrightarrow> sq_SkipFailTest cfg = (aq_Query r ''skip_fail_test'' = ''true''))
      \<and> (\<forall>g. aq_Query r ''skip_fail_test'' = [] \<and> grp = Some g \<longrightarrow> sq_SkipFailTest cfg = tg_SkipFailTest g)"
      using accepted(3) by (auto simp: sequence_config_def Let_def split: if_splits option.splits sum.splits)
    show ?thesis
      using accepted lookup [OF accepted(4)] g d
      by (intro disjI2 exI [of _ rules] exI [of _ defs] exI [of _ cfg] exI [of _ results])
        (auto split: if_splits)
  qed
qed


theorem sequence_endpoint_witness:
  "\<exists>results ns w'. handleRunSequence failing_orchestrator
       \<lparr>aq_Method = ''POST'', aq_Path = ''/run-sequence'', aq_Query = (\<lambda>_. []), aq_Authorization = [], aq_Body = Inr ''[t]''\<rparr>
       (NewServer False [] None [(''t'', example_definition [example_step])]) world0 =
     Some (JsonResults 200 (map Some results),
       fold storeResult results (NewServer False [] None [(''t'', example_definition [example_step])]), ns, w')"
proof -
  let ?s = "NewServer False [] None [(''t'', example_definition [example_step])]"
  let ?r = "\<lparr>aq_Method = ''POST'', aq_Path = ''/run-sequence'', aq_Query = (\<lambda>_. []), aq_Authorization = [], aq_Body = Inr ''[t]''\<rparr>"
  have t: "TrimSpace ''[t]'' = ''[t]''" by (simp add: TrimSpace_graph is_graph_def)
  let ?defs = "[example_definition [example_step]]"
  let ?cfg = "\<lparr>sq_Delay = 0, sq_SkipFailTest = False\<rparr>"
  obtain results ns w' where run: "RunSequence failing_orchestrator None ?defs ?cfg world0 = Some (results, ns, w')"
    by (simp add: RunSequence_def RunTest_def execute_def executeSequential_def
      example_definition_def failing_orchestrator_def example_orchestrator_def
      run_step_def TriggerRegistry_Create_def EffectiveType_def example_step_def reserveRecipients_def
      stepMaxAttempts_def eval_nat_numeral failing_trigger_def split_beta Let_def)
  have L: "or_lib failing_orchestrator = example_lib"
    by (simp add: failing_orchestrator_def example_orchestrator_def)
  have h: "handleRunSequence failing_orchestrator ?r ?s world0 =
      Some (JsonResults 200 (map Some results), fold storeResult results ?s, ns, w')"
    using run by (simp add: handleRunSequence_def sequence_rules_def sequence_config_def t L NewServer_def
      MethodPost_def example_lib_def)
  have "map Some a = map Some b \<Longrightarrow> a = b" for a b :: "TestResult list" by (simp add: inj_map_eq_map)
  with sequence_endpoint [OF h] h show ?thesis by auto
qed

end
