(* ===== verification/Config.thy ===== *)
theory Config
  imports Api_Server
begin

section \<open>Configuration: \<open>internal/pkg/config\<close>\<close>

text \<open>
  Loading the configuration and the test definitions. The file system, the environment and the YAML
  decoder are parameters: what was read (or the error text), the value of an environment variable
  (empty if it is not set), and the decoded struct (or the error text). The walk over the directory of
  the tests is the list of the calls that \<open>filepath.WalkDir\<close> makes to its function.
\<close>

subsection \<open>The structs\<close>

record RedisStoreConfig =
  rs_URL :: string
  rs_TTL :: int
  rs_Username :: string
  rs_Password :: string
  rs_ClusterMode :: bool

record PostgresStoreConfig =
  pg_DSN :: string
  pg_TTL :: int

record MemoryStoreConfig =
  mm_TTL :: int

record TestGroupConfig =
  gc_Description :: string
  gc_Tests :: "string list"
  gc_TestDelay :: int
  gc_SkipFailTest :: bool

record StoreConfig =
  sc_Type :: string
  sc_Redis :: RedisStoreConfig
  sc_Postgres :: PostgresStoreConfig
  sc_Memory :: MemoryStoreConfig

record LoggingConfig =
  lg_Level :: string
  lg_Format :: string

record Config =
  cf_Port :: int
  cf_AuthEnabled :: bool
  cf_JWTSecret :: string
  cf_Store :: StoreConfig
  cf_Logging :: LoggingConfig
  cf_TestGroups :: "(string, TestGroupConfig) gomap"
  cf_TestsPath :: string

subsection \<open>The decoding of options: \<open>OptionsMap\<close> in \<open>core/domain/test.go\<close>\<close>

text \<open>The options of a trigger or a receiver are written as any values and kept as text. \<open>Decode\<close> is that of the
  YAML node into a \<open>map[string]any\<close>.\<close>

definition OptionsMap_UnmarshalYAML ::
  "lib \<Rightarrow> ('n \<Rightarrow> gerror + gobody) \<Rightarrow> 'n \<Rightarrow> entropy \<Rightarrow> (gerror + strmap) \<times> entropy" where
  "OptionsMap_UnmarshalYAML L Decode node e =
     (case Decode node of
        Inl err \<Rightarrow> (Inl err, e)
      | Inr raw \<Rightarrow>
          (let (entries, e) = go_range raw e
           in (Inr (go_copy [] (map (\<lambda>(k, v). (k, Sprintf_v L v)) entries)), e)))"

text \<open>Every option is there under its name with its value as \<open>fmt\<close> prints it, in whatever order the loop goes:
  text, numbers and booleans as they are written, but an option without a value becomes the text \<open>nil\<close> in angle brackets, which is not the
  empty text that the receivers take for a missing option.\<close>

lemma OptionsMap_values:
  assumes "Decode node = Inr raw" and "go_wf raw"
  shows "\<exists>opts e'. OptionsMap_UnmarshalYAML L Decode node e = (Inr opts, e') \<and> go_wf opts
     \<and> (\<forall>k. map_of opts k = map_option (Sprintf_v L) (map_of raw k))"
proof -
  obtain entries e' where r: "go_range raw e = (entries, e')" by fastforce
  have wf: "go_wf entries" and eq: "map_of entries = map_of raw"
    using assms(2) distinct_keys_go_range [of raw e] map_of_go_range [OF assms(2), of e] r by simp_all
  let ?texts = "map (\<lambda>(k, v). (k, Sprintf_v L v)) entries"
  have "go_wf ?texts" using wf by (simp add: comp_def split_beta)
  then have "map_of (go_copy [] ?texts) = map_of ?texts" by (simp add: map_of_go_copy)
  moreover have "map_of ?texts k = map_option (Sprintf_v L) (map_of entries k)" for k
    by (simp add: map_of_map)
  ultimately show ?thesis
    using assms(1) r eq by (simp add: OptionsMap_UnmarshalYAML_def go_wf_copy)
qed

lemma OptionsMap_null:
  assumes "Decode node = Inr [(k, VNil)]"
  shows "OptionsMap_UnmarshalYAML L Decode node e = (Inr [(k, ''<nil>'')], snd (go_range [(k, VNil)] e))"
  using assms by (simp add: OptionsMap_UnmarshalYAML_def go_range.simps split_beta Let_def)

subsection \<open>Defaults\<close>

definition StoreTypeDefault :: string where "StoreTypeDefault = ''redis''"

text \<open>\<open>default_ttl\<close> is \<open>300 * time.Second\<close>.\<close>

definition default_ttl :: int where "default_ttl = 300 * 10 ^ 9"

subsection \<open>Environment variables\<close>

text \<open>A match of \<open>envRegex\<close> at the start of the text: the name and the text matched. The name runs up
  to the next closing brace, and two have to be there.\<close>

definition env_prefix :: string where "env_prefix = ''{{env.''"

definition envRegex :: "string \<Rightarrow> (string \<times> string) option" where
  "envRegex s = do {
     r1 \<leftarrow> strip_prefix env_prefix s;
     let name = takeWhile (\<lambda>c. c \<noteq> CHR ''}'') r1;
     if name \<noteq> [] \<and> HasPrefix (dropWhile (\<lambda>c. c \<noteq> CHR ''}'') r1) rbraces
     then Some (name, env_prefix @ name @ rbraces) else None
   }"

fun env_func :: "(string \<Rightarrow> string) \<Rightarrow> string token \<Rightarrow> string" where
  "env_func getenv (Lit c) = [c]"
| "env_func getenv (Tag name tx) = getenv name"

definition resolve_env :: "(string \<Rightarrow> string) \<Rightarrow> string \<Rightarrow> string" where
  "resolve_env getenv s = concat (map (env_func getenv) (re_tokens envRegex s))"

subsection \<open>\<open>LoadConfig\<close>\<close>

definition validateLogging :: "LoggingConfig \<Rightarrow> gerror option" where
  "validateLogging l =
     (if lg_Level l \<notin> {''debug'', ''info'', ''warn'', ''error''}
      then Some (errorf ErrConfiguration (''unknown logging.level '' @ Quote (lg_Level l)
             @ '' (supported: debug, info, warn, error)''))
      else if lg_Format l \<notin> {''json'', ''text''}
      then Some (errorf ErrConfiguration (''unknown logging.format '' @ Quote (lg_Format l)
             @ '' (supported: json, text)''))
      else None)"

definition config_defaults :: "(string \<Rightarrow> string) \<Rightarrow> Config \<Rightarrow> Config" where
  "config_defaults getenv cfg =
     (let st = cf_Store cfg;
          st = (if sc_Type st = [] then st\<lparr>sc_Type := StoreTypeDefault\<rparr> else st);
          st = (if getenv ''STORE_TYPE'' \<noteq> [] then st\<lparr>sc_Type := getenv ''STORE_TYPE''\<rparr> else st);
          st = (if rs_TTL (sc_Redis st) = 0 then st\<lparr>sc_Redis := (sc_Redis st)\<lparr>rs_TTL := default_ttl\<rparr>\<rparr> else st);
          st = (if pg_TTL (sc_Postgres st) = 0 then st\<lparr>sc_Postgres := (sc_Postgres st)\<lparr>pg_TTL := default_ttl\<rparr>\<rparr> else st);
          st = (if mm_TTL (sc_Memory st) = 0 then st\<lparr>sc_Memory := (sc_Memory st)\<lparr>mm_TTL := default_ttl\<rparr>\<rparr> else st);
          lg = cf_Logging cfg;
          lg = (if lg_Level lg = [] then lg\<lparr>lg_Level := ''info''\<rparr> else lg);
          lg = (if lg_Format lg = [] then lg\<lparr>lg_Format := ''json''\<rparr> else lg)
      in cfg\<lparr>cf_Store := st, cf_Logging := lg\<rparr>)"

definition LoadConfig ::
  "(string \<Rightarrow> string + string) \<Rightarrow> (string \<Rightarrow> string) \<Rightarrow> (string \<Rightarrow> string + Config) \<Rightarrow> string \<Rightarrow> gerror + Config" where
  "LoadConfig ReadFile getenv yaml path =
     (case ReadFile path of
        Inl err \<Rightarrow> Inl (errorf ErrConfiguration (''failed to read config file: '' @ err))
      | Inr b \<Rightarrow>
          (case yaml (resolve_env getenv b) of
             Inl err \<Rightarrow> Inl (errorf ErrConfiguration (''failed to parse config yaml: '' @ err))
           | Inr cfg \<Rightarrow>
               (let cfg = config_defaults getenv cfg in
                case validateLogging (cf_Logging cfg) of
                  Some err \<Rightarrow> Inl err
                | None \<Rightarrow> Inr cfg)))"

subsection \<open>Test groups\<close>

fun unknown_test :: "(string, TestDefinition) gomap \<Rightarrow> string list \<Rightarrow> string option" where
  "unknown_test tests [] = None"
| "unknown_test tests (i # ids) = (case map_of tests i of None \<Rightarrow> Some i | Some _ \<Rightarrow> unknown_test tests ids)"

fun validate_groups :: "(string, TestDefinition) gomap \<Rightarrow> (string \<times> TestGroupConfig) list \<Rightarrow> gerror option" where
  "validate_groups tests [] = None"
| "validate_groups tests ((name, grp) # groups) =
     (if gc_Tests grp = []
      then Some (errorf ErrConfiguration (''test group '' @ Quote name @ '' has no tests''))
      else case unknown_test tests (gc_Tests grp) of
        Some i \<Rightarrow> Some (errorf ErrConfiguration
          (''test group '' @ Quote name @ '' references unknown test '' @ Quote i))
      | None \<Rightarrow> validate_groups tests groups)"

definition ValidateTestGroups ::
  "(string, TestGroupConfig) gomap \<Rightarrow> (string, TestDefinition) gomap \<Rightarrow> entropy \<Rightarrow> gerror option \<times> entropy" where
  "ValidateTestGroups groups tests e = (let (ord, e) = go_range groups e in (validate_groups tests ord, e))"

text \<open>The resolver keeps the groups (\<open>NewGroupResolver\<close>); \<open>Resolve\<close> leaves their description out.\<close>

definition group_of :: "TestGroupConfig \<Rightarrow> TestGroup" where
  "group_of g = \<lparr>tg_Tests = gc_Tests g, tg_TestDelay = gc_TestDelay g, tg_SkipFailTest = gc_SkipFailTest g\<rparr>"

definition NewGroupResolver :: "(string, TestGroupConfig) gomap \<Rightarrow> (string, TestGroup) gomap" where
  "NewGroupResolver groups = map (\<lambda>(name, g). (name, group_of g)) groups"

subsection \<open>\<open>LoadTestDefinitions\<close>\<close>

record WalkEntry =
  we_Path :: string
  we_Name :: string
  we_IsDir :: bool
  we_Err :: "string option"

text \<open>\<open>filepath.Ext\<close> of a name without separators: from its last dot on.\<close>

definition filepath_Ext :: "string \<Rightarrow> string" where
  "filepath_Ext name =
     (if CHR ''.'' \<in> set name then CHR ''.'' # rev (takeWhile (\<lambda>c. c \<noteq> CHR ''.'') (rev name)) else [])"

definition load_file ::
  "(string \<Rightarrow> string + string) \<Rightarrow> (string \<Rightarrow> string) \<Rightarrow> (string \<Rightarrow> string + TestDefinition) \<Rightarrow> WalkEntry
    \<Rightarrow> (string, TestDefinition) gomap \<Rightarrow> string + (string, TestDefinition) gomap" where
  "load_file ReadFile getenv yaml d tests =
     (case we_Err d of
        Some err \<Rightarrow> Inl err
      | None \<Rightarrow>
          if we_IsDir d \<or> filepath_Ext (we_Name d) \<noteq> ''.yaml'' then Inr tests
          else (case ReadFile (we_Path d) of
             Inl err \<Rightarrow> Inl (etext (errorf ErrConfiguration
                 (''failed to read test file '' @ we_Path d @ '': '' @ err)))
           | Inr b \<Rightarrow>
               (case yaml (resolve_env getenv b) of
                  Inl err \<Rightarrow> Inl (etext (errorf ErrConfiguration
                      (''failed to parse test file '' @ we_Path d @ '': '' @ err)))
                | Inr def \<Rightarrow> Inr (AList.update (td_ID def) def tests))))"

fun walk_loop ::
  "(WalkEntry \<Rightarrow> 't \<Rightarrow> string + 't) \<Rightarrow> WalkEntry list \<Rightarrow> 't \<Rightarrow> string + 't" where
  "walk_loop f [] tests = Inr tests"
| "walk_loop f (d # ds) tests =
     (case f d tests of
        Inl err \<Rightarrow> Inl err
      | Inr tests \<Rightarrow> walk_loop f ds tests)"

definition LoadTestDefinitions ::
  "(string \<Rightarrow> WalkEntry list) \<Rightarrow> (string \<Rightarrow> string + string) \<Rightarrow> (string \<Rightarrow> string) \<Rightarrow> (string \<Rightarrow> string + TestDefinition)
    \<Rightarrow> string \<Rightarrow> gerror + (string, TestDefinition) gomap" where
  "LoadTestDefinitions WalkDir ReadFile getenv yaml dir =
     (case walk_loop (load_file ReadFile getenv yaml) (WalkDir dir) [] of
        Inl err \<Rightarrow> Inl (errorf ErrConfiguration (''failed to walk test directory: '' @ err))
      | Inr tests \<Rightarrow> Inr tests)"

subsection \<open>Resolving the environment\<close>

lemma envRegex_brace: "envRegex (c # s) \<noteq> None \<Longrightarrow> c = CHR ''{''"
  by (auto simp: envRegex_def env_prefix_def split: if_splits option.splits)

lemma envRegex_hole:
  assumes "brace_free k"
  shows "envRegex (''{{'' @ k @ ''}}'' @ r) =
     (case strip_prefix ''env.'' k of
        None \<Rightarrow> None
      | Some name \<Rightarrow> if name = [] then None else Some (name, ''{{'' @ k @ ''}}''))"
proof (cases "strip_prefix ''env.'' k")
  case None
  have "strip_prefix ''env.'' (k @ ''}}'' @ r) = None"
  proof (rule ccontr)
    assume "strip_prefix ''env.'' (k @ ''}}'' @ r) \<noteq> None"
    then obtain x where "k @ ''}}'' @ r = ''env.'' @ x" by (auto simp: strip_prefix_Some)
    from append_eq_append_conv2 [THEN iffD1, OF this] obtain y where
      c: "k = ''env.'' @ y \<and> y @ ''}}'' @ r = x \<or> k @ y = ''env.'' \<and> ''}}'' @ r = y @ x" by (rule exE)
    have ne: "k \<noteq> ''env.'' @ z" for z using None [unfolded strip_prefix_None] by (rule spec)
    from c ne [of y] have y: "k @ y = ''env.''" "''}}'' @ r = y @ x" by (simp_all only: simp_thms)
    from y(1) ne [of "[]"] have "y \<noteq> []" by (cases y) simp_all
    note y = y this
    from y(2,3) have "CHR ''}'' \<in> set y" by (cases y) auto
    then have "CHR ''}'' \<in> set (k @ y)" by simp
    then show False unfolding y(1) by simp
  qed
  with None show ?thesis by (simp add: envRegex_def env_prefix_def)
next
  case (Some name)
  then have k: "k = ''env.'' @ name" by (simp add: strip_prefix_Some)
  with assms have "brace_free name" by simp
  then have "takeWhile (\<lambda>c. c \<noteq> CHR ''}'') (name @ ''}}'' @ r) = name"
    "dropWhile (\<lambda>c. c \<noteq> CHR ''}'') (name @ ''}}'' @ r) = ''}}'' @ r"
    by (induction name) auto
  with k Some show ?thesis
    by (simp add: envRegex_def env_prefix_def rbraces_def HasPrefix_def)
qed

text \<open>A hole that names an environment variable is filled with its value, whatever that is.\<close>

fun env_fill :: "(string \<Rightarrow> string) \<Rightarrow> segment \<Rightarrow> string" where
  "env_fill getenv (Text tx) = tx"
| "env_fill getenv (Hole k) =
     (case strip_prefix ''env.'' k of
        Some name \<Rightarrow> if name = [] then source (Hole k) else getenv name
      | None \<Rightarrow> source (Hole k))"

lemma resolve_env_skip:
  "CHR ''{'' \<notin> set x \<Longrightarrow> resolve_env getenv (x @ r) = x @ resolve_env getenv r"
proof -
  assume "CHR ''{'' \<notin> set x"
  then have t: "re_tokens envRegex (x @ r) = map Lit x @ re_tokens envRegex r"
    using re_tokens_skip [of envRegex x r] envRegex_brace by simp
  have "concat (map (env_func getenv) (map Lit x)) = x" by (induction x) simp_all
  with t show ?thesis unfolding resolve_env_def by simp
qed

lemma resolve_env_template:
  assumes "list_all plain segs"
  shows "resolve_env getenv (template segs) = concat (map (env_fill getenv) segs)"
  using assms
proof (induction segs)
  case Nil
  then show ?case by (simp add: resolve_env_def)
next
  case (Cons g segs)
  show ?case
  proof (cases g)
    case (Text tx)
    with Cons show ?thesis using resolve_env_skip [of tx] by (simp add: brace_free_def)
  next
    case (Hole k)
    with Cons.prems have k: "brace_free k" by simp
    note m = envRegex_hole [OF k, of "template segs"]
    show ?thesis
    proof (cases "envRegex (''{{'' @ k @ ''}}'' @ template segs)")
      case None
      have skip: "CHR ''{'' \<notin> set (k @ ''}}'')" using k by (auto simp: brace_free_def)
      have "envRegex (CHR ''{'' # k @ ''}}'' @ template segs) = None"
        using k by (cases k) (auto simp: envRegex_def env_prefix_def)
      with None have "resolve_env getenv (''{{'' @ k @ ''}}'' @ template segs) =
          ''{{'' @ resolve_env getenv ((k @ ''}}'') @ template segs)"
        by (simp add: resolve_env_def)
      also have "\<dots> = ''{{'' @ k @ ''}}'' @ resolve_env getenv (template segs)"
        unfolding resolve_env_skip [OF skip] by simp
      finally show ?thesis using Hole Cons None m by (auto split: option.splits if_splits)
    next
      case (Some x)
      with m obtain name where n: "strip_prefix ''env.'' k = Some name" "name \<noteq> []" "x = (name, ''{{'' @ k @ ''}}'')"
        by (auto split: option.splits if_splits)
      with Some have "re_tokens envRegex ((''{{'' @ k @ ''}}'') @ template segs) =
          Tag name (''{{'' @ k @ ''}}'') # re_tokens envRegex (template segs)"
        by (intro re_tokens_at) simp_all
      then show ?thesis using Hole Cons n by (simp add: resolve_env_def)
    qed
  qed
qed

subsection \<open>Groups and files\<close>

lemma unknown_test_None: "unknown_test tests ids = None \<longleftrightarrow> (\<forall>i \<in> set ids. map_of tests i \<noteq> None)"
  by (induction ids) (auto split: option.splits)

lemma unknown_test_Some: "unknown_test tests ids = Some i \<Longrightarrow> i \<in> set ids \<and> map_of tests i = None"
  by (induction ids) (auto split: option.splits)

lemma validate_groups_None:
  "validate_groups tests groups = None \<longleftrightarrow>
     (\<forall>(name, g) \<in> set groups. gc_Tests g \<noteq> [] \<and> (\<forall>i \<in> set (gc_Tests g). map_of tests i \<noteq> None))"
  by (induction tests groups rule: validate_groups.induct) (auto simp: unknown_test_None split: option.splits dest!: unknown_test_Some)

lemma validate_groups_error: "validate_groups tests groups = Some err \<Longrightarrow> errors_Is err s \<longleftrightarrow> s = ErrConfiguration"
  by (induction tests groups rule: validate_groups.induct) (auto split: if_splits option.splits)

lemma ValidateTestGroups_None:
  "fst (ValidateTestGroups groups tests e) = None \<longleftrightarrow>
     (\<forall>(name, g) \<in> set groups. gc_Tests g \<noteq> [] \<and> (\<forall>i \<in> set (gc_Tests g). map_of tests i \<noteq> None))"
  by (simp add: ValidateTestGroups_def split_beta validate_groups_None)

lemma map_of_NewGroupResolver: "map_of (NewGroupResolver groups) name = map_option group_of (map_of groups name)"
  by (induction groups) (auto simp: NewGroupResolver_def)

lemma lookup_tests_known: "\<forall>i \<in> set ids. map_of tests i \<noteq> None \<Longrightarrow> \<exists>defs. lookup_tests tests ids = Inr defs"
  by (induction ids) auto

lemma bind_map_option:
  "Option.bind m (\<lambda>(a, b, c). Some (f a b c)) = map_option (\<lambda>(a, b, c). f a b c) m"
  by (cases m) auto

text \<open>The file that defines an id: the last of the walk.\<close>

definition yaml_file :: "WalkEntry \<Rightarrow> bool" where
  "yaml_file d \<longleftrightarrow> \<not> we_IsDir d \<and> filepath_Ext (we_Name d) = ''.yaml''"

definition decoded :: "(string \<Rightarrow> string + string) \<Rightarrow> (string \<Rightarrow> string) \<Rightarrow> (string \<Rightarrow> string + TestDefinition) \<Rightarrow> WalkEntry
    \<Rightarrow> TestDefinition option" where
  "decoded ReadFile getenv yaml d =
     (case ReadFile (we_Path d) of
        Inl err \<Rightarrow> None
      | Inr b \<Rightarrow> (case yaml (resolve_env getenv b) of Inl err \<Rightarrow> None | Inr def \<Rightarrow> Some def))"

lemma load_file_ok:
  assumes "load_file ReadFile getenv yaml d tests = Inr tests'"
  shows "we_Err d = None
     \<and> (if yaml_file d then \<exists>def. decoded ReadFile getenv yaml d = Some def \<and> tests' = AList.update (td_ID def) def tests
        else tests' = tests)"
  using assms by (auto simp: load_file_def yaml_file_def decoded_def split: option.splits if_splits sum.splits)

lemma walk_loop_ok:
  assumes "walk_loop (load_file ReadFile getenv yaml) ds tests = Inr tests'"
  shows "(\<forall>d \<in> set ds. we_Err d = None \<and> (yaml_file d \<longrightarrow> decoded ReadFile getenv yaml d \<noteq> None))
     \<and> map_of tests' = map_of tests ++ map_of (rev (map (\<lambda>def. (td_ID def, def))
          (List.map_filter (decoded ReadFile getenv yaml) (filter yaml_file ds))))"
  using assms
proof (induction ds arbitrary: tests)
  case Nil
  then show ?case by (simp add: map_filter_simps)
next
  case (Cons d ds)
  then obtain t1 where t1: "load_file ReadFile getenv yaml d tests = Inr t1"
    "walk_loop (load_file ReadFile getenv yaml) ds t1 = Inr tests'"
    by (auto split: sum.splits)
  note one = load_file_ok [OF t1(1)] and IH = Cons.IH [OF t1(2)]
  show ?case
  proof (cases "yaml_file d")
    case True
    with one obtain def where def: "decoded ReadFile getenv yaml d = Some def" "t1 = AList.update (td_ID def) def tests"
      by auto
    with one IH True show ?thesis
      by (auto simp: map_filter_simps simp del: map_of_update) (simp add: map_add_upd_left)
  next
    case False
    with one IH show ?thesis by simp
  qed
qed

subsection \<open>Properties\<close>

definition empty_config :: Config where
  "empty_config = \<lparr>cf_Port = 8082, cf_AuthEnabled = False, cf_JWTSecret = [],
     cf_Store = \<lparr>sc_Type = [], sc_Redis = \<lparr>rs_URL = [], rs_TTL = 0, rs_Username = [], rs_Password = [], rs_ClusterMode = False\<rparr>,
                sc_Postgres = \<lparr>pg_DSN = [], pg_TTL = 0\<rparr>, sc_Memory = \<lparr>mm_TTL = 0\<rparr>\<rparr>,
     cf_Logging = \<lparr>lg_Level = [], lg_Format = []\<rparr>, cf_TestGroups = [], cf_TestsPath = []\<rparr>"

text \<open>C40 (config_is_complete): a configuration that loads is complete whatever the file left out: it has a
  store type (that of \<open>STORE_TYPE\<close> where the environment sets one), no time to live of zero, and one
  of the supported levels and formats of the log. A configuration that does not load is a configuration
  error.\<close>

theorem config_is_complete:
  "case LoadConfig ReadFile getenv yaml path of
      Inl err \<Rightarrow> \<forall>s. errors_Is err s \<longleftrightarrow> s = ErrConfiguration
    | Inr cfg \<Rightarrow> sc_Type (cf_Store cfg) \<noteq> []
       \<and> (sc_Type (cf_Store cfg) = getenv ''STORE_TYPE'' \<or> getenv ''STORE_TYPE'' = [])
       \<and> rs_TTL (sc_Redis (cf_Store cfg)) \<noteq> 0 \<and> pg_TTL (sc_Postgres (cf_Store cfg)) \<noteq> 0
       \<and> mm_TTL (sc_Memory (cf_Store cfg)) \<noteq> 0
       \<and> lg_Level (cf_Logging cfg) \<in> {''debug'', ''info'', ''warn'', ''error''}
       \<and> lg_Format (cf_Logging cfg) \<in> {''json'', ''text''}"
proof (cases "LoadConfig ReadFile getenv yaml path")
  case (Inl err)
  then have "\<forall>s. errors_Is err s \<longleftrightarrow> s = ErrConfiguration"
    by (auto simp: LoadConfig_def validateLogging_def Let_def split: sum.splits option.splits if_splits)
  with Inl show ?thesis by simp
next
  case (Inr cfg)
  then obtain b raw where "ReadFile path = Inr b" "yaml (resolve_env getenv b) = Inr raw"
    "cfg = config_defaults getenv raw" "validateLogging (cf_Logging cfg) = None"
    by (auto simp: LoadConfig_def Let_def split: sum.splits option.splits)
  then have "lg_Level (cf_Logging cfg) \<in> {''debug'', ''info'', ''warn'', ''error''}"
    "lg_Format (cf_Logging cfg) \<in> {''json'', ''text''}" and c: "cf_Store cfg = cf_Store (config_defaults getenv raw)"
    by (auto simp: validateLogging_def split: if_splits)
  moreover have "sc_Type (cf_Store cfg) \<noteq> []" "sc_Type (cf_Store cfg) = getenv ''STORE_TYPE'' \<or> getenv ''STORE_TYPE'' = []"
    "rs_TTL (sc_Redis (cf_Store cfg)) \<noteq> 0" "pg_TTL (sc_Postgres (cf_Store cfg)) \<noteq> 0" "mm_TTL (sc_Memory (cf_Store cfg)) \<noteq> 0"
    unfolding c config_defaults_def Let_def StoreTypeDefault_def default_ttl_def by simp_all
  ultimately show ?thesis using Inr by simp
qed

text \<open>Resolving the environment fills every placeholder \<open>{{env.NAME}}\<close> with the
  value of the variable, nothing where it is not set, and leaves every other placeholder as it is. The
  values are not looked at again, so a value that is itself a placeholder stays in the text.\<close>

theorem env_single_pass:
  assumes "list_all plain segs"
  shows "resolve_env getenv (template segs) = concat (map (env_fill getenv) segs)"
  using assms by (rule resolve_env_template)

theorem env_single_pass_witness:
  "resolve_env (\<lambda>n. if n = ''A'' then ''{{env.B}}'' else if n = ''B'' then ''x'' else []) ''a: {{env.A}} {{env.C}} {{run_id}}''
     = ''a: {{env.B}}  {{run_id}}''"
proof -
  let ?segs = "[Text ''a: '', Hole ''env.A'', Text '' '', Hole ''env.C'', Text '' '', Hole ''run_id'']"
  have "list_all plain ?segs" by simp
  from env_single_pass [OF this, of "\<lambda>n. if n = ''A'' then ''{{env.B}}'' else if n = ''B'' then ''x'' else []"]
  show ?thesis by simp
qed

text \<open>When the tests load, every YAML file of the directory was read and
  decoded, and a test id belongs to the last file of the walk that defines it: an id that two files use
  is silently overwritten.\<close>

theorem loaded_tests_last_wins:
  assumes "LoadTestDefinitions WalkDir ReadFile getenv yaml dir = Inr tests"
  shows "(\<forall>d \<in> set (WalkDir dir). we_Err d = None \<and> (yaml_file d \<longrightarrow> decoded ReadFile getenv yaml d \<noteq> None))
     \<and> map_of tests = map_of (rev (map (\<lambda>def. (td_ID def, def))
          (List.map_filter (decoded ReadFile getenv yaml) (filter yaml_file (WalkDir dir)))))"
  using assms walk_loop_ok [of ReadFile getenv yaml "WalkDir dir" "[]" tests]
  by (auto simp: LoadTestDefinitions_def split: sum.splits)

definition two_files :: "WalkEntry list" where
  "two_files = [\<lparr>we_Path = ''tests'', we_Name = ''tests'', we_IsDir = True, we_Err = None\<rparr>,
     \<lparr>we_Path = ''tests/a.yaml'', we_Name = ''a.yaml'', we_IsDir = False, we_Err = None\<rparr>,
     \<lparr>we_Path = ''tests/b.yaml'', we_Name = ''b.yaml'', we_IsDir = False, we_Err = None\<rparr>,
     \<lparr>we_Path = ''tests/c.yml'', we_Name = ''c.yml'', we_IsDir = False, we_Err = None\<rparr>]"

definition scheduled :: "string \<Rightarrow> TestDefinition" where
  "scheduled schedule = (example_definition [example_step])\<lparr>td_Schedule := schedule\<rparr>"

theorem loaded_tests_last_wins_witness:
  "\<exists>tests. LoadTestDefinitions (\<lambda>_. two_files) (\<lambda>p. if p = ''tests/c.yml'' then Inl ''gone'' else Inr p) (\<lambda>_. [])
       (\<lambda>s. Inr (scheduled s)) ''tests'' = Inr tests
     \<and> map_of tests ''t'' = Some (scheduled ''tests/b.yaml'')"
proof -
  let ?read = "\<lambda>p. if p = ''tests/c.yml'' then Inl ''gone'' else Inr p"
  have r: "resolve_env (\<lambda>_. []) ''tests/a.yaml'' = ''tests/a.yaml''" "resolve_env (\<lambda>_. []) ''tests/b.yaml'' = ''tests/b.yaml''"
    using resolve_env_skip [of "''tests/a.yaml''" "\<lambda>_. []" "[]"] resolve_env_skip [of "''tests/b.yaml''" "\<lambda>_. []" "[]"]
    by (simp_all add: resolve_env_def)
  have t: "td_ID (scheduled x) = ''t''" for x by (simp add: scheduled_def example_definition_def)
  have e: "filepath_Ext ''a.yaml'' = ''.yaml''" "filepath_Ext ''b.yaml'' = ''.yaml''" "filepath_Ext ''c.yml'' = ''.yml''"
    by (simp_all add: filepath_Ext_def)
  obtain tests where l: "LoadTestDefinitions (\<lambda>_. two_files) ?read (\<lambda>_. []) (\<lambda>s. Inr (scheduled s)) ''tests'' = Inr tests"
    by (simp add: LoadTestDefinitions_def two_files_def load_file_def r e)
  have f: "filter yaml_file two_files =
     [\<lparr>we_Path = ''tests/a.yaml'', we_Name = ''a.yaml'', we_IsDir = False, we_Err = None\<rparr>,
      \<lparr>we_Path = ''tests/b.yaml'', we_Name = ''b.yaml'', we_IsDir = False, we_Err = None\<rparr>]"
    by (simp add: two_files_def yaml_file_def e)
  from loaded_tests_last_wins [OF l] f have "map_of tests ''t'' = Some (scheduled ''tests/b.yaml'')"
    by (simp add: map_filter_simps decoded_def r t)
  with l show ?thesis by blast
qed

text \<open>Once the groups are valid (\<open>main\<close> refuses to start otherwise), a
  request for a group runs the tests of the group and nothing else: it never fails for a group without
  tests or for an unknown test.\<close>

theorem validated_groups_run:
  assumes "fst (ValidateTestGroups groups tests e) = None"
    and "as_Resolver s = Some (NewGroupResolver groups)" and "as_tests s = tests"
    and "map_of groups (aq_Query r ''test_group'') = Some g" and "aq_Query r ''test_group'' \<noteq> []"
    and "aq_Method r = ''POST''" and "aq_Body r = Inr []" and "aq_Query r ''test_delay'' = []"
  shows "\<exists>defs. map Some defs = map (map_of tests) (gc_Tests g) \<and> defs \<noteq> []
     \<and> handleRunSequence orc r s w =
         map_option (\<lambda>(results, ns, w'). (JsonResults 200 (map Some results), fold storeResult results s, ns, w'))
           (RunSequence orc None defs
             \<lparr>sq_Delay = gc_TestDelay g,
              sq_SkipFailTest = (if aq_Query r ''skip_fail_test'' = [] then gc_SkipFailTest g
                                 else aq_Query r ''skip_fail_test'' = ''true'')\<rparr> w)"
proof -
  from assms(1) map_of_SomeD [OF assms(4)]
  have known: "gc_Tests g \<noteq> []" "\<forall>i \<in> set (gc_Tests g). map_of tests i \<noteq> None"
    by (fastforce simp: ValidateTestGroups_None)+
  then obtain defs where l: "lookup_tests tests (gc_Tests g) = Inr defs" using lookup_tests_known by blast
  have "map Some defs = map (map_of tests) ids" if "lookup_tests tests ids = Inr defs" for ids defs
    using that by (induction ids arbitrary: defs) (auto split: option.splits sum.splits)
  from this [OF l] have d: "map Some defs = map (map_of tests) (gc_Tests g)" .
  with known(1) have "defs \<noteq> []" by auto
  moreover have "sequence_rules (or_lib orc) r s = Inr (Some (group_of g), gc_Tests g)"
    using assms by (simp add: sequence_rules_def GroupResolver_Resolve_def map_of_NewGroupResolver group_of_def Let_def)
  moreover have "sequence_config (or_lib orc) r (Some (group_of g)) = Inr
      \<lparr>sq_Delay = gc_TestDelay g, sq_SkipFailTest = (if aq_Query r ''skip_fail_test'' = [] then gc_SkipFailTest g
                                 else aq_Query r ''skip_fail_test'' = ''true'')\<rparr>"
    using assms(8) by (simp add: sequence_config_def group_of_def Let_def)
  ultimately show ?thesis
    using d known(1) l assms(3,6)
    by (intro exI [of _ defs]) (auto simp: handleRunSequence_def MethodPost_def bind_map_option)
qed

definition ci_group :: TestGroupConfig where
  "ci_group = \<lparr>gc_Description = [], gc_Tests = [''t''], gc_TestDelay = 5, gc_SkipFailTest = True\<rparr>"

definition ci_request :: ApiRequest where
  "ci_request = \<lparr>aq_Method = ''POST'', aq_Path = ''/run-sequence'',
     aq_Query = (\<lambda>k. if k = ''test_group'' then ''ci'' else []), aq_Authorization = [], aq_Body = Inr []\<rparr>"

theorem validated_groups_run_witness:
  "handleRunSequence failing_orchestrator ci_request
       (NewServer False [] (Some (NewGroupResolver [(''ci'', ci_group)])) [(''t'', scheduled [])]) world0
     = map_option (\<lambda>(results, ns, w'). (JsonResults 200 (map Some results),
           fold storeResult results (NewServer False [] (Some (NewGroupResolver [(''ci'', ci_group)])) [(''t'', scheduled [])]), ns, w'))
         (RunSequence failing_orchestrator None [scheduled []] \<lparr>sq_Delay = 5, sq_SkipFailTest = True\<rparr> world0)"
proof -
  let ?s = "NewServer False [] (Some (NewGroupResolver [(''ci'', ci_group)])) [(''t'', scheduled [])]"
  have v: "fst (ValidateTestGroups [(''ci'', ci_group)] [(''t'', scheduled [])] (\<lambda>_. 0)) = None"
    by (simp add: ValidateTestGroups_None ci_group_def)
  have s: "as_Resolver ?s = Some (NewGroupResolver [(''ci'', ci_group)])" "as_tests ?s = [(''t'', scheduled [])]"
    by (simp_all add: NewServer_def)
  have r: "map_of [(''ci'', ci_group)] (aq_Query ci_request ''test_group'') = Some ci_group"
    "aq_Query ci_request ''test_group'' \<noteq> []" "aq_Method ci_request = ''POST''" "aq_Body ci_request = Inr []"
    "aq_Query ci_request ''test_delay'' = []" "aq_Query ci_request ''skip_fail_test'' = []"
    by (simp_all add: ci_request_def)
  show ?thesis
    using validated_groups_run [OF v s r(1-5), of failing_orchestrator world0] r(6)
    by (auto simp: ci_group_def)
qed

end
