(* ===== verification/Redis_Store.thy ===== *)
theory Redis_Store
  imports Config Interleaving
begin

section \<open>The Redis store: \<open>internal/adapters/secondary/store/redis.go\<close>\<close>

text \<open>
  The store is a thin layer over a Redis client, which is a parameter: its four commands on the state \<open>'s\<close>
  of the server, each with the time at which the server runs it (\<open>DEL\<close> does not depend on it).
  \<open>redis_documented\<close> states what the documentation of Redis promises of commands that do not fail, in terms
  of what can be seen: \<open>look s t k\<close> is the value of a key whose expiry is after \<open>t\<close>.
\<close>

datatype redis_reply = RedisValue string | RedisNil | RedisError string

record 's RedisClient =
  rd_Set :: "string \<Rightarrow> string \<Rightarrow> int \<Rightarrow> int \<Rightarrow> 's \<Rightarrow> string option \<times> 's"
  rd_Get :: "string \<Rightarrow> int \<Rightarrow> 's \<Rightarrow> redis_reply \<times> 's"
  rd_SetNX :: "string \<Rightarrow> string \<Rightarrow> int \<Rightarrow> int \<Rightarrow> 's \<Rightarrow> redis_reply \<times> 's"
  rd_Del :: "string \<Rightarrow> 's \<Rightarrow> string option \<times> 's"

subsection \<open>The connection\<close>

text \<open>What the client is made with, and the time to live; \<open>ParseURL\<close> is the function of the library.\<close>

record redis_options =
  ro_Addr :: string
  ro_Username :: string
  ro_Password :: string
  ro_Cluster :: bool

definition NewRedisStore ::
  "(string \<Rightarrow> string + redis_options) \<Rightarrow> RedisStoreConfig \<Rightarrow> gerror + (redis_options \<times> int)" where
  "NewRedisStore ParseURL cfg =
     (if rs_URL cfg = [] then Inl (errorf ErrConfiguration ''redis mode requires at least one URL'')
      else if rs_ClusterMode cfg
      then Inr (\<lparr>ro_Addr = rs_URL cfg, ro_Username = rs_Username cfg, ro_Password = rs_Password cfg, ro_Cluster = True\<rparr>,
                rs_TTL cfg)
      else case ParseURL (rs_URL cfg) of
        Inl err \<Rightarrow> Inl (errorf ErrConfiguration (''invalid redis URL: '' @ err))
      | Inr opts \<Rightarrow>
          (let opts = (if rs_Username cfg \<noteq> [] then opts\<lparr>ro_Username := rs_Username cfg\<rparr> else opts);
               opts = (if rs_Password cfg \<noteq> [] then opts\<lparr>ro_Password := rs_Password cfg\<rparr> else opts)
           in Inr (opts, rs_TTL cfg)))"

subsection \<open>The operations\<close>

definition e2eTestKey :: "string \<Rightarrow> string \<Rightarrow> string" where
  "e2eTestKey runID receiverType = ''e2e-test:'' @ runID @ '':'' @ receiverType"

definition reservationKey :: "string \<Rightarrow> string \<Rightarrow> string" where
  "reservationKey channel recipient = ''store:reservations:'' @ channel @ '':'' @ recipient"

definition redis_Deposit ::
  "codec \<Rightarrow> 's RedisClient \<Rightarrow> int \<Rightarrow> Message \<Rightarrow> int \<Rightarrow> 's \<Rightarrow> gerror option \<times> 's" where
  "redis_Deposit cod cl ttl msg now s =
     (case marshal_message cod msg of
        Inl err \<Rightarrow> (Some (errorf ErrInternal (''failed to serialize message: '' @ err)), s)
      | Inr data \<Rightarrow>
          (let (err, s) = rd_Set cl (e2eTestKey (m_RunID msg) (m_ReceiverType msg)) data ttl now s
           in (map_option (GErr []) err, s)))"

definition redis_Claim ::
  "codec \<Rightarrow> 's RedisClient \<Rightarrow> string \<Rightarrow> string \<Rightarrow> int \<Rightarrow> 's \<Rightarrow> (gerror + Message option) \<times> 's" where
  "redis_Claim cod cl runID receiverType now s =
     (let (reply, s) = rd_Get cl (e2eTestKey runID receiverType) now s in
      (case reply of
         RedisNil \<Rightarrow> Inr None
       | RedisError err \<Rightarrow> Inl (errorf ErrInternal (''failed to claim message: '' @ err))
       | RedisValue data \<Rightarrow>
           (case unmarshal_message cod data of
              Inl err \<Rightarrow> Inl (errorf ErrInternal (''failed to deserialize message: '' @ err))
            | Inr msg \<Rightarrow> Inr (Some msg)), s))"

definition redis_Reserve ::
  "'s RedisClient \<Rightarrow> string \<Rightarrow> string \<Rightarrow> string \<Rightarrow> int \<Rightarrow> int \<Rightarrow> 's \<Rightarrow> gerror option \<times> 's" where
  "redis_Reserve cl channel recipient runID now now' s =
     (let key = reservationKey channel recipient;
          (reply, s) = rd_SetNX cl key runID reservationTTL now s
      in case reply of
           RedisValue _ \<Rightarrow> (None, s)
         | RedisNil \<Rightarrow>
             (let (existing, s) = rd_Get cl key now' s in
              (Some (errorf ErrInternal (''recipient '' @ channel @ '':'' @ recipient @ '' already reserved by run ''
                 @ (case existing of RedisValue r \<Rightarrow> r | RedisNil \<Rightarrow> [] | RedisError _ \<Rightarrow> []))), s))
         | RedisError err \<Rightarrow>
             (Some (errorf ErrInternal (''failed to reserve '' @ channel @ '':'' @ recipient @ '': '' @ err)), s))"

definition redis_Release :: "'s RedisClient \<Rightarrow> string \<Rightarrow> string \<Rightarrow> 's \<Rightarrow> gerror option \<times> 's" where
  "redis_Release cl channel recipient s =
     (let (err, s) = rd_Del cl (reservationKey channel recipient) s in (map_option (GErr []) err, s))"

definition redis_Delete :: "'s RedisClient \<Rightarrow> string \<Rightarrow> string \<Rightarrow> 's \<Rightarrow> gerror option \<times> 's" where
  "redis_Delete cl runID receiverType s =
     (let (err, s) = rd_Del cl (e2eTestKey runID receiverType) s in (map_option (GErr []) err, s))"

text \<open>\<open>close\<close> is the \<open>Close\<close> of the client that the store was made with.\<close>

definition redis_Close :: "('s \<Rightarrow> string option \<times> 's) \<Rightarrow> 's \<Rightarrow> gerror option \<times> 's" where
  "redis_Close close s = (let (err, s) = close s in (map_option (GErr []) err, s))"

subsection \<open>What Redis promises\<close>

definition redis_documented :: "'s RedisClient \<Rightarrow> ('s \<Rightarrow> int \<Rightarrow> string \<Rightarrow> string option) \<Rightarrow> bool" where
  "redis_documented cl look \<longleftrightarrow>
     (\<forall>k v ttl now s. 0 < ttl \<longrightarrow> fst (rd_Set cl k v ttl now s) = None
        \<and> (\<forall>t. look (snd (rd_Set cl k v ttl now s)) t k = (if t < now + ttl then Some v else None))
        \<and> (\<forall>t k'. now \<le> t \<longrightarrow> k' \<noteq> k \<longrightarrow> look (snd (rd_Set cl k v ttl now s)) t k' = look s t k'))
   \<and> (\<forall>k now s. fst (rd_Get cl k now s) = (case look s now k of None \<Rightarrow> RedisNil | Some v \<Rightarrow> RedisValue v)
        \<and> (\<forall>t k'. now \<le> t \<longrightarrow> look (snd (rd_Get cl k now s)) t k' = look s t k'))
   \<and> (\<forall>k v ttl now s. 0 < ttl \<longrightarrow>
        (if look s now k = None
         then fst (rd_SetNX cl k v ttl now s) = RedisValue ''OK''
           \<and> (\<forall>t. look (snd (rd_SetNX cl k v ttl now s)) t k = (if t < now + ttl then Some v else None))
           \<and> (\<forall>t k'. now \<le> t \<longrightarrow> k' \<noteq> k \<longrightarrow> look (snd (rd_SetNX cl k v ttl now s)) t k' = look s t k')
         else fst (rd_SetNX cl k v ttl now s) = RedisNil
           \<and> (\<forall>t k'. now \<le> t \<longrightarrow> look (snd (rd_SetNX cl k v ttl now s)) t k' = look s t k')))
   \<and> (\<forall>k s t k'. fst (rd_Del cl k s) = None
        \<and> look (snd (rd_Del cl k s)) t k' = (if k' = k then None else look s t k'))
   \<and> (\<forall>s t t' k v. t \<le> t' \<longrightarrow> look s t' k = Some v \<longrightarrow> look s t k = Some v)"

text \<open>A server that keeps every value with its expiry.\<close>

definition expiring :: "(string \<rightharpoonup> string \<times> int) RedisClient" where
  "expiring =
     \<lparr>rd_Set = (\<lambda>k v ttl now s. (None, s(k \<mapsto> (v, now + ttl)))),
      rd_Get = (\<lambda>k now s. (case s k of None \<Rightarrow> RedisNil | Some (v, e) \<Rightarrow> if now < e then RedisValue v else RedisNil, s)),
      rd_SetNX = (\<lambda>k v ttl now s.
        case s k of
          None \<Rightarrow> (RedisValue ''OK'', s(k \<mapsto> (v, now + ttl)))
        | Some (v', e) \<Rightarrow> if now < e then (RedisNil, s) else (RedisValue ''OK'', s(k \<mapsto> (v, now + ttl)))),
      rd_Del = (\<lambda>k s. (None, s(k := None)))\<rparr>"

definition expiring_look :: "(string \<rightharpoonup> string \<times> int) \<Rightarrow> int \<Rightarrow> string \<Rightarrow> string option" where
  "expiring_look s t k = (case s k of None \<Rightarrow> None | Some (v, e) \<Rightarrow> if t < e then Some v else None)"

lemma expiring_documented: "redis_documented expiring expiring_look"
  unfolding redis_documented_def
  by (auto simp: expiring_def expiring_look_def split: option.splits prod.splits if_splits)

subsection \<open>The contracts of the stores\<close>

lemma e2eTestKey_store_key: "e2eTestKey r t = e2eTestKey r' t' \<longleftrightarrow> store_key r t = store_key r' t'"
  by (simp add: e2eTestKey_def store_key_def)

lemma redis_message_store:
  assumes "redis_documented cl look" and "0 < d"
  shows "message_store (\<lambda>m now s. snd (redis_Deposit cod cl d m now s))
    (\<lambda>r t now s. fst (redis_Claim cod cl r t now s)) (\<lambda>r t s. snd (redis_Delete cl r t s))
    (\<lambda>_. d) (mem_stored cod) store_key (\<lambda>expiry now. now < expiry)"
proof -
  note docs = assms(1) [unfolded redis_documented_def]
  have set: "look (snd (rd_Set cl k v d now s)) t k' =
      (if k' = k then if t < now + d then Some v else None else look s t k')" if "now \<le> t" for k v now s t k'
    using docs assms(2) that by auto
  have get: "fst (rd_Get cl k now s) = (case look s now k of None \<Rightarrow> RedisNil | Some v \<Rightarrow> RedisValue v)" for k now s
    using docs by blast
  have del: "look (snd (rd_Del cl k s)) t k' = (if k' = k then None else look s t k')" for k s t k'
    using docs by blast
  have claim: "fst (redis_Claim cod cl r t now s) =
      (case look s now (e2eTestKey r t) of
         None \<Rightarrow> Inr None
       | Some data \<Rightarrow>
           (case unmarshal_message cod data of
              Inl err \<Rightarrow> Inl (errorf ErrInternal (''failed to deserialize message: '' @ err))
            | Inr msg \<Rightarrow> Inr (Some msg)))" for r t now s
    by (simp add: redis_Claim_def split_beta Let_def get split: option.splits sum.splits)
  show ?thesis
    by unfold_locales
      (auto simp: claim redis_Deposit_def redis_Delete_def mem_stored_def split_beta Let_def set del e2eTestKey_store_key
        split: sum.splits)
qed

text \<open>A server on whose clock no time passes between the two commands of a refused reservation.\<close>

definition redis_try_reserve ::
  "'s RedisClient \<Rightarrow> string \<Rightarrow> string \<Rightarrow> string \<Rightarrow> int \<Rightarrow> int \<Rightarrow> 's \<Rightarrow> bool \<times> 's" where
  "redis_try_reserve cl channel recipient runID now now' s =
     (let (err, s') = redis_Reserve cl channel recipient runID now now s in (err = None, s'))"

lemma reservationKey_store_key: "reservationKey c r = reservationKey c' r' \<longleftrightarrow> store_key c r = store_key c' r'"
  by (simp add: reservationKey_def store_key_def)

lemma redis_reservation_replies:
  assumes "redis_documented cl look"
  defines "nx \<equiv> \<lambda>k v t s. rd_SetNX cl k v reservationTTL t s"
  shows "fst (nx k v t s) = (if look s t k = None then RedisValue ''OK'' else RedisNil)"
    and "look s t k = None \<Longrightarrow> look (snd (nx k v t s)) t' k = (if t' < t + reservationTTL then Some v else None)"
    and "t \<le> t' \<Longrightarrow> k' \<noteq> k \<Longrightarrow> look (snd (nx k v t s)) t' k' = look s t' k'"
    and "look s t k = Some v' \<Longrightarrow> t \<le> t' \<Longrightarrow> look (snd (nx k v t s)) t' k' = look s t' k'"
    and "fst (rd_Get cl k t s) = (case look s t k of None \<Rightarrow> RedisNil | Some v \<Rightarrow> RedisValue v)"
    and "t \<le> t' \<Longrightarrow> look (snd (rd_Get cl k t s)) t' k' = look s t' k'"
    and "look (snd (rd_Del cl k s)) t k' = (if k' = k then None else look s t k')"
    and "t \<le> t' \<Longrightarrow> look s t' k = Some v \<Longrightarrow> look s t k = Some v"
proof -
  have T: "0 < reservationTTL" by (simp add: reservationTTL_def)
  note docs = assms(1) [unfolded redis_documented_def]
  from docs T show "fst (nx k v t s) = (if look s t k = None then RedisValue ''OK'' else RedisNil)"
    by (auto simp: nx_def)
  from docs T show "look s t k = None \<Longrightarrow> look (snd (nx k v t s)) t' k = (if t' < t + reservationTTL then Some v else None)"
    by (auto simp: nx_def)
  from docs T show "t \<le> t' \<Longrightarrow> k' \<noteq> k \<Longrightarrow> look (snd (nx k v t s)) t' k' = look s t' k'"
    by (cases "look s t k") (auto simp: nx_def)
  from docs T show "look s t k = Some v' \<Longrightarrow> t \<le> t' \<Longrightarrow> look (snd (nx k v t s)) t' k' = look s t' k'"
    by (auto simp: nx_def)
  from docs show "fst (rd_Get cl k t s) = (case look s t k of None \<Rightarrow> RedisNil | Some v \<Rightarrow> RedisValue v)" by blast
  from docs show "t \<le> t' \<Longrightarrow> look (snd (rd_Get cl k t s)) t' k' = look s t' k'" by blast
  from docs show "look (snd (rd_Del cl k s)) t k' = (if k' = k then None else look s t k')" by blast
  from docs show "t \<le> t' \<Longrightarrow> look s t' k = Some v \<Longrightarrow> look s t k = Some v" by blast
qed

lemma redis_reservation_store:
  assumes "redis_documented cl look"
  shows "reservation_store (redis_try_reserve cl) (\<lambda>c r s. snd (redis_Release cl c r s))
    (\<lambda>c r now s. look s now (reservationKey c r)) store_key (\<lambda>now _. now + reservationTTL)"
proof -
  note replies = redis_reservation_replies [OF assms]
  have reserve: "redis_try_reserve cl c r run now now' s =
      (let k = reservationKey c r; s' = snd (rd_SetNX cl k run reservationTTL now s) in
       if look s now k = None then (True, s') else (False, snd (rd_Get cl k now s')))" for c r run now now' s
    by (simp add: redis_try_reserve_def redis_Reserve_def replies(1) split_beta Let_def)
  show ?thesis
    by unfold_locales
      (auto simp: reserve reservationKey_store_key [symmetric] redis_Release_def replies(2-4,6,7) split_beta Let_def
        intro: replies(8) split: if_splits)
qed

lemma redis_refused:
  assumes "redis_documented cl look" and "look s now (reservationKey channel recipient) = Some run"
  shows "fst (redis_Reserve cl channel recipient other now now s) =
     Some (errorf ErrInternal (''recipient '' @ channel @ '':'' @ recipient @ '' already reserved by run '' @ run))"
  using redis_reservation_replies(4) [OF assms order_refl, of other "reservationKey channel recipient"] assms(2)
  by (simp add: redis_Reserve_def redis_reservation_replies(1,5) [OF assms(1)] split_beta Let_def)

text \<open>
  Several instances of the service can share one Redis. What takes its turn then is a command: the one that sets the key
  reserves, and the one that reads who holds it comes later.
\<close>

definition redis_set_nx :: "'s RedisClient \<Rightarrow> string \<Rightarrow> string \<Rightarrow> string \<Rightarrow> int \<Rightarrow> int \<Rightarrow> 's \<Rightarrow> bool \<times> 's" where
  "redis_set_nx cl channel recipient runID now now' s =
     (let (reply, s) = rd_SetNX cl (reservationKey channel recipient) runID reservationTTL now s in (reply \<noteq> RedisNil, s))"

definition redis_commands :: "'s RedisClient \<Rightarrow> ('s \<Rightarrow> int \<Rightarrow> string \<Rightarrow> string option) \<Rightarrow> ('s, string) reservations" where
  "redis_commands cl look =
     \<lparr>rs_reserve = redis_set_nx cl, rs_release = (\<lambda>c r s. snd (redis_Release cl c r s)),
      rs_holder = (\<lambda>c r now s. look s now (reservationKey c r)), rs_slot = store_key,
      rs_until = (\<lambda>now _. now + reservationTTL)\<rparr>"

lemma redis_shared_store:
  assumes "redis_documented cl look"
  shows "shared_store (redis_commands cl look)"
proof -
  note replies = redis_reservation_replies [OF assms]
  show ?thesis
    unfolding shared_store_def
    by unfold_locales
      (auto simp: redis_commands_def redis_set_nx_def reservationKey_store_key [symmetric] redis_Release_def replies(1-4,7)
          split_beta Let_def intro: replies(8) split: if_splits)
qed

lemma redis_Reserve_commands:
  assumes "redis_documented cl look"
  shows "fst (redis_Reserve cl channel recipient runID now now' s) = None \<longleftrightarrow> fst (redis_set_nx cl channel recipient runID now now' s)"
  by (simp add: redis_Reserve_def redis_set_nx_def redis_reservation_replies(1) [OF assms] split_beta Let_def)

text \<open>Messages and reservations have different keys.\<close>

lemma redis_message_turns:
  assumes "redis_documented cl look"
  shows "0 < d \<Longrightarrow> same_holders (redis_commands cl look) now s (snd (redis_Deposit cod cl d m now s))"
    and "same_holders (redis_commands cl look) now s (snd (redis_Claim cod cl runID receiverType now s))"
    and "same_holders (redis_commands cl look) now s (snd (redis_Delete cl runID receiverType s))"
    and "same_holders (redis_commands cl look) now s (snd (rd_Get cl (reservationKey channel recipient) now s))"
proof -
  note docs = assms [unfolded redis_documented_def] and replies = redis_reservation_replies [OF assms]
  have k: "reservationKey c r \<noteq> e2eTestKey r' t'" for c r r' t' by (simp add: reservationKey_def e2eTestKey_def)
  show "0 < d \<Longrightarrow> same_holders (redis_commands cl look) now s (snd (redis_Deposit cod cl d m now s))"
    using docs k by (auto simp: same_holders_def redis_commands_def redis_Deposit_def split_beta Let_def split: sum.splits)
  show "same_holders (redis_commands cl look) now s (snd (redis_Claim cod cl runID receiverType now s))"
    by (simp add: same_holders_def redis_commands_def redis_Claim_def replies(6) split_beta Let_def)
  show "same_holders (redis_commands cl look) now s (snd (redis_Delete cl runID receiverType s))"
    by (simp add: same_holders_def redis_commands_def redis_Delete_def replies(7) k split_beta Let_def)
  show "same_holders (redis_commands cl look) now s (snd (rd_Get cl (reservationKey channel recipient) now s))"
    by (simp add: same_holders_def redis_commands_def replies(6))
qed

subsection \<open>Histories\<close>

fun redis_step :: "codec \<Rightarrow> 's RedisClient \<Rightarrow> int \<Rightarrow> message_op \<Rightarrow> 's \<Rightarrow> 's" where
  "redis_step cod cl d (DepositOp m now) s = snd (redis_Deposit cod cl d m now s)"
| "redis_step cod cl d (DeleteOp r t) s = snd (redis_Delete cl r t s)"

fun redis_res_step :: "'s RedisClient \<Rightarrow> reservation_op \<Rightarrow> 's \<Rightarrow> 's" where
  "redis_res_step cl (ReserveOp c r run now now') s = snd (redis_Reserve cl c r run now now s)"
| "redis_res_step cl (ReleaseOp c r) s = snd (redis_Release cl c r s)"

definition redis_last_claim :: "codec \<Rightarrow> int \<Rightarrow> string \<Rightarrow> string \<Rightarrow> int \<Rightarrow> message_op list \<Rightarrow> gerror + Message option" where
  "redis_last_claim cod d runID receiverType now ops =
     (case List.find (touches cod (store_key runID receiverType)) (rev ops) of
        Some (DepositOp m t0) \<Rightarrow> if now < t0 + d then the (mem_stored cod m) else Inr None
      | _ \<Rightarrow> Inr None)"

lemma redis_claim_refines:
  assumes "redis_documented cl look" and "0 < d" and "\<forall>t k. look s0 t k = None"
    and "\<forall>p \<in> set ops. \<forall>t. op_time p = Some t \<longrightarrow> t \<le> now"
  shows "fst (redis_Claim cod cl r t now (fold (redis_step cod cl d) ops s0)) = redis_last_claim cod d r t now ops"
proof -
  note lm = redis_message_store [OF assms(1,2), of cod]
  let ?dep = "\<lambda>m now s. snd (redis_Deposit cod cl d m now s)" and ?del = "\<lambda>r t s. snd (redis_Delete cl r t s)"
  let ?live = "\<lambda>expiry now :: int. now < expiry"
  have e: "redis_step cod cl d = message_store.exec ?dep ?del"
    by (intro ext, rename_tac p s) (case_tac p; simp add: message_store.exec.simps [OF lm])
  have "message_store.at_most now p" if "p \<in> set ops" for p
    using assms(4) that by (cases p) (auto simp: message_store.at_most.simps [OF lm])
  moreover have "fst (redis_Claim cod cl r t now s0) = message_store.abs_claim store_key ?live r t now Map.empty" for r t
    using assms(1,3) by (simp add: message_store.abs_claim_def [OF lm] redis_Claim_def redis_documented_def split_beta Let_def)
  moreover have "message_store.abs_claim store_key ?live r t now
      (fold (message_store.abs_exec (mem_stored cod) store_key d) ops Map.empty) = redis_last_claim cod d r t now ops" for ops
  proof (induction ops rule: rev_induct)
    case Nil
    then show ?case by (simp add: message_store.abs_claim_def [OF lm] redis_last_claim_def)
  next
    case (snoc p ops)
    then show ?case
      by (cases p) (auto simp: message_store.abs_claim_def [OF lm] message_store.abs_exec.simps [OF lm]
        redis_last_claim_def split: option.splits)
  qed
  ultimately show ?thesis
    using message_store.claim_refines [OF lm, of now s0 Map.empty ops r t] by (simp add: e)
qed

subsection \<open>Properties\<close>

text \<open>C22 (redis_claim_last): on a Redis that keeps what its documentation promises, the store refines the
  contract of the other two: after any history of deposits and deletions a claim returns what the last
  operation on its slot says. Its keys are those of the memory store, with a prefix.\<close>

theorem redis_claim_last:
  assumes "redis_documented cl look" and "0 < d" and "\<forall>t k. look s0 t k = None"
    and "\<forall>p \<in> set ops. \<forall>t. op_time p = Some t \<longrightarrow> t \<le> now"
  shows "fst (redis_Claim cod cl r t now (fold (redis_step cod cl d) ops s0)) = redis_last_claim cod d r t now ops"
  using assms by (rule redis_claim_refines)

theorem redis_claim_last_witness:
  "fst (redis_Claim example_codec expiring ''r'' ''webhook'' 12
     (fold (redis_step example_codec expiring 5) [DepositOp (example_message ''r'') 10] Map.empty)) =
   Inr (Some (example_message ''r''))"
proof -
  have "\<forall>t k. expiring_look Map.empty t k = None" by (simp add: expiring_look_def)
  with expiring_documented redis_claim_last [of expiring expiring_look 5 Map.empty
      "[DepositOp (example_message ''r'') 10]" 12 example_codec "''r''" "''webhook''"]
  show ?thesis
    by (simp add: redis_last_claim_def mem_stored_def example_codec_def example_message_def del: redis_step.simps)
qed

text \<open>A reservation succeeds exactly when nobody holds the recipient; then it
  is refused to everyone for an hour, naming the holder, whatever is reserved and released meanwhile, until it is
  released itself. This is what the memory store and Postgres promise too.\<close>

theorem redis_reservation_exclusive:
  assumes "redis_documented cl look" and "redis_Reserve cl channel recipient runID now now s = (None, s')"
    and "\<forall>p \<in> set ops. (case p of
        ReleaseOp c r \<Rightarrow> store_key c r \<noteq> store_key channel recipient
      | ReserveOp c r run t t' \<Rightarrow> t < now + reservationTTL)"
    and "t < now + reservationTTL"
  shows "look s now (reservationKey channel recipient) = None
     \<and> fst (redis_Reserve cl channel recipient other t t (fold (redis_res_step cl) ops s')) =
         Some (errorf ErrInternal (''recipient '' @ channel @ '':'' @ recipient @ '' already reserved by run '' @ runID))"
proof
  note rs = redis_reservation_store [OF assms(1)] and replies = redis_reservation_replies [OF assms(1)]
  let ?k = "reservationKey channel recipient" and ?attempt = "redis_try_reserve cl" and ?rel = "\<lambda>c r s. snd (redis_Release cl c r s)"
  have ok: "?attempt channel recipient runID now now s = (True, s')"
    using assms(2) by (simp add: redis_try_reserve_def)
  show free: "look s now ?k = None"
    using assms(2) by (auto simp: redis_Reserve_def replies(1) split_beta Let_def split: if_splits)
  have e: "redis_res_step cl = reservation_store.exec ?attempt ?rel"
    by (intro ext, rename_tac p s) (case_tac p; simp add: reservation_store.exec.simps [OF rs] redis_try_reserve_def split_beta Let_def)
  have ops: "\<forall>p \<in> set ops. \<not> reservation_store.releases store_key (store_key channel recipient) p
      \<and> reservation_store.before_op (now + reservationTTL) p"
  proof
    fix p assume "p \<in> set ops"
    with assms(3) show "\<not> reservation_store.releases store_key (store_key channel recipient) p
        \<and> reservation_store.before_op (now + reservationTTL) p"
      by (cases p) (fastforce simp: reservation_store.releases.simps [OF rs] reservation_store.before_op.simps [OF rs])+
  qed
  from reservation_store.exclusive [OF rs ok ops refl assms(4)]
  have h: "look (fold (redis_res_step cl) ops s') t ?k = Some runID" by (simp add: e)
  from redis_refused [OF assms(1) h]
  show "fst (redis_Reserve cl channel recipient other t t (fold (redis_res_step cl) ops s')) =
      Some (errorf ErrInternal (''recipient '' @ channel @ '':'' @ recipient @ '' already reserved by run '' @ runID))" .
qed

theorem redis_reservation_exclusive_witness:
  "\<exists>s'. redis_Reserve expiring ''imap'' ''a@b'' ''r1'' 1 1 Map.empty = (None, s')
     \<and> fst (redis_Reserve expiring ''imap'' ''a@b'' ''r2'' 7 7
          (fold (redis_res_step expiring) [ReserveOp ''imap'' ''a@b'' ''r3'' 5 5, ReleaseOp ''webhook'' ''a@b''] s')) =
         Some (errorf ErrInternal ''recipient imap:a@b already reserved by run r1'')"
proof -
  let ?ops = "[ReserveOp ''imap'' ''a@b'' ''r3'' 5 5, ReleaseOp ''webhook'' ''a@b'']"
  obtain s' where r: "redis_Reserve expiring ''imap'' ''a@b'' ''r1'' 1 1 Map.empty = (None, s')"
    by (simp add: redis_Reserve_def expiring_def)
  have "\<forall>p \<in> set ?ops. (case p of ReleaseOp c r \<Rightarrow> store_key c r \<noteq> store_key ''imap'' ''a@b''
      | ReserveOp c r run t t' \<Rightarrow> t < 1 + reservationTTL)"
    by (simp add: store_key_def reservationTTL_def)
  from redis_reservation_exclusive [OF expiring_documented r this, of 7 "''r2''"] r show ?thesis
    by (simp add: reservationTTL_def del: redis_res_step.simps fold_simps)
qed

end
