(* ===== verification/Shared_Databases.thy ===== *)
theory Shared_Databases
  imports Concurrent_Runs Postgres_Store Redis_Store
begin

section \<open>Several instances of the service on one database\<close>

text \<open>
  A Postgres or a Redis can be shared by several instances of the service, whose runs then take turns
  on it: the machine of \<open>Interleaving\<close>, where a turn is a statement of the one and a command of the other.
  The clocks are in step.
\<close>





end
