(* ===== verification/Url_Forms.thy ===== *)
theory Url_Forms
  imports Httputil
begin

section \<open>Forms and queries: \<open>net/url\<close>, \<open>ParseForm\<close> and \<open>ExtractFields\<close>\<close>

text \<open>
  How a request that comes in is read: the decoding of a query or a form (the other direction of
  \<open>form_Encode\<close>), \<open>http.Request.ParseForm\<close> on it, and the rest of \<open>pkg/httputil\<close>, which turns a
  request into flat fields. Of a request the record holds what the code reads: \<open>wq_Body\<close> is what
  \<open>io.ReadAll\<close> gives (the server never hands out a nil body), \<open>wq_MediaType\<close> what
  \<open>mime.ParseMediaType\<close> says of the content type.
\<close>

subsection \<open>Decoding\<close>

definition hex_val :: "char \<Rightarrow> nat option" where
  "hex_val c =
     (if byte_in 48 57 c then Some (of_char c - 48)
      else if byte_in 97 102 c then Some (of_char c - 87)
      else if byte_in 65 70 c then Some (of_char c - 55)
      else None)"

fun QueryUnescape :: "string \<Rightarrow> string + string" where
  "QueryUnescape [] = Inr []"
| "QueryUnescape (c # s) =
     (if c = CHR ''%'' then
        (case s of
           a # b # r \<Rightarrow>
             (case (hex_val a, hex_val b) of
                (Some x, Some y) \<Rightarrow>
                  (case QueryUnescape r of Inl err \<Rightarrow> Inl err | Inr t \<Rightarrow> Inr (char_of (16 * x + y) # t))
              | _ \<Rightarrow> Inl (''invalid URL escape '' @ Quote (take 3 (c # s))))
         | _ \<Rightarrow> Inl (''invalid URL escape '' @ Quote (take 3 (c # s))))
      else
        (case QueryUnescape s of
           Inl err \<Rightarrow> Inl err
         | Inr t \<Rightarrow> Inr ((if c = CHR ''+'' then CHR '' '' else c) # t)))"

type_synonym url_values = "(string, string list) gomap"

definition values_Get :: "url_values \<Rightarrow> string \<Rightarrow> string" where
  "values_Get m k = (case map_of m k of Some (v # vs) \<Rightarrow> v | _ \<Rightarrow> [])"

definition values_Add :: "string \<Rightarrow> string \<Rightarrow> url_values \<Rightarrow> url_values" where
  "values_Add k v m = AList.update k ((case map_of m k of None \<Rightarrow> [] | Some vs \<Rightarrow> vs) @ [v]) m"

text \<open>\<open>strings.Cut\<close> at a byte.\<close>

definition cut :: "char \<Rightarrow> string \<Rightarrow> string \<times> string" where
  "cut c s = (takeWhile (\<lambda>x. x \<noteq> c) s, tl (dropWhile (\<lambda>x. x \<noteq> c) s))"

lemma cut_shorter: "s \<noteq> [] \<Longrightarrow> length (snd (cut c s)) < length s"
proof -
  assume "s \<noteq> []"
  then have "0 < length s" by simp
  moreover have "length (dropWhile (\<lambda>x. x \<noteq> c) s) \<le> length s" by (rule length_dropWhile_le)
  ultimately have "length (dropWhile (\<lambda>x. x \<noteq> c) s) - 1 < length s" by linarith
  then show ?thesis by (simp add: cut_def)
qed

lemma cut_append: "c \<notin> set a \<Longrightarrow> cut c (a @ c # b) = (a, b)"
proof -
  assume "c \<notin> set a"
  then have "\<forall>x \<in> set a. x \<noteq> c" by blast
  then have "takeWhile (\<lambda>x. x \<noteq> c) (a @ c # b) = a" "dropWhile (\<lambda>x. x \<noteq> c) (a @ c # b) = c # b"
    by (simp_all add: takeWhile_append dropWhile_append)
  then show ?thesis by (simp add: cut_def)
qed

lemma cut_all: "c \<notin> set a \<Longrightarrow> cut c a = (a, [])"
proof -
  assume "c \<notin> set a"
  then have "\<forall>x \<in> set a. x \<noteq> c" by blast
  then have "takeWhile (\<lambda>x. x \<noteq> c) a = a" "dropWhile (\<lambda>x. x \<noteq> c) a = []"
    by (simp_all only: takeWhile_eq_all_conv dropWhile_eq_Nil_conv)
  then show ?thesis by (simp only: cut_def list.sel)
qed

text \<open>\<open>parseQuery\<close>: what it could read, and the error (the first one, unless a later piece holds a
  semicolon).\<close>

function ParseQuery_loop :: "string \<Rightarrow> url_values \<Rightarrow> string option \<Rightarrow> url_values \<times> string option" where
  "ParseQuery_loop query m err =
     (if query = [] then (m, err)
      else let (key, query') = cut CHR ''&'' query in
        if CHR '';'' \<in> set key then ParseQuery_loop query' m (Some ''invalid semicolon separator in query'')
        else if key = [] then ParseQuery_loop query' m err
        else let (key, val) = cut CHR ''='' key in
          case QueryUnescape key of
            Inl e \<Rightarrow> ParseQuery_loop query' m (if err = None then Some e else err)
          | Inr key \<Rightarrow>
              (case QueryUnescape val of
                 Inl e \<Rightarrow> ParseQuery_loop query' m (if err = None then Some e else err)
               | Inr val \<Rightarrow> ParseQuery_loop query' (values_Add key val m) err))"
  by pat_completeness auto
termination
  by (relation "measure (\<lambda>(query, m, err). length query)") (use cut_shorter in \<open>auto, (metis snd_conv)+\<close>)

declare ParseQuery_loop.simps [simp del]

definition ParseQuery :: "string \<Rightarrow> url_values \<times> string option" where
  "ParseQuery query = ParseQuery_loop query [] None"

subsection \<open>Requests\<close>

record WebhookRequest =
  wq_Method :: string
  wq_Path :: string
  wq_RawQuery :: string
  wq_Header :: url_values
  wq_MediaType :: "string \<times> string option"
  wq_Body :: "string + string"

text \<open>\<open>req.Header.Get\<close>.\<close>

definition header_Get :: "WebhookRequest \<Rightarrow> string \<Rightarrow> string" where
  "header_Get req name = values_Get (wq_Header req) (CanonicalHeaderKey name)"

text \<open>\<open>req.URL.Query()\<close> drops the error.\<close>

definition url_Query :: "WebhookRequest \<Rightarrow> url_values" where
  "url_Query req = fst (ParseQuery (wq_RawQuery req))"

definition copyValues :: "url_values \<Rightarrow> url_values \<Rightarrow> url_values" where
  "copyValues dst src = fold (\<lambda>(k, vs) m. AList.update k ((case map_of m k of None \<Rightarrow> [] | Some us \<Rightarrow> us) @ vs) m) src dst"

definition maxFormSize :: nat where "maxFormSize = 10 * 1024 * 1024"

text \<open>\<open>parsePostForm\<close>. The body of a form in parts (\<open>multipart/form-data\<close>) is not read here.\<close>

definition parsePostForm :: "WebhookRequest \<Rightarrow> url_values \<times> string option" where
  "parsePostForm req =
     (let (ct, err) = wq_MediaType req in
      if ct = ''application/x-www-form-urlencoded'' then
        (case wq_Body req of
           Inl e \<Rightarrow> ([], Some (case err of None \<Rightarrow> e | Some x \<Rightarrow> x))
         | Inr b \<Rightarrow>
             if maxFormSize < length b then ([], Some ''http: POST too large'')
             else (let (vs, e) = ParseQuery b in (vs, case err of None \<Rightarrow> e | Some x \<Rightarrow> Some x)))
      else ([], err))"

definition ParseForm :: "WebhookRequest \<Rightarrow> url_values \<times> string option" where
  "ParseForm req =
     (let (post, err) = (if wq_Method req \<in> {''POST'', ''PUT'', ''PATCH''} then parsePostForm req else ([], None));
          (query, e) = ParseQuery (wq_RawQuery req)
      in (copyValues post query, case err of None \<Rightarrow> e | Some x \<Rightarrow> Some x))"

subsection \<open>\<open>ExtractFields\<close>\<close>

text \<open>The result is the fields, the raw body (\<open>None\<close> for a nil slice) and the error.\<close>

type_synonym extracted = "strmap \<times> string option \<times> gerror option"

definition extractJSON :: "lib \<Rightarrow> WebhookRequest \<Rightarrow> entropy \<Rightarrow> extracted \<times> entropy" where
  "extractJSON L req e =
     (case wq_Body req of
        Inl err \<Rightarrow> (([], None, Some (errorf ErrInternal (''failed to read request body: '' @ err))), e)
      | Inr raw \<Rightarrow>
          (case lib_unmarshal L raw of
             Inl err \<Rightarrow> (([], Some raw, Some (errorf ErrValidation (''failed to parse JSON payload: '' @ err))), e)
           | Inr payload \<Rightarrow> (let (fields, e) = flattenMap L [] payload e in ((fields, Some raw, None), e))))"

text \<open>The loop over the form: keys that differ only in case are one field, and the last one of the
  order of the run wins.\<close>

definition form_fields :: "(string \<times> string list) list \<Rightarrow> strmap" where
  "form_fields form = fold (\<lambda>(k, vs). AList.update (ToLower k) (Join vs '','')) form []"

definition extractForm :: "lib \<Rightarrow> WebhookRequest \<Rightarrow> entropy \<Rightarrow> extracted \<times> entropy" where
  "extractForm L req e =
     (let (form, err) = ParseForm req in
      case err of
        Some x \<Rightarrow> (([], None, Some (errorf ErrValidation (''failed to parse form payload: '' @ x))), e)
      | None \<Rightarrow>
          (let (ord, e) = go_range form e;
               fields = form_fields ord;
               raw = (case json_Marshal L (VMap (map (\<lambda>(k, v). (k, VStr v)) fields)) of Inl err \<Rightarrow> None | Inr b \<Rightarrow> Some b)
           in ((fields, raw, None), e)))"

definition ExtractFields :: "lib \<Rightarrow> WebhookRequest \<Rightarrow> entropy \<Rightarrow> extracted \<times> entropy" where
  "ExtractFields L req e =
     (if Contains (ToLower (header_Get req ''Content-Type'')) ''application/json''
      then extractJSON L req e else extractForm L req e)"

subsection \<open>Decoding is the inverse of encoding\<close>

lemma hex_val_upper_hex: "d < 16 \<Longrightarrow> hex_val (upper_hex d) = Some d"
  by (auto simp: hex_val_def upper_hex_def byte_in_def)

lemma escape_plain: "is_alnum c \<or> c \<in> set ''-_.~'' \<Longrightarrow> c \<noteq> CHR ''%'' \<and> c \<noteq> CHR ''+'' \<and> c \<noteq> CHR ''&'' \<and> c \<noteq> CHR ''='' \<and> c \<noteq> CHR '';''"
  by (auto simp: is_alnum_def byte_in_def)

lemma unescape_char: "QueryUnescape (escape_char c @ s) = map_sum id ((#) c) (QueryUnescape s)"
proof (cases "is_alnum c \<or> c \<in> set ''-_.~''")
  case True
  then have "escape_char c = [c]" by (simp add: escape_char_def)
  with escape_plain [OF True] show ?thesis by (simp split: sum.split)
next
  case False
  show ?thesis
  proof (cases "c = CHR '' ''")
    case True
    with False show ?thesis by (simp add: escape_char_def split: sum.split)
  next
    case other: False
    have "(of_char c :: nat) < 256" by simp
    then have "(of_char c :: nat) div 16 < 16" by (simp add: less_mult_imp_div_less)
    moreover have "char_of (16 * ((of_char c :: nat) div 16) + of_char c mod 16) = c" by simp
    ultimately show ?thesis
      using False other by (simp add: escape_char_def hex_val_upper_hex split: sum.split)
  qed
qed

lemma QueryUnescape_QueryEscape [simp]: "QueryUnescape (QueryEscape s) = Inr s"
  by (induction s) (simp_all add: QueryEscape_def unescape_char)

lemma QueryEscape_separators: "x \<in> set ''&=;'' \<Longrightarrow> x \<notin> set (QueryEscape s)"
proof -
  assume x: "x \<in> set ''&=;''"
  have "x \<notin> set (escape_char c)" for c
  proof -
    have "(of_char c :: nat) < 256" by simp
    then have "(of_char c :: nat) div 16 < 16" by (simp add: less_mult_imp_div_less)
    then have "x \<noteq> upper_hex (of_char c div 16)" "x \<noteq> upper_hex (of_char c mod 16)"
      using x hex_val_upper_hex [of "of_char c div 16"] hex_val_upper_hex [of "of_char c mod 16"]
      by (auto simp: hex_val_def byte_in_def)
    with x escape_plain [of c] show ?thesis by (auto simp: escape_char_def)
  qed
  then show ?thesis by (simp add: QueryEscape_def)
qed

definition form_piece :: "string \<times> string \<Rightarrow> string" where
  "form_piece = (\<lambda>(k, v). QueryEscape k @ ''='' @ QueryEscape v)"

lemma form_piece_separators: "CHR ''&'' \<notin> set (form_piece kv)" "CHR '';'' \<notin> set (form_piece kv)" "form_piece kv \<noteq> []"
  using QueryEscape_separators by (auto simp: form_piece_def split_beta)

lemma form_piece_cut: "cut CHR ''='' (form_piece (k, v)) = (QueryEscape k, QueryEscape v)"
  using QueryEscape_separators [of "CHR ''=''"] by (simp add: form_piece_def cut_append)

lemma ParseQuery_piece:
  assumes "query = form_piece (k, v) \<and> rest = [] \<or> query = form_piece (k, v) @ CHR ''&'' # rest"
  shows "ParseQuery_loop query m err = ParseQuery_loop rest (values_Add k v m) err"
proof -
  have c: "cut CHR ''&'' query = (form_piece (k, v), rest)" "query \<noteq> []"
    using assms form_piece_separators [of "(k, v)"] by (auto simp: cut_append cut_all)
  show ?thesis
    by (subst ParseQuery_loop.simps) (simp add: c form_piece_separators form_piece_cut)
qed

lemma ParseQuery_pieces:
  "ParseQuery_loop (Join (map form_piece kvs) ''&'') m err = (fold (\<lambda>(k, v). values_Add k v) kvs m, err)"
proof (induction kvs arbitrary: m)
  case Nil
  then show ?case by (simp add: ParseQuery_loop.simps)
next
  case (Cons kv kvs)
  obtain k v where kv: "kv = (k, v)" by (cases kv)
  let ?rest = "Join (map form_piece kvs) ''&''"
  have "Join (map form_piece (kv # kvs)) ''&'' = form_piece (k, v) \<and> ?rest = []
      \<or> Join (map form_piece (kv # kvs)) ''&'' = form_piece (k, v) @ CHR ''&'' # ?rest"
    using kv by (cases kvs) simp_all
  from ParseQuery_piece [OF this] Cons.IH show ?case by (simp add: kv)
qed

text \<open>Reading what \<open>form_Encode\<close> has written gives the same form, with one value for each key.\<close>

lemma fold_values_Add:
  assumes "go_wf kvs" and "\<forall>k \<in> fst ` set kvs. map_of m k = None"
  shows "map_of (fold (\<lambda>(k, v). values_Add k v) kvs m) = map_of m ++ (\<lambda>k. map_option (\<lambda>v. [v]) (map_of kvs k))"
  using assms
proof (induction kvs arbitrary: m)
  case Nil
  then show ?case by (simp add: map_add_def)
next
  case (Cons kv kvs)
  obtain k v where kv: "kv = (k, v)" by (cases kv)
  have add: "map_of (values_Add k v m) = (map_of m)(k \<mapsto> [v])" using Cons.prems(2) kv by (simp add: values_Add_def)
  have "\<forall>k' \<in> fst ` set kvs. map_of (values_Add k v m) k' = None"
    using Cons.prems kv by (auto simp: add)
  with Cons.IH [of "values_Add k v m"] Cons.prems(1)
  have "map_of (fold (\<lambda>(k, v). values_Add k v) (kv # kvs) m) =
      (map_of m)(k \<mapsto> [v]) ++ (\<lambda>k. map_option (\<lambda>v. [v]) (map_of kvs k))"
    unfolding kv by (simp add: add del: fun_upd_apply)
  moreover have "map_of kvs k = None" using Cons.prems(1) kv by (simp add: map_of_eq_None_iff)
  ultimately show ?case by (auto simp: kv map_add_def fun_eq_iff split: option.splits)
qed

lemma sort_keys_go_wf: "go_wf (sort_keys form) = go_wf form"
proof -
  have "mset (map fst (sort_keys form)) = mset (map fst form)"
    unfolding mset_map by (simp add: sort_keys_def)
  then show ?thesis by (metis mset_eq_imp_distinct_iff)
qed

lemma map_of_sort_keys: "go_wf form \<Longrightarrow> map_of (sort_keys form) = map_of form"
  using sort_keys_go_wf [of form] by (intro map_of_inject_set [THEN iffD2]) (simp_all add: sort_keys_def)

lemma ParseQuery_form_Encode:
  assumes "go_wf form"
  shows "snd (ParseQuery (form_Encode form)) = None"
    and "map_of (fst (ParseQuery (form_Encode form))) = (\<lambda>k. map_option (\<lambda>v. [v]) (map_of form k))"
proof -
  have p: "ParseQuery (form_Encode form) = (fold (\<lambda>(k, v). values_Add k v) (sort_keys form) [], None)"
    using ParseQuery_pieces [of "sort_keys form" "[]" None] by (simp add: ParseQuery_def form_Encode_def form_piece_def)
  then show "snd (ParseQuery (form_Encode form)) = None" by simp
  show "map_of (fst (ParseQuery (form_Encode form))) = (\<lambda>k. map_option (\<lambda>v. [v]) (map_of form k))"
    using fold_values_Add [of "sort_keys form" "[]"] assms by (simp add: p sort_keys_go_wf map_of_sort_keys map_add_def)
qed

lemma go_wf_ParseQuery: "go_wf m \<Longrightarrow> go_wf (fst (ParseQuery_loop query m err))"
proof (induction query arbitrary: m err rule: measure_induct_rule [of length])
  case (less query)
  obtain key query' where c: "cut CHR ''&'' query = (key, query')" by fastforce
  show ?case
  proof (cases "query = []")
    case True
    with less.prems show ?thesis by (simp add: ParseQuery_loop.simps)
  next
    case False
    with cut_shorter [of query "CHR ''&''"] c have "length query' < length query" by simp
    note IH = less.IH [OF this]
    show ?thesis
      using less.prems False c
      by (subst ParseQuery_loop.simps) (simp add: IH values_Add_def split_beta split: sum.splits)
  qed
qed

text \<open>A loop that writes under distinct names.\<close>

lemma map_of_fold_update:
  assumes "distinct (map f xs)"
  shows "map_of (fold (\<lambda>x. AList.update (f x) (g x)) xs m) = map_of m ++ map_of (map (\<lambda>x. (f x, g x)) xs)"
  using assms
proof (induction xs arbitrary: m)
  case Nil
  then show ?case by simp
next
  case (Cons x xs)
  have "dom (map_of (map (\<lambda>x. (f x, g x)) xs)) = f ` set xs"
    by (simp add: dom_map_of_conv_image_fst image_image)
  with Cons.prems have n: "f x \<notin> dom (map_of (map (\<lambda>x. (f x, g x)) xs))" by simp
  from Cons show ?case
    by (simp add: map_add_upd_left [OF n] del: fun_upd_apply)
qed

lemma go_wf_fold_update: "go_wf m \<Longrightarrow> go_wf (fold (\<lambda>x. AList.update (f x) (g x)) xs m)"
  by (induction xs arbitrary: m) simp_all

text \<open>The fields of a form are the values of its keys in lower case, if no two keys differ only in
  case.\<close>

lemma map_of_form_fields:
  assumes "distinct (map (ToLower \<circ> fst) form)"
  shows "go_wf (form_fields form)"
    and "map_of (form_fields form) = map_of (map (\<lambda>(k, vs). (ToLower k, Join vs '','')) form)"
proof -
  have e: "(\<lambda>(k, vs). AList.update (ToLower k) (Join vs '','')) =
      (\<lambda>x. AList.update ((ToLower \<circ> fst) x) (Join (snd x) '',''))" by (auto simp: fun_eq_iff)
  show "go_wf (form_fields form)" unfolding form_fields_def e by (rule go_wf_fold_update) simp
  show "map_of (form_fields form) = map_of (map (\<lambda>(k, vs). (ToLower k, Join vs '','')) form)"
    unfolding form_fields_def e map_of_fold_update [OF assms] by (simp add: case_prod_unfold)
qed

lemma distinct_map_lower:
  assumes "go_wf m" and "inj_on ToLower (fst ` set m)"
  shows "distinct (map (ToLower \<circ> fst) m)"
  using assms by (simp add: distinct_map comp_inj_on flip: map_map)

lemma form_read:
  assumes "go_wf form" and "inj_on ToLower (fst ` set form)"
    and "wq_Method req = ''POST''" and "wq_MediaType req = (''application/x-www-form-urlencoded'', None)"
    and "wq_RawQuery req = []" and "wq_Body req = Inr (form_Encode form)" and "length (form_Encode form) \<le> maxFormSize"
    and "\<not> Contains (ToLower (header_Get req ''Content-Type'')) ''application/json''"
  shows "\<exists>fields raw e'. ExtractFields L req e = ((fields, raw, None), e') \<and> go_wf fields
     \<and> map_of fields = map_of (map (\<lambda>(k, v). (ToLower k, v)) form)"
proof -
  let ?vs = "fst (ParseQuery (form_Encode form))"
  note parsed = ParseQuery_form_Encode [OF assms(1)]
  have "ParseQuery [] = ([], None)" by (simp add: ParseQuery_def ParseQuery_loop.simps)
  then have pf: "ParseForm req = (?vs, None)"
    using assms(3-7) parsed(1) by (simp add: ParseForm_def parsePostForm_def copyValues_def split_beta)
  have wf: "go_wf ?vs" using go_wf_ParseQuery [of "[]"] by (simp add: ParseQuery_def)
  obtain ord e1 where ord: "go_range ?vs e = (ord, e1)" by fastforce
  have set_vs: "set ord = (\<lambda>(k, v). (k, [v])) ` set form"
  proof -
    have "(k, us) \<in> set ?vs \<longleftrightarrow> (\<exists>v. us = [v] \<and> (k, v) \<in> set form)" for k us
      using map_of_eq_Some_iff [OF wf, of k us] map_of_eq_Some_iff [OF assms(1), of k] parsed(2) by auto
    moreover have "set ord = set ?vs" using set_go_range [of ?vs e] ord by simp
    ultimately show ?thesis by (fastforce simp: image_iff)
  qed
  then have keys: "fst ` set ord = fst ` set form" by (force simp: image_image split_beta)
  have "go_wf ord" using distinct_keys_go_range [of ?vs e] ord wf by simp
  with keys assms(2) have dl: "distinct (map (ToLower \<circ> fst) ord)" by (simp add: distinct_map_lower)
  note ff = map_of_form_fields [OF dl]
  have "map_of (map (\<lambda>(k, vs). (ToLower k, Join vs '','')) ord) = map_of (map (\<lambda>(k, v). (ToLower k, v)) form)"
  proof (rule map_of_inject_set [THEN iffD2])
    show "go_wf (map (\<lambda>(k, vs). (ToLower k, Join vs '','')) ord)" using dl by (simp add: comp_def split_beta)
    show "go_wf (map (\<lambda>(k, v). (ToLower k, v)) form)"
      using distinct_map_lower [OF assms(1,2)] by (simp add: comp_def split_beta)
    show "set (map (\<lambda>(k, vs). (ToLower k, Join vs '','')) ord) = set (map (\<lambda>(k, v). (ToLower k, v)) form)"
      by (simp add: set_vs image_image split_beta)
  qed
  with ff assms(8) pf ord show ?thesis
    by (simp add: ExtractFields_def extractForm_def Let_def)
qed

text \<open>C29 (form_roundtrip): a form that the trigger, the polling receiver or anyone else has encoded
  is read back by the webhook endpoint field by field, with the names in lower case, whatever bytes it
  holds and in whatever order the maps are visited, if no two names differ only in case.\<close>

theorem form_roundtrip:
  assumes "go_wf form" and "inj_on ToLower (fst ` set form)"
    and "wq_Method req = ''POST''" and "wq_MediaType req = (''application/x-www-form-urlencoded'', None)"
    and "wq_RawQuery req = []" and "wq_Body req = Inr (form_Encode form)" and "length (form_Encode form) \<le> maxFormSize"
    and "\<not> Contains (ToLower (header_Get req ''Content-Type'')) ''application/json''"
  shows "\<exists>fields raw e'. ExtractFields L req e = ((fields, raw, None), e') \<and> go_wf fields
     \<and> map_of fields = map_of (map (\<lambda>(k, v). (ToLower k, v)) form)"
  using assms by (rule form_read)

definition example_form_request :: WebhookRequest where
  "example_form_request =
     \<lparr>wq_Method = ''POST'', wq_Path = ''/webhook/twilio'', wq_RawQuery = [],
      wq_Header = [(''Content-Type'', [''application/x-www-form-urlencoded''])],
      wq_MediaType = (''application/x-www-form-urlencoded'', None), wq_Body = Inr (form_Encode [(''Body'', ''a b&c'')])\<rparr>"

lemma example_form_not_json: "\<not> Contains (ToLower (header_Get example_form_request ''Content-Type'')) ''application/json''"
proof -
  have "CanonicalHeaderKey ''Content-Type'' = ''Content-Type''"
    by (simp add: CanonicalHeaderKey_def is_token_char_def is_alnum_def byte_in_def upper_char_def lower_char_def)
  then show ?thesis
    by (simp add: example_form_request_def header_Get_def values_Get_def ToLower_def lower_char_def Contains.simps)
qed

theorem form_roundtrip_witness:
  "\<exists>fields raw e'. ExtractFields example_lib example_form_request (\<lambda>_. 0) = ((fields, raw, None), e')
     \<and> map_of fields ''body'' = Some ''a b&c''"
proof -
  have l: "length (form_Encode [(''Body'', ''a b&c'')]) \<le> maxFormSize"
    by (simp add: form_Encode_def sort_keys_def QueryEscape_def escape_char_def is_alnum_def byte_in_def maxFormSize_def)
  have c: "ToLower ''Body'' = ''body''" by (simp add: ToLower_def lower_char_def char_of_def bit_simps)
  have "\<exists>fields raw e'. ExtractFields example_lib example_form_request (\<lambda>_. 0) = ((fields, raw, None), e') \<and> go_wf fields
     \<and> map_of fields = map_of (map (\<lambda>(k, v). (ToLower k, v)) [(''Body'', ''a b&c'')])"
    by (rule form_roundtrip [OF _ _ _ _ _ _ l example_form_not_json]) (simp_all add: example_form_request_def)
  with c show ?thesis by auto
qed

end
