(* ===== verification/Log_Events.thy ===== *)
theory Log_Events
  imports Config
begin

section \<open>The logger: \<open>internal/pkg/logger\<close>\<close>

text \<open>
  The other theories leave log lines out; this one models the package that makes them. A pointer that may
  be nil is an option. What \<open>log/slog\<close> does with a record is the filter by the level of its handler: a
  record below it is dropped. A line that is written is the level, the message and the attributes, those
  of the logger first. The level numbers are those of \<open>slog\<close>.
\<close>

definition LevelDebug :: int where "LevelDebug = - 4"
definition LevelInfo :: int where "LevelInfo = 0"
definition LevelWarn :: int where "LevelWarn = 4"
definition LevelError :: int where "LevelError = 8"

text \<open>The keys of the attributes that the model uses, and where a run comes from.\<close>

definition AttrComponent :: string where "AttrComponent = ''component''"
definition AttrRunID :: string where "AttrRunID = ''run_id''"
definition AttrTestID :: string where "AttrTestID = ''test_id''"
definition AttrSource :: string where "AttrSource = ''source''"
definition AttrStatus :: string where "AttrStatus = ''status''"
definition AttrRespStatus :: string where "AttrRespStatus = ''resp_status''"
definition AttrDurationMS :: string where "AttrDurationMS = ''duration_ms''"
definition AttrMethod :: string where "AttrMethod = ''method''"
definition AttrPath :: string where "AttrPath = ''path''"
definition AttrStoreType :: string where "AttrStoreType = ''store_type''"
definition AttrError :: string where "AttrError = ''error''"

lemmas attr_defs = AttrComponent_def AttrRunID_def AttrTestID_def AttrSource_def AttrStatus_def AttrRespStatus_def AttrDurationMS_def AttrMethod_def AttrPath_def AttrStoreType_def AttrError_def

definition ApiFlow :: string where "ApiFlow = ''api''"
definition SequenceFlow :: string where "SequenceFlow = ''sequence''"
definition CronFlow :: string where "CronFlow = ''cron''"

subsection \<open>The configuration\<close>

record log_config =
  lc_level :: int
  lc_format :: string

definition default_log_config :: log_config where
  "default_log_config = \<lparr>lc_level = LevelInfo, lc_format = ''json''\<rparr>"

definition parseLevel :: "string \<Rightarrow> gerror + int" where
  "parseLevel level =
     (if level = [] \<or> level = ''info'' then Inr LevelInfo
      else if level = ''debug'' then Inr LevelDebug
      else if level = ''warn'' then Inr LevelWarn
      else if level = ''error'' then Inr LevelError
      else Inl (GErr [] (''unknown log level '' @ Quote level @ '' (supported: debug, info, warn, error)'')))"

text \<open>The new configuration, where there is no error.\<close>

definition Configure :: "string \<Rightarrow> string \<Rightarrow> gerror + log_config" where
  "Configure level format =
     (case parseLevel level of
        Inl err \<Rightarrow> Inl err
      | Inr lvl \<Rightarrow>
          if format = [] then Inr \<lparr>lc_level = lvl, lc_format = ''json''\<rparr>
          else if format = ''json'' \<or> format = ''text'' then Inr \<lparr>lc_level = lvl, lc_format = format\<rparr>
          else Inl (GErr [] (''unknown log format '' @ Quote format @ '' (supported: json, text)'')))"

subsection \<open>Loggers\<close>

datatype log_value = LStr string | LInt int | LBool bool | LAny goval

type_synonym log_attrs = "(string \<times> log_value) list"

datatype log_handler = TextHandler int | JSONHandler int

fun handler_level :: "log_handler \<Rightarrow> int" where
  "handler_level (TextHandler l) = l"
| "handler_level (JSONHandler l) = l"

record Logger =
  lo_handler :: log_handler
  lo_attrs :: log_attrs

definition newHandler :: "log_config \<Rightarrow> log_handler" where
  "newHandler cfg = (if lc_format cfg = ''text'' then TextHandler (lc_level cfg) else JSONHandler (lc_level cfg))"

definition NewWithHandler :: "log_handler option \<Rightarrow> Logger option" where
  "NewWithHandler h = (case h of None \<Rightarrow> None | Some x \<Rightarrow> Some \<lparr>lo_handler = x, lo_attrs = []\<rparr>)"

definition With :: "log_attrs \<Rightarrow> Logger option \<Rightarrow> Logger option" where
  "With args l = map_option (\<lambda>x. x\<lparr>lo_attrs := lo_attrs x @ args\<rparr>) l"

definition newWith :: "log_config \<Rightarrow> string \<Rightarrow> Logger option" where
  "newWith cfg name =
     (let l = NewWithHandler (Some (newHandler cfg)) in
      if name \<noteq> [] \<and> l \<noteq> None then With [(AttrComponent, LStr name)] l else l)"

text \<open>\<open>New\<close> reads the active configuration.\<close>

definition NewLogger :: "log_config \<Rightarrow> string \<Rightarrow> Logger option" where
  "NewLogger active name = newWith active name"

definition Enabled :: "Logger option \<Rightarrow> int \<Rightarrow> bool" where
  "Enabled l level \<longleftrightarrow> (case l of None \<Rightarrow> False | Some x \<Rightarrow> handler_level (lo_handler x) \<le> level)"

subsection \<open>Events\<close>

record Event =
  le_l :: "Logger option"
  le_level :: int
  le_fatal :: bool
  le_args :: log_attrs

definition Logger_Event :: "int \<Rightarrow> Logger option \<Rightarrow> Event" where
  "Logger_Event level l = \<lparr>le_l = l, le_level = level, le_fatal = False, le_args = []\<rparr>"

definition Logger_Debug :: "Logger option \<Rightarrow> Event" where "Logger_Debug l = Logger_Event LevelDebug l"
definition Logger_Info :: "Logger option \<Rightarrow> Event" where "Logger_Info l = Logger_Event LevelInfo l"
definition Logger_Warn :: "Logger option \<Rightarrow> Event" where "Logger_Warn l = Logger_Event LevelWarn l"
definition Logger_Error :: "Logger option \<Rightarrow> Event" where "Logger_Error l = Logger_Event LevelError l"

definition Logger_Fatal :: "Logger option \<Rightarrow> Event" where
  "Logger_Fatal l = (Logger_Event LevelError l)\<lparr>le_fatal := True\<rparr>"

definition Event_append :: "string \<Rightarrow> log_value \<Rightarrow> Event option \<Rightarrow> Event option" where
  "Event_append key v e = map_option (\<lambda>x. x\<lparr>le_args := le_args x @ [(key, v)]\<rparr>) e"

definition Event_Str :: "string \<Rightarrow> string \<Rightarrow> Event option \<Rightarrow> Event option" where
  "Event_Str key v e = Event_append key (LStr v) e"

definition Event_Int :: "string \<Rightarrow> int \<Rightarrow> Event option \<Rightarrow> Event option" where
  "Event_Int key v e = Event_append key (LInt v) e"

definition Event_Bool :: "string \<Rightarrow> bool \<Rightarrow> Event option \<Rightarrow> Event option" where
  "Event_Bool key v e = Event_append key (LBool v) e"

definition Event_Duration :: "string \<Rightarrow> int \<Rightarrow> Event option \<Rightarrow> Event option" where
  "Event_Duration key v e = Event_append key (LInt (Milliseconds v)) e"

definition Event_Any :: "string \<Rightarrow> goval \<Rightarrow> Event option \<Rightarrow> Event option" where
  "Event_Any key v e = Event_append key (LAny v) e"

definition Event_Err :: "gerror option \<Rightarrow> Event option \<Rightarrow> Event option" where
  "Event_Err err e = (case err of None \<Rightarrow> e | Some x \<Rightarrow> Event_append AttrError (LStr (etext x)) e)"

text \<open>The line that is written, if any, and whether the process exits.\<close>

type_synonym log_line = "int \<times> string \<times> log_attrs"

definition Event_Msg :: "string \<Rightarrow> Event option \<Rightarrow> log_line option \<times> bool" where
  "Event_Msg msg e =
     (case e of
        None \<Rightarrow> (None, False)
      | Some x \<Rightarrow>
          (case le_l x of
             None \<Rightarrow> (None, False)
           | Some l \<Rightarrow>
               (if handler_level (lo_handler l) \<le> le_level x
                then Some (le_level x, msg, lo_attrs l @ le_args x) else None,
                le_fatal x)))"

subsection \<open>The line of a run\<close>

text \<open>\<open>logRunFinished\<close> of the orchestrator (\<open>core/services/orchestrator.go\<close>): the line that closes every run. A chain
  is one event that its methods extend in place.\<close>

definition logRunFinished :: "Logger option \<Rightarrow> string \<Rightarrow> TestResult \<Rightarrow> log_line option" where
  "logRunFinished lg flow result =
     (let e = Event_Int ''attempts'' (int (tr_Attempts result))
               (Event_Int AttrDurationMS (tr_DurationMs result)
               (Event_Str AttrStatus (status_text (tr_Status result))
               (Event_Str AttrSource flow
               (Event_Str AttrTestID (tr_TestID result)
               (Event_Str AttrRunID (tr_RunID result)
               (Some (Logger_Event (runStatusLevel (tr_Status result)) lg)))))));
          e = (if tr_Error result \<noteq> [] then Event_Str AttrError (tr_Error result) e else e)
      in fst (Event_Msg ''Test run finished'' e))"

subsection \<open>What is written\<close>

lemma parseLevel_values: "parseLevel level = Inr l \<Longrightarrow> l \<in> {LevelDebug, LevelInfo, LevelWarn, LevelError}"
  by (auto simp: parseLevel_def split: if_splits)

lemma Configure_ok:
  "Configure level format = Inr cfg \<longleftrightarrow>
     parseLevel level = Inr (lc_level cfg) \<and> format \<in> {[], ''json'', ''text''}
     \<and> lc_format cfg = (if format = [] then ''json'' else format)"
  by (cases cfg) (auto simp: Configure_def split: sum.splits if_splits)

lemma Configure_level: "Configure level format = Inr cfg \<Longrightarrow> lc_level cfg \<le> LevelError"
  by (auto simp: Configure_ok LevelDebug_def LevelInfo_def LevelWarn_def LevelError_def dest!: parseLevel_values)

lemma newWith_Some:
  "\<exists>l. newWith cfg name = Some l \<and> handler_level (lo_handler l) = lc_level cfg
     \<and> lo_attrs l = (if name = [] then [] else [(''component'', LStr name)])"
  by (simp add: newWith_def NewWithHandler_def With_def newHandler_def attr_defs Let_def)

text \<open>What a chain of field methods does: it adds attributes and nothing else.\<close>

definition chain :: "log_attrs \<Rightarrow> Event option \<Rightarrow> Event option" where
  "chain args e = fold (\<lambda>(k, v). Event_append k v) args e"

lemma chain_Some: "chain args (Some x) = Some (x\<lparr>le_args := le_args x @ args\<rparr>)"
  by (induction args arbitrary: x) (auto simp: chain_def Event_append_def)

lemma field_methods:
  "Event_Str k s e = chain [(k, LStr s)] e" "Event_Int k i e = chain [(k, LInt i)] e"
  "Event_Bool k b e = chain [(k, LBool b)] e" "Event_Duration k i e = chain [(k, LInt (Milliseconds i))] e"
  "Event_Any k v e = chain [(k, LAny v)] e"
  "Event_Err err e = chain (case err of None \<Rightarrow> [] | Some x \<Rightarrow> [(''error'', LStr (etext x))]) e"
  by (auto simp: chain_def Event_Str_def Event_Int_def Event_Bool_def Event_Duration_def Event_Any_def Event_Err_def attr_defs
      split: option.splits)

subsection \<open>Properties\<close>

text \<open>Once the logger is configured, an event of a logger that a component makes is
  written exactly when its level is at least the configured one, with the component and the attributes of
  the chain in order; errors are always written, and exactly the fatal events end the process. A nil logger
  writes nothing and its fatal events do not end the process.\<close>

theorem log_lines:
  assumes "Configure level format = Inr cfg"
  shows "Event_Msg msg (chain args (Some (Logger_Event lvl (NewLogger cfg name)))) =
       (if lc_level cfg \<le> lvl
        then Some (lvl, msg, (if name = [] then [] else [(''component'', LStr name)]) @ args) else None, False)
     \<and> Event_Msg msg (chain args (Some (Logger_Fatal (NewLogger cfg name)))) =
       (Some (LevelError, msg, (if name = [] then [] else [(''component'', LStr name)]) @ args), True)
     \<and> Event_Msg msg (chain args (Some (Logger_Fatal None))) = (None, False)"
proof -
  obtain l where l: "newWith cfg name = Some l" "handler_level (lo_handler l) = lc_level cfg"
    "lo_attrs l = (if name = [] then [] else [(''component'', LStr name)])" using newWith_Some by blast
  with Configure_level [OF assms] show ?thesis
    by (simp add: chain_Some Event_Msg_def Logger_Event_def Logger_Fatal_def NewLogger_def)
qed

theorem log_lines_witness:
  "\<exists>cfg. Configure ''warn'' [] = Inr cfg
     \<and> Event_Msg ''m'' (Some (Logger_Info (NewLogger cfg ''cron''))) = (None, False)
     \<and> Event_Msg ''m'' (Event_Str ''k'' ''v'' (Some (Logger_Fatal (NewLogger cfg ''cron'')))) =
         (Some (8, ''m'', [(''component'', LStr ''cron''), (''k'', LStr ''v'')]), True)"
proof -
  have c: "Configure ''warn'' [] = Inr \<lparr>lc_level = 4, lc_format = ''json''\<rparr>"
    by (simp add: Configure_def parseLevel_def LevelWarn_def)
  from log_lines [OF c, of "''m''" "[]" LevelInfo "''cron''"] log_lines [OF c, of "''m''" "[(''k'', LStr ''v'')]" 0 "''cron''"] c
  show ?thesis
    by (auto simp: field_methods Logger_Info_def LevelInfo_def LevelError_def chain_def)
qed

text \<open>A configuration that loads is accepted by the logger, so that the
  check of \<open>Configure\<close> in \<open>main\<close> never ends the process.\<close>

lemma loaded_config_accepted:
  assumes "LoadConfig ReadFile getenv yaml path = Inr cfg"
  shows "\<exists>lc. Configure (lg_Level (cf_Logging cfg)) (lg_Format (cf_Logging cfg)) = Inr lc"
proof -
  from assms have "validateLogging (cf_Logging cfg) = None"
    by (auto simp: LoadConfig_def Let_def split: sum.splits option.splits)
  then have "lg_Level (cf_Logging cfg) \<in> {''debug'', ''info'', ''warn'', ''error''}"
    "lg_Format (cf_Logging cfg) \<in> {''json'', ''text''}"
    by (auto simp: validateLogging_def split: if_splits)
  then show ?thesis by (auto simp: Configure_def parseLevel_def)
qed

text \<open>Whatever level is configured, a run that failed leaves a line at the level of errors with its
  cause; one that passed leaves a line unless only warnings or errors are wanted, and a skipped one unless only
  errors are.\<close>

lemma run_line:
  assumes "Configure level format = Inr cfg"
  shows "logRunFinished (NewLogger cfg name) flow result =
     (if lc_level cfg \<le> runStatusLevel (tr_Status result)
      then Some (runStatusLevel (tr_Status result), ''Test run finished'',
        (if name = [] then [] else [(''component'', LStr name)])
        @ [(''run_id'', LStr (tr_RunID result)), (''test_id'', LStr (tr_TestID result)), (''source'', LStr flow),
           (''status'', LStr (status_text (tr_Status result))), (''duration_ms'', LInt (tr_DurationMs result)),
           (''attempts'', LInt (int (tr_Attempts result)))]
        @ (if tr_Error result = [] then [] else [(''error'', LStr (tr_Error result))]))
      else None)"
    and "is_failure (tr_Status result) \<Longrightarrow> logRunFinished (NewLogger cfg name) flow result \<noteq> None"
proof -
  obtain l where l: "newWith cfg name = Some l" "handler_level (lo_handler l) = lc_level cfg"
    "lo_attrs l = (if name = [] then [] else [(''component'', LStr name)])" using newWith_Some by blast
  then show line: "logRunFinished (NewLogger cfg name) flow result =
     (if lc_level cfg \<le> runStatusLevel (tr_Status result)
      then Some (runStatusLevel (tr_Status result), ''Test run finished'',
        (if name = [] then [] else [(''component'', LStr name)])
        @ [(''run_id'', LStr (tr_RunID result)), (''test_id'', LStr (tr_TestID result)), (''source'', LStr flow),
           (''status'', LStr (status_text (tr_Status result))), (''duration_ms'', LInt (tr_DurationMs result)),
           (''attempts'', LInt (int (tr_Attempts result)))]
        @ (if tr_Error result = [] then [] else [(''error'', LStr (tr_Error result))]))
      else None)"
    by (simp add: logRunFinished_def field_methods chain_Some Event_Msg_def Logger_Event_def NewLogger_def attr_defs Let_def)
  assume "is_failure (tr_Status result)"
  then have "runStatusLevel (tr_Status result) = LevelError"
    by (auto simp: is_failure_def runStatusLevel_def LevelError_def)
  with Configure_level [OF assms] show "logRunFinished (NewLogger cfg name) flow result \<noteq> None"
    unfolding line by simp
qed

end
