(* ===== verification/Connection_Log.thy ===== *)
theory Connection_Log
  imports Url_Forms Log_Events Redis_Store
begin

section \<open>The line of the store: \<open>hostFromURL\<close> of \<open>cmd/server/main.go\<close>\<close>

text \<open>
  When the Redis store is made, the server writes where it connects to. \<open>hostFromURL\<close> takes the host out of the
  URL, which also holds the credentials. What it uses of \<open>net/url\<close> and \<open>net\<close> is here as Go 1.25.0 has it: of a
  URL the host alone, and of an error that there is one.
\<close>

subsection \<open>\<open>net/url\<close>\<close>

definition is_ctl :: "char \<Rightarrow> bool" where
  "is_ctl c \<longleftrightarrow> of_char c < (32 :: nat) \<or> of_char c = (127 :: nat)"

definition is_letter :: "char \<Rightarrow> bool" where
  "is_letter c \<longleftrightarrow> byte_in 97 122 c \<or> byte_in 65 90 c"

text \<open>\<open>getScheme\<close>, with what it has passed.\<close>

fun getScheme_loop :: "string \<Rightarrow> string \<Rightarrow> string \<Rightarrow> (string \<times> string) option" where
  "getScheme_loop raw front [] = Some ([], raw)"
| "getScheme_loop raw front (c # s) =
     (if is_letter c then getScheme_loop raw (front @ [c]) s
      else if is_digit c \<or> c \<in> set ''+-.'' then
        if front = [] then Some ([], raw) else getScheme_loop raw (front @ [c]) s
      else if c = CHR '':'' then
        if front = [] then None else Some (front, s)
      else Some ([], raw))"

definition getScheme :: "string \<Rightarrow> (string \<times> string) option" where
  "getScheme raw = getScheme_loop raw [] raw"

datatype url_part = InPath | InUserinfo | InHost | InZone | InFragment

text \<open>\<open>shouldEscape\<close> in a host.\<close>

definition escaped_in_host :: "char \<Rightarrow> bool" where
  "escaped_in_host c \<longleftrightarrow>
     \<not> (is_alnum c \<or> c \<in> set ''!$&()*+,;=:[]<>-_.~'' \<or> of_char c \<in> {34, 39 :: nat})"

fun unescape_url :: "url_part \<Rightarrow> string \<Rightarrow> string option" where
  "unescape_url part [] = Some []"
| "unescape_url part (c # s) =
     (if c = CHR ''%'' then
        (case s of
           a # b # r \<Rightarrow>
             (case (hex_val a, hex_val b) of
                (Some x, Some y) \<Rightarrow>
                  (let percent = (a = CHR ''2'' \<and> b = CHR ''5''); v = char_of (16 * x + y) in
                   if part = InHost \<and> x < 8 \<and> \<not> percent then None
                   else if part = InZone \<and> \<not> percent \<and> v \<noteq> CHR '' '' \<and> escaped_in_host v then None
                   else map_option ((#) v) (unescape_url part r))
              | _ \<Rightarrow> None)
         | _ \<Rightarrow> None)
      else if part \<in> {InHost, InZone} \<and> of_char c < (128 :: nat) \<and> escaped_in_host c then None
      else map_option ((#) c) (unescape_url part s))"

text \<open>Around the last byte of a kind.\<close>

definition cut_last :: "char \<Rightarrow> string \<Rightarrow> string \<times> string" where
  "cut_last c s = (let (back, front) = cut c (rev s) in (rev front, rev back))"

fun cut_at :: "string \<Rightarrow> string \<Rightarrow> (string \<times> string) option" where
  "cut_at p s =
     (if strip_prefix p s \<noteq> None then Some ([], s)
      else case s of [] \<Rightarrow> None | c # r \<Rightarrow> map_option (\<lambda>(a, b). (c # a, b)) (cut_at p r))"

definition validOptionalPort :: "string \<Rightarrow> bool" where
  "validOptionalPort port \<longleftrightarrow> (case port of [] \<Rightarrow> True | c # ds \<Rightarrow> c = CHR '':'' \<and> list_all is_digit ds)"

definition parseHost :: "string \<Rightarrow> string option" where
  "parseHost host =
     (if HasPrefix host ''['' then
        if CHR '']'' \<notin> set host then None
        else
          let (inside, port) = cut_last CHR '']'' host in
          if \<not> validOptionalPort port then None
          else case cut_at ''%25'' inside of
              Some (front, zone) \<Rightarrow>
                (case (unescape_url InHost front, unescape_url InZone zone, unescape_url InHost (CHR '']'' # port)) of
                   (Some h1, Some h2, Some h3) \<Rightarrow> Some (h1 @ h2 @ h3)
                 | _ \<Rightarrow> None)
            | None \<Rightarrow> unescape_url InHost host
      else if CHR '':'' \<in> set host \<and> \<not> validOptionalPort (CHR '':'' # snd (cut_last CHR '':'' host)) then None
      else unescape_url InHost host)"

definition validUserinfo :: "string \<Rightarrow> bool" where
  "validUserinfo s \<longleftrightarrow> list_all (\<lambda>c. is_alnum c \<or> c \<in> set ''-._:~!$&()*+,;=%@'' \<or> of_char c = (39 :: nat)) s"

definition parseAuthority :: "string \<Rightarrow> string option" where
  "parseAuthority authority =
     (let (userinfo, host) = (if CHR ''@'' \<in> set authority then cut_last CHR ''@'' authority else ([], authority)) in
      case parseHost host of
        None \<Rightarrow> None
      | Some h \<Rightarrow>
          if CHR ''@'' \<notin> set authority then Some h
          else if \<not> validUserinfo userinfo then None
          else if CHR '':'' \<notin> set userinfo then if unescape_url InUserinfo userinfo = None then None else Some h
          else let (username, password) = cut CHR '':'' userinfo in
            if unescape_url InUserinfo username = None \<or> unescape_url InUserinfo password = None then None else Some h)"

text \<open>\<open>parse\<close> and \<open>Parse\<close>. What starts with a single slash has no host; without a slash after its scheme a URL is opaque.\<close>

definition url_parse :: "string \<Rightarrow> string option" where
  "url_parse raw =
     (if list_ex is_ctl raw then None
      else if raw = ''*'' then Some []
      else case getScheme raw of
          None \<Rightarrow> None
        | Some (scheme, rest) \<Rightarrow>
            (let rest = (if rest \<noteq> [] \<and> last rest = CHR ''?'' \<and> count_list rest CHR ''?'' = 1 then butlast rest
                   else fst (cut CHR ''?'' rest)) in
             if \<not> HasPrefix rest ''/'' \<and> scheme \<noteq> [] then Some []
             else if \<not> HasPrefix rest ''/'' \<and> CHR '':'' \<in> set (fst (cut CHR ''/'' rest)) then None
             else if (scheme \<noteq> [] \<or> \<not> HasPrefix rest ''///'') \<and> HasPrefix rest ''//'' then
               let authority = takeWhile (\<lambda>c. c \<noteq> CHR ''/'') (drop 2 rest);
                   path = dropWhile (\<lambda>c. c \<noteq> CHR ''/'') (drop 2 rest) in
               case parseAuthority authority of
                 None \<Rightarrow> None
               | Some h \<Rightarrow> if unescape_url InPath path = None then None else Some h
             else if unescape_url InPath rest = None then None else Some []))"

definition url_Parse :: "string \<Rightarrow> string option" where
  "url_Parse raw =
     (let (u, frag) = cut CHR ''#'' raw in
      case url_parse u of
        None \<Rightarrow> None
      | Some h \<Rightarrow> if frag \<noteq> [] \<and> unescape_url InFragment frag = None then None else Some h)"

definition url_Hostname :: "string \<Rightarrow> string" where
  "url_Hostname host =
     (let (front, port) = cut_last CHR '':'' host;
          h = (if CHR '':'' \<in> set host \<and> validOptionalPort (CHR '':'' # port) then front else host)
      in if 2 \<le> length h \<and> hd h = CHR ''['' \<and> last h = CHR '']'' then butlast (tl h) else h)"

text \<open>Whether \<open>net.SplitHostPort\<close> finds a host and a port.\<close>

definition SplitHostPort_ok :: "string \<Rightarrow> bool" where
  "SplitHostPort_ok hostport \<longleftrightarrow>
     CHR '':'' \<in> set hostport \<and>
     (let front = fst (cut_last CHR '':'' hostport) in
      if hd hostport = CHR ''['' then
        let end = length (takeWhile (\<lambda>c. c \<noteq> CHR '']'') hostport) in
        CHR '']'' \<in> set hostport \<and> end + 1 = length front
        \<and> CHR ''['' \<notin> set (drop 1 hostport) \<and> CHR '']'' \<notin> set (drop (end + 1) hostport)
      else CHR '':'' \<notin> set front \<and> CHR ''['' \<notin> set hostport \<and> CHR '']'' \<notin> set hostport)"

subsection \<open>The code\<close>

definition hostFromURL :: "string \<Rightarrow> string" where
  "hostFromURL raw =
     (if raw = [] then []
      else case url_Parse raw of
          None \<Rightarrow> []
        | Some host \<Rightarrow>
            if host = [] then [] else if SplitHostPort_ok host then host else url_Hostname host)"

definition AttrHost :: string where "AttrHost = ''host''"

text \<open>The factory of the Redis store: what it gives, and the line it writes.\<close>

definition redis_factory :: "(string \<Rightarrow> string + redis_options) \<Rightarrow> Logger option \<Rightarrow> RedisStoreConfig
    \<Rightarrow> (gerror + redis_options \<times> int) \<times> log_line option" where
  "redis_factory ParseURL lg cfg =
     (case NewRedisStore ParseURL cfg of
        Inl err \<Rightarrow> (Inl err, None)
      | Inr s \<Rightarrow> (Inr s, fst (Event_Msg ''store connection established''
            (Event_Str AttrHost (hostFromURL (rs_URL cfg))
            (Event_Str AttrStoreType ''redis'' (Some (Logger_Info lg)))))))"

subsection \<open>Lemmas\<close>

definition good_scheme :: "string \<Rightarrow> bool" where
  "good_scheme s \<longleftrightarrow> (\<exists>c r. s = c # r \<and> is_letter c \<and> list_all (\<lambda>c. is_letter c \<or> is_digit c \<or> c \<in> set ''+-.'') r)"

lemma getScheme_passes:
  assumes "list_all (\<lambda>c. is_letter c \<or> is_digit c \<or> c \<in> set ''+-.'') r" and "front \<noteq> []"
  shows "getScheme_loop raw front (r @ CHR '':'' # s) = Some (front @ r, s)"
  using assms
proof (induction r arbitrary: front)
  case Nil
  then show ?case by (simp add: is_letter_def is_digit_def byte_in_def)
next
  case (Cons c r)
  then have "getScheme_loop raw (front @ [c]) (r @ CHR '':'' # s) = Some ((front @ [c]) @ r, s)" by (intro Cons.IH) simp_all
  with Cons.prems show ?case by auto
qed

lemma getScheme_good: "good_scheme s \<Longrightarrow> getScheme (s @ CHR '':'' # rest) = Some (s, rest)"
  by (auto simp: good_scheme_def getScheme_def getScheme_passes)

lemma scheme_char: "is_letter c \<or> is_digit c \<or> c \<in> set ''+-.'' \<Longrightarrow> c \<noteq> CHR ''#'' \<and> \<not> is_ctl c"
  by (auto simp: is_letter_def is_digit_def is_ctl_def byte_in_def)

lemma good_scheme_chars: "good_scheme s \<Longrightarrow> s \<noteq> [] \<and> CHR ''#'' \<notin> set s \<and> s @ CHR '':'' # r \<noteq> ''*'' \<and> \<not> list_ex is_ctl s"
proof -
  assume "good_scheme s"
  then have "s \<noteq> []" and *: "\<forall>c \<in> set s. is_letter c \<or> is_digit c \<or> c \<in> set ''+-.''"
    by (auto simp: good_scheme_def list_all_iff)
  moreover have "\<forall>c \<in> set s. c \<noteq> CHR ''#'' \<and> \<not> is_ctl c"
    using * scheme_char by blast
  ultimately show ?thesis by (cases s) (auto simp: list_ex_iff)
qed

text \<open>A question mark at the end, the only one, is cut off like any other.\<close>

lemma cut_query:
  "(if rest \<noteq> [] \<and> last rest = CHR ''?'' \<and> count_list rest CHR ''?'' = 1 then butlast rest else fst (cut CHR ''?'' rest)) =
     fst (cut CHR ''?'' rest)"
proof (cases rest rule: rev_cases)
  case (snoc r c)
  then show ?thesis
    by (auto simp: cut_append count_list_0_iff)
qed simp

lemmas url_parse_cut = url_parse_def [unfolded cut_query]

lemma cut_subset: "set (fst (cut c s)) \<subseteq> set s" "set (snd (cut c s)) \<subseteq> set s"
proof -
  show "set (fst (cut c s)) \<subseteq> set s" by (auto simp: cut_def dest: set_takeWhileD)
  have "set (tl xs) \<subseteq> set xs" for xs :: string by (cases xs) auto
  moreover have "set (dropWhile (\<lambda>x. x \<noteq> c) s) \<subseteq> set s" by (auto dest: set_dropWhileD)
  ultimately show "set (snd (cut c s)) \<subseteq> set s" unfolding cut_def snd_conv by (rule subset_trans)
qed

lemma cut_extends: "c \<notin> set a \<Longrightarrow> cut c (a @ s) = (a @ fst (cut c s), snd (cut c s))"
  by (auto simp: cut_def takeWhile_append dropWhile_append)

lemma cut_starts: "s = [] \<or> hd s \<in> A \<Longrightarrow> fst (cut c s) = [] \<or> hd (fst (cut c s)) \<in> A \<and> hd (fst (cut c s)) \<noteq> c"
  by (cases s) (auto simp: cut_def)

text \<open>What is between the slashes and the next separator is the authority.\<close>

definition after_authority :: "string \<Rightarrow> bool" where
  "after_authority rest \<longleftrightarrow> rest = [] \<or> hd rest \<in> set ''/?#''"

lemma url_parse_authority:
  assumes "good_scheme s" and "set au \<inter> set ''/?'' = {}" and "rest = [] \<or> hd rest \<in> set ''/?''"
  shows "url_parse (s @ ''://'' @ au @ rest) =
     (if list_ex is_ctl (au @ rest) then None
      else case parseAuthority au of
        None \<Rightarrow> None
      | Some h \<Rightarrow> if unescape_url InPath (fst (cut CHR ''?'' rest)) = None then None else Some h)"
proof -
  let ?path = "fst (cut CHR ''?'' rest)"
  have "fst (cut CHR ''?'' (''//'' @ au @ rest)) = ''//'' @ au @ ?path"
    using assms(2) cut_extends [of "CHR ''?''" "''//'' @ au" rest] by simp
  moreover have "?path = [] \<or> hd ?path = CHR ''/''" using cut_starts [OF assms(3), of "CHR ''?''"] by auto
  then have "takeWhile (\<lambda>c. c \<noteq> CHR ''/'') (au @ ?path) = au" "dropWhile (\<lambda>c. c \<noteq> CHR ''/'') (au @ ?path) = ?path"
    using assms(2) by (cases ?path; auto simp: takeWhile_append dropWhile_append)+
  moreover have "getScheme (s @ ''://'' @ au @ rest) = Some (s, ''//'' @ au @ rest)"
    using getScheme_good [OF assms(1), of "''//'' @ au @ rest"] by simp
  ultimately show ?thesis
    using good_scheme_chars [OF assms(1)]
    by (simp add: url_parse_cut HasPrefix_def Let_def is_ctl_def)
qed

lemma url_Parse_authority:
  assumes "good_scheme s" and "set au \<inter> set ''/?#'' = {}" and "after_authority rest"
    and "url_Parse (s @ ''://'' @ au @ rest) = Some h"
  shows "parseAuthority au = Some h" and "\<not> list_ex is_ctl au"
proof -
  let ?rest = "fst (cut CHR ''#'' rest)"
  have "fst (cut CHR ''#'' (s @ ''://'' @ au @ rest)) = s @ ''://'' @ au @ ?rest"
    using assms(2) good_scheme_chars [OF assms(1)] cut_extends [of "CHR ''#''" "s @ ''://'' @ au" rest] by simp
  moreover have "?rest = [] \<or> hd ?rest \<in> set ''/?''"
    using cut_starts [of rest "set ''/?#''" "CHR ''#''"] assms(3) by (auto simp: after_authority_def)
  moreover have "set au \<inter> set ''/?'' = {}" using assms(2) by auto
  ultimately show "parseAuthority au = Some h" and "\<not> list_ex is_ctl au"
    using assms(4) url_parse_authority [OF assms(1), of au ?rest]
    by (auto simp: url_Parse_def split_beta Let_def split: option.splits if_splits)
qed

lemma url_Parse_bare:
  assumes "good_scheme s" and "set au \<inter> set ''/?#'' = {}" and "\<not> list_ex is_ctl au"
  shows "url_Parse (s @ ''://'' @ au) = parseAuthority au"
proof -
  have "cut CHR ''#'' (s @ ''://'' @ au) = (s @ ''://'' @ au, [])"
    using assms(2) good_scheme_chars [OF assms(1)] by (intro cut_all) simp
  moreover have "set au \<inter> set ''/?'' = {}" using assms(2) by auto
  ultimately show ?thesis
    using url_parse_authority [OF assms(1), of au "[]"] assms(3)
    by (simp add: url_Parse_def cut_all split: option.splits)
qed

lemma cut_last_append: "c \<notin> set b \<Longrightarrow> cut_last c (a @ c # b) = (a, b)"
  by (simp add: cut_last_def cut_append)

lemma parseAuthority_userinfo:
  assumes "CHR ''@'' \<notin> set a" and "parseAuthority (u @ ''@'' @ a) = Some h"
  shows "parseAuthority a = Some h"
  using assms by (auto simp: parseAuthority_def cut_last_append split_beta Let_def split: option.splits if_splits)

lemma host_of_authority:
  assumes "good_scheme s" and "set u \<inter> set ''/?#'' = {}" and "set a \<inter> set ''/?#@'' = {}" and "after_authority rest"
  shows "hostFromURL (s @ ''://'' @ u @ ''@'' @ a @ rest) \<in> {[], hostFromURL (s @ ''://'' @ a)}"
proof (cases "url_Parse (s @ ''://'' @ u @ ''@'' @ a @ rest)")
  case (Some h)
  have au: "set (u @ ''@'' @ a) \<inter> set ''/?#'' = {}" using assms(2,3) by auto
  have a: "set a \<inter> set ''/?#'' = {}" "CHR ''@'' \<notin> set a" using assms(3) by auto
  from url_Parse_authority [OF assms(1) au assms(4), of h] Some
  have "parseAuthority (u @ ''@'' @ a) = Some h" "\<not> list_ex is_ctl a" by simp_all
  with url_Parse_bare [OF assms(1) a(1)] parseAuthority_userinfo [OF a(2)] have "url_Parse (s @ ''://'' @ a) = Some h" by simp
  with Some show ?thesis by (simp add: hostFromURL_def)
qed (simp add: hostFromURL_def)

text \<open>A URL without escapes, whose host is a name and a port.\<close>

lemma unescape_plain:
  "list_all (\<lambda>c. c \<noteq> CHR ''%'' \<and> (part \<in> {InHost, InZone} \<longrightarrow> \<not> escaped_in_host c)) s \<Longrightarrow> unescape_url part s = Some s"
  by (induction s) auto

definition plain_name :: "string \<Rightarrow> bool" where
  "plain_name n \<longleftrightarrow> n \<noteq> [] \<and> list_all (\<lambda>c. is_alnum c \<or> c \<in> set ''-.'') n"

lemma plain_authority:
  assumes "plain_name n" and "list_all is_digit d"
  shows "set (n @ '':'' @ d) \<inter> set ''/?#@[]%'' = {}" and "\<not> list_ex is_ctl (n @ '':'' @ d)" and "CHR '':'' \<notin> set n" and "CHR '':'' \<notin> set d"
    and "list_all (\<lambda>c. c \<noteq> CHR ''%'' \<and> \<not> escaped_in_host c) (n @ '':'' @ d)"
proof -
  have *: "\<forall>c \<in> set n. is_alnum c \<or> c \<in> set ''-.''" "\<forall>c \<in> set d. is_alnum c"
    using assms by (auto simp: plain_name_def list_all_iff is_digit_def is_alnum_def byte_in_def)
  have c: "c \<notin> set '':/?#@[]%'' \<and> \<not> is_ctl c \<and> \<not> escaped_in_host c" if "is_alnum c \<or> c \<in> set ''-.''" for c
    using that by (auto simp: is_alnum_def byte_in_def is_ctl_def escaped_in_host_def)
  have n: "\<forall>x \<in> set n. x \<notin> set '':/?#@[]%'' \<and> \<not> is_ctl x \<and> \<not> escaped_in_host x" using *(1) c by blast
  have d: "\<forall>x \<in> set d. x \<notin> set '':/?#@[]%'' \<and> \<not> is_ctl x \<and> \<not> escaped_in_host x" using *(2) c by blast
  have colon: "\<not> is_ctl CHR '':''" "\<not> escaped_in_host CHR '':''" by (simp_all add: is_ctl_def escaped_in_host_def)
  show "set (n @ '':'' @ d) \<inter> set ''/?#@[]%'' = {}" using n d by auto
  show "\<not> list_ex is_ctl (n @ '':'' @ d)" using n d colon by (auto simp: list_ex_iff)
  show "CHR '':'' \<notin> set n" "CHR '':'' \<notin> set d" using n d by auto
  show "list_all (\<lambda>c. c \<noteq> CHR ''%'' \<and> \<not> escaped_in_host c) (n @ '':'' @ d)"
    using n d colon by (auto simp: list_all_iff)
qed

lemma parseHost_plain:
  assumes "plain_name n" and "list_all is_digit d"
  shows "parseHost (n @ '':'' @ d) = Some (n @ '':'' @ d)"
proof -
  note p = plain_authority [OF assms]
  have "\<not> HasPrefix (n @ '':'' @ d) ''[''"
    using assms(1) p(1) by (cases n) (auto simp: plain_name_def HasPrefix_def)
  moreover have "unescape_url InHost (n @ '':'' @ d) = Some (n @ '':'' @ d)"
    using p(5) by (intro unescape_plain) simp
  ultimately show ?thesis
    using p(4) assms(2) by (simp add: parseHost_def cut_last_append validOptionalPort_def)
qed

lemma parseAuthority_plain:
  assumes "plain_name n" and "list_all is_digit d"
  shows "parseAuthority (n @ '':'' @ d) = Some (n @ '':'' @ d)"
    and "validUserinfo u \<Longrightarrow> CHR ''%'' \<notin> set u \<Longrightarrow> parseAuthority (u @ ''@'' @ n @ '':'' @ d) = Some (n @ '':'' @ d)"
proof -
  have no_at: "CHR ''@'' \<notin> set (n @ '':'' @ d)" using plain_authority(1) [OF assms] by auto
  with parseHost_plain [OF assms] show "parseAuthority (n @ '':'' @ d) = Some (n @ '':'' @ d)"
    by (simp add: parseAuthority_def)
  assume u: "validUserinfo u" "CHR ''%'' \<notin> set u"
  have "unescape_url InUserinfo t = Some t" if "set t \<subseteq> set u" for t
    using u(2) that by (intro unescape_plain) (auto simp: list_all_iff)
  note this [OF cut_subset(1)] this [OF cut_subset(2)] this [OF order_refl]
  with u(1) show "parseAuthority (u @ ''@'' @ n @ '':'' @ d) = Some (n @ '':'' @ d)"
    using parseHost_plain [OF assms] no_at cut_last_append [OF no_at, of u]
    by (simp add: parseAuthority_def split_beta Let_def)
qed

lemma url_Parse_plain:
  assumes "good_scheme s" and "parseAuthority au = Some h" and "set au \<inter> set ''/?#'' = {}" and "\<not> list_ex is_ctl au"
    and "after_authority rest" and "list_all (\<lambda>c. \<not> is_ctl c \<and> c \<noteq> CHR ''%'') rest"
  shows "url_Parse (s @ ''://'' @ au @ rest) = Some h"
proof -
  let ?rest = "fst (cut CHR ''#'' rest)" and ?frag = "snd (cut CHR ''#'' rest)"
  note sub = cut_subset
  have plain: "\<forall>c \<in> set rest. \<not> is_ctl c \<and> c \<noteq> CHR ''%''" using assms(6) by (simp add: list_all_iff)
  have un: "unescape_url part r = Some r" if "set r \<subseteq> set rest" "part \<in> {InPath, InFragment}" for part r
    using plain that by (intro unescape_plain) (auto simp: list_all_iff)
  have "cut CHR ''#'' (s @ ''://'' @ au @ rest) = (s @ ''://'' @ au @ ?rest, ?frag)"
    using assms(3) good_scheme_chars [OF assms(1)] cut_extends [of "CHR ''#''" "s @ ''://'' @ au" rest] by simp
  moreover have "?rest = [] \<or> hd ?rest \<in> set ''/?''"
    using cut_starts [of rest "set ''/?#''" "CHR ''#''"] assms(5) by (auto simp: after_authority_def)
  moreover have "set au \<inter> set ''/?'' = {}" using assms(3) by auto
  moreover have "\<not> list_ex is_ctl (au @ ?rest)" using assms(4) plain sub(1) [of "CHR ''#''" rest] by (auto simp: list_ex_iff)
  moreover have "unescape_url InPath (fst (cut CHR ''?'' ?rest)) \<noteq> None"
    using un [of "fst (cut CHR ''?'' ?rest)" InPath] sub(1) [of "CHR ''#''" rest] sub(1) [of "CHR ''?''" ?rest] by auto
  moreover have "unescape_url InFragment ?frag \<noteq> None" using un [of ?frag InFragment] sub by auto
  ultimately show ?thesis
    using url_parse_authority [OF assms(1), of au ?rest] assms(2) by (simp add: url_Parse_def)
qed

lemma SplitHostPort_plain:
  assumes "plain_name n" and "list_all is_digit d"
  shows "SplitHostPort_ok (n @ '':'' @ d)"
proof -
  note p = plain_authority [OF assms]
  have "hd (n @ '':'' @ d) \<noteq> CHR ''[''" using p(1) assms(1) by (cases n) (auto simp: plain_name_def)
  then show ?thesis using p by (auto simp: SplitHostPort_ok_def cut_last_append Let_def)
qed

lemma host_of_plain:
  assumes "good_scheme s" and "plain_name n" and "list_all is_digit d"
    and "after_authority rest" and "list_all (\<lambda>c. \<not> is_ctl c \<and> c \<noteq> CHR ''%'') rest"
  shows "hostFromURL (s @ ''://'' @ n @ '':'' @ d @ rest) = n @ '':'' @ d"
    and "validUserinfo u \<Longrightarrow> set u \<inter> set ''/?#%'' = {}
      \<Longrightarrow> hostFromURL (s @ ''://'' @ u @ ''@'' @ n @ '':'' @ d @ rest) = n @ '':'' @ d"
proof -
  note p = plain_authority [OF assms(2,3)] and a = parseAuthority_plain [OF assms(2,3)]
  have "url_Parse (s @ ''://'' @ (n @ '':'' @ d) @ rest) = Some (n @ '':'' @ d)"
    by (rule url_Parse_plain [OF assms(1) a(1) _ p(2) assms(4,5)]) (use p(1) in auto)
  then show "hostFromURL (s @ ''://'' @ n @ '':'' @ d @ rest) = n @ '':'' @ d"
    using SplitHostPort_plain [OF assms(2,3)] by (simp add: hostFromURL_def)
  assume u: "validUserinfo u" "set u \<inter> set ''/?#%'' = {}"
  have "\<not> list_ex is_ctl u" using u(1)
    by (auto simp: validUserinfo_def list_ex_iff list_all_iff is_ctl_def is_alnum_def byte_in_def dest!: bspec)
  then have "url_Parse (s @ ''://'' @ (u @ ''@'' @ n @ '':'' @ d) @ rest) = Some (n @ '':'' @ d)"
    by (intro url_Parse_plain [OF assms(1) a(2) _ _ assms(4,5)]) (use p(1,2) u in \<open>auto simp: is_ctl_def\<close>)
  then show "hostFromURL (s @ ''://'' @ u @ ''@'' @ n @ '':'' @ d @ rest) = n @ '':'' @ d"
    using SplitHostPort_plain [OF assms(2,3)] by (simp add: hostFromURL_def)
qed

lemma connection_line:
  assumes "redis_factory ParseURL (NewLogger lc name) cfg = (Inr st, line)"
  shows "line = (if lc_level lc \<le> LevelInfo
      then Some (LevelInfo, ''store connection established'',
        (if name = [] then [] else [(''component'', LStr name)])
        @ [(''store_type'', LStr ''redis''), (''host'', LStr (hostFromURL (rs_URL cfg)))])
      else None)"
proof -
  obtain l where l: "newWith lc name = Some l" "handler_level (lo_handler l) = lc_level lc"
    "lo_attrs l = (if name = [] then [] else [(''component'', LStr name)])" using newWith_Some by blast
  with assms show ?thesis
    by (auto simp: redis_factory_def field_methods chain_Some Event_Msg_def Logger_Info_def Logger_Event_def NewLogger_def
      attr_defs AttrHost_def split: sum.splits)
qed

subsection \<open>Properties\<close>

text \<open>The line of a Redis connection names the host as it would be named without
  credentials, path, query and fragment, or no host at all: user and password have no influence on it but whether
  it names the host. They must not hold a slash, a question mark or a number sign.\<close>

theorem connection_line_hides_credentials:
  assumes "redis_factory ParseURL (NewLogger lc name) cfg = (Inr st, line)"
    and "rs_URL cfg = s @ ''://'' @ credentials @ ''@'' @ host @ rest"
    and "good_scheme s" and "set credentials \<inter> set ''/?#'' = {}" and "set host \<inter> set ''/?#@'' = {}" and "after_authority rest"
  shows "\<exists>h \<in> {[], hostFromURL (s @ ''://'' @ host)}.
     line = (if lc_level lc \<le> LevelInfo
       then Some (LevelInfo, ''store connection established'',
         (if name = [] then [] else [(''component'', LStr name)]) @ [(''store_type'', LStr ''redis''), (''host'', LStr h)])
       else None)"
proof
  show "hostFromURL (rs_URL cfg) \<in> {[], hostFromURL (s @ ''://'' @ host)}"
    unfolding assms(2) by (rule host_of_authority [OF assms(3-6)])
  show "line = (if lc_level lc \<le> LevelInfo
       then Some (LevelInfo, ''store connection established'',
         (if name = [] then [] else [(''component'', LStr name)]) @ [(''store_type'', LStr ''redis''), (''host'', LStr (hostFromURL (rs_URL cfg)))])
       else None)"
    by (rule connection_line [OF assms(1)])
qed

definition example_redis_config :: RedisStoreConfig where
  "example_redis_config = \<lparr>rs_URL = ''redis://u:pw@db:6379/2'', rs_TTL = 5, rs_Username = [], rs_Password = [], rs_ClusterMode = True\<rparr>"

theorem connection_line_hides_credentials_witness:
  "\<exists>line. snd (redis_factory (\<lambda>url. Inl url) (NewLogger default_log_config []) example_redis_config) = Some line
     \<and> line \<in> (\<lambda>h. (LevelInfo, ''store connection established'', [(''store_type'', LStr ''redis''), (''host'', LStr h)])) `
         {[], ''db:6379''}"
proof -
  let ?cfg = example_redis_config
  obtain st line where r: "redis_factory (\<lambda>url. Inl url) (NewLogger default_log_config []) ?cfg = (Inr st, line)"
    by (simp add: redis_factory_def NewRedisStore_def example_redis_config_def)
  have u: "rs_URL ?cfg = ''redis'' @ ''://'' @ ''u:pw'' @ ''@'' @ ''db:6379'' @ ''/2''"
    by (simp add: example_redis_config_def)
  have s: "good_scheme ''redis''" by (simp add: good_scheme_def is_letter_def byte_in_def)
  have "plain_name ''db''" "list_all is_digit ''6379''"
    by (simp_all add: plain_name_def is_digit_def is_alnum_def byte_in_def)
  from host_of_plain(1) [OF s this, of "[]"] have h: "hostFromURL (''redis'' @ ''://'' @ ''db:6379'') = ''db:6379''"
    by (simp add: after_authority_def)
  from connection_line_hides_credentials [OF r u s] h r show ?thesis
    by (auto simp: after_authority_def default_log_config_def)
qed

text \<open>Where a password holds one of them unescaped, the line shows what is in front of it: the user and, if it
  begins with digits, the begin of the password.\<close>

theorem unescaped_password_is_logged:
  assumes "good_scheme s" and "plain_name user" and "list_all is_digit pin" and "c \<in> set ''/?#''"
    and "list_all (\<lambda>c. \<not> is_ctl c \<and> c \<noteq> CHR ''%'') rest"
  shows "hostFromURL (s @ ''://'' @ user @ '':'' @ pin @ [c] @ rest) = user @ '':'' @ pin"
proof (rule host_of_plain(1) [OF assms(1-3)])
  show "after_authority ([c] @ rest)" using assms(4) by (simp add: after_authority_def)
  show "list_all (\<lambda>c. \<not> is_ctl c \<and> c \<noteq> CHR ''%'') ([c] @ rest)" using assms(4,5) by (auto simp: is_ctl_def)
qed

end
