(* ===== verification/Polling.thy ===== *)
theory Polling
  imports Domain
begin

section \<open>Tickers, deadlines and the loops that poll\<close>

text \<open>
  The receivers wait in a loop around a \<open>select\<close> on the context and a timer. The theory holds
  the model of that \<open>select\<close> and of \<open>time.Ticker\<close>, the loop that the webhook and the IMAP
  receiver share, and the locale \<open>polling\<close>: what an attempt has to promise for the loop to end
  in time.

  A loop that may go on forever is a \<open>partial_function (option)\<close>: its result is \<open>None\<close> where it
  does not return.
\<close>

text \<open>A name between single quotes, as error texts have it.\<close>

definition squoted :: "string \<Rightarrow> string" where
  "squoted name = char_of (39 :: nat) # name @ [char_of (39 :: nat)]"

subsection \<open>\<open>select\<close> on a deadline and a timer\<close>

text \<open>The goroutine waits until the earlier of the deadline of the context and the time \<open>tk\<close> at
  which the timer fires, and not at all where one of them has passed. Where both have, the choice is
  random. The result says whether the branch of \<open>ctx.Done()\<close> is taken.\<close>

definition select_done :: "ctx \<Rightarrow> int \<Rightarrow> 'x world \<Rightarrow> bool \<times> 'x world" where
  "select_done ctx tk w =
     (let t = max (clock w) (case ctx of None \<Rightarrow> tk | Some d \<Rightarrow> min d tk);
          w = w\<lparr>clock := t\<rparr>;
          expired = (case ctx of None \<Rightarrow> False | Some d \<Rightarrow> d \<le> t)
      in if expired \<and> tk \<le> t
         then let (c, e) = draw (draws w) in (even c, w\<lparr>draws := e\<rparr>)
         else (expired, w))"

text \<open>A ticker sends at fixed distances and drops what the reader is too slow for: after a tick was
  read at the time \<open>t\<close>, the next one is the first of the grid that is later.\<close>

definition next_tick :: "int \<Rightarrow> int \<Rightarrow> int \<Rightarrow> int" where
  "next_tick period tk t = tk + period * ((t - tk) div period + 1)"

lemma next_tick_at: "0 < period \<Longrightarrow> next_tick period tk tk = tk + period"
  by (simp add: next_tick_def)

lemma next_tick_later:
  assumes "0 < period" and "tk \<le> t"
  shows "t < next_tick period tk t" and "next_tick period tk t \<le> t + period"
    and "period dvd next_tick period tk t - tk"
proof -
  have m: "t - tk = period * ((t - tk) div period) + (t - tk) mod period" by simp
  have b: "0 \<le> (t - tk) mod period" "(t - tk) mod period < period" using assms(1) by simp_all
  have n: "next_tick period tk t = t - (t - tk) mod period + period"
    unfolding next_tick_def using m by (simp add: algebra_simps)
  show "t < next_tick period tk t" and "next_tick period tk t \<le> t + period"
    unfolding n using b by simp_all
  show "period dvd next_tick period tk t - tk" by (simp add: next_tick_def)
qed

lemma select_done_outside [simp]: "outside (snd (select_done ctx tk w)) = outside w"
  by (simp add: select_done_def Let_def split_beta)

lemma select_done_clock:
  "clock (snd (select_done ctx tk w)) = max (clock w) (case ctx of None \<Rightarrow> tk | Some d \<Rightarrow> min d tk)"
  by (simp add: select_done_def Let_def split_beta)

lemma select_done_expired:
  "fst (select_done ctx tk w) \<Longrightarrow> \<exists>d. ctx = Some d \<and> d \<le> clock (snd (select_done ctx tk w))"
  by (auto simp: select_done_def Let_def split_beta split: option.splits if_splits)

lemma select_done_tick:
  "\<not> fst (select_done ctx tk w) \<Longrightarrow> tk \<le> clock (snd (select_done ctx tk w))"
  by (auto simp: select_done_def Let_def split_beta split: option.splits if_splits)

lemma select_done_before: "clock w < tk \<Longrightarrow> d < tk \<Longrightarrow> fst (select_done (Some d) tk w)"
  by (auto simp: select_done_def Let_def split_beta)

lemma select_done_at_tick:
  "clock w < tk \<Longrightarrow> tk \<le> d \<Longrightarrow> clock (snd (select_done (Some d) tk w)) = tk"
  by (simp add: select_done_clock)

subsection \<open>The loop of a ticker\<close>

text \<open>\<open>attempt\<close> is the branch of the tick: it gives what the loop returns, if it returns. The loop
  gives \<open>None\<close> inside of its result where the context ended it.\<close>

partial_function (option) poll_ticks ::
  "int \<Rightarrow> ctx \<Rightarrow> ('x world \<Rightarrow> 'r option \<times> 'x world) \<Rightarrow> int \<Rightarrow> 'x world \<Rightarrow> ('r option \<times> 'x world) option" where
  "poll_ticks period ctx attempt tk w =
     (let (expired, w1) = select_done ctx tk w in
      if expired then Some (None, w1)
      else let (out, w2) = attempt w1 in
        case out of
          Some r \<Rightarrow> Some (Some r, w2)
        | None \<Rightarrow> poll_ticks period ctx attempt (next_tick period tk (clock w1)) w2)"

definition start_ticker :: "int \<Rightarrow> ctx \<Rightarrow> ('x world \<Rightarrow> 'r option \<times> 'x world) \<Rightarrow> 'x world \<Rightarrow> ('r option \<times> 'x world) option" where
  "start_ticker period ctx attempt w = poll_ticks period ctx attempt (clock w + period) w"

text \<open>What comes back is what an attempt gave, or the context had expired.\<close>

lemma poll_ticks_cases:
  "poll_ticks period ctx attempt tk w = Some y \<Longrightarrow>
     (fst y \<noteq> None \<and> (\<exists>w1. attempt w1 = y)) \<or> (fst y = None \<and> (\<exists>d. ctx = Some d \<and> d \<le> clock (snd y)))"
proof (erule poll_ticks.raw_induct [rotated])
  fix rec period ctx tk w y
  fix attempt :: "'x world \<Rightarrow> 'r option \<times> 'x world"
  assume IH: "\<And>period ctx attempt tk w y. rec period ctx attempt tk w = Some y \<Longrightarrow>
      (fst y \<noteq> None \<and> (\<exists>w1. attempt w1 = y)) \<or> (fst y = None \<and> (\<exists>d. ctx = Some d \<and> d \<le> clock (snd y)))"
    and eq: "(let (expired, w1) = select_done ctx tk w in
      if expired then Some (None, w1)
      else let (out, w2) = attempt w1 in
        case out of Some r \<Rightarrow> Some (Some r, w2)
        | None \<Rightarrow> rec period ctx attempt (next_tick period tk (clock w1)) w2) = Some y"
  obtain expired w1 where s: "select_done ctx tk w = (expired, w1)" by fastforce
  obtain out w2 where a: "attempt w1 = (out, w2)" by fastforce
  show "(fst y \<noteq> None \<and> (\<exists>w1. attempt w1 = y)) \<or> (fst y = None \<and> (\<exists>d. ctx = Some d \<and> d \<le> clock (snd y)))"
  proof (cases expired)
    case True
    with eq s select_done_expired [of ctx tk w] show ?thesis by auto
  next
    case False
    show ?thesis
    proof (cases out)
      case None
      with eq s a False show ?thesis by (auto dest: IH)
    next
      case (Some r)
      with eq s a False show ?thesis by (intro disjI1) (auto intro: exI [of _ w1])
    qed
  qed
qed

text \<open>Without a deadline, and as long as nothing comes, the loop does not return.\<close>

lemma poll_ticks_forever:
  assumes "\<And>w. fst (attempt w) = None"
  shows "poll_ticks period None attempt tk w = None"
proof (rule ccontr)
  assume "poll_ticks period None attempt tk w \<noteq> None"
  then obtain y where "poll_ticks period None attempt tk w = Some y" by blast
  from poll_ticks_cases [OF this] show False using assms by (metis fst_eqD option.distinct(1) prod.collapse)
qed

text \<open>What the first tick finds is returned, if the tick comes before the deadline.\<close>

lemma poll_ticks_first:
  assumes "clock w < tk" and "ctx = None \<or> (\<exists>d. ctx = Some d \<and> tk < d)"
    and "attempt (w\<lparr>clock := tk\<rparr>) = (Some r, w2)"
  shows "poll_ticks period ctx attempt tk w = Some (Some r, w2)"
proof -
  have "select_done ctx tk w = (False, w\<lparr>clock := tk\<rparr>)"
    using assms(1,2) by (auto simp: select_done_def Let_def)
  with assms(3) show ?thesis by (subst poll_ticks.simps) simp
qed

subsection \<open>Attempts that are fast enough\<close>

text \<open>
  \<open>good\<close> is an invariant of the worlds of the loop that says nothing about the clock's time itself
  and makes an attempt take less time than the period. Then the loop ends at the latest one period
  after the deadline.
\<close>

locale polling =
  fixes attempt :: "'x world \<Rightarrow> 'r option \<times> 'x world"
    and period :: int
    and good :: "'x world \<Rightarrow> bool"
  assumes period_pos: "0 < period"
    and good_attempt: "good w \<Longrightarrow> good (snd (attempt w))"
    and good_clock: "good (w\<lparr>clock := t\<rparr>) = good w"
    and good_draw: "good w \<Longrightarrow> good (w\<lparr>draws := snd (draw (draws w))\<rparr>)"
    and attempt_fast: "good w \<Longrightarrow> clock w \<le> clock (snd (attempt w)) \<and> clock (snd (attempt w)) < clock w + period"
begin

lemma good_select: "good w \<Longrightarrow> good (snd (select_done ctx tk w))"
proof -
  assume g: "good w"
  have "good (w\<lparr>clock := t\<rparr>\<lparr>draws := snd (draw (draws w))\<rparr>)" for t
    using good_draw [of "w\<lparr>clock := t\<rparr>"] g by (simp add: good_clock)
  with g show ?thesis by (simp add: select_done_def Let_def split_beta good_clock)
qed

theorem poll_returns:
  assumes "good w" and "clock w < tk"
  shows "\<exists>out w'. poll_ticks period (Some d) attempt tk w = Some (out, w') \<and> clock w' \<le> max (clock w) (d + period)"
  using assms
proof (induction "nat (d + 1 - tk)" arbitrary: tk w rule: less_induct)
  case less
  obtain expired w1 where s: "select_done (Some d) tk w = (expired, w1)" by fastforce
  show ?case
  proof (cases expired)
    case True
    have "clock w1 = max (clock w) (min d tk)" using select_done_clock [of "Some d" tk w] s by simp
    with s True less.prems period_pos show ?thesis by (subst poll_ticks.simps) simp
  next
    case False
    with s less.prems(2) select_done_before [of w tk d] have td: "tk \<le> d" by force
    from select_done_at_tick [OF less.prems(2) this] s have c: "clock w1 = tk" by simp
    from good_select [OF less.prems(1), of "Some d" tk] s have g: "good w1" by simp
    obtain out w2 where a: "attempt w1 = (out, w2)" by fastforce
    from attempt_fast [OF g] good_attempt [OF g] a c have w2: "good w2" "tk \<le> clock w2" "clock w2 < tk + period"
      by simp_all
    show ?thesis
    proof (cases out)
      case (Some r)
      with s False a w2 td show ?thesis by (subst poll_ticks.simps) simp
    next
      case None
      have n: "next_tick period tk (clock w1) = tk + period" using c next_tick_at [OF period_pos] by simp
      have m: "nat (d + 1 - (tk + period)) < nat (d + 1 - tk)" using td period_pos by simp
      from less.hyps [OF m w2(1) w2(3)] obtain out' w' where
        r: "poll_ticks period (Some d) attempt (tk + period) w2 = Some (out', w')" "clock w' \<le> max (clock w2) (d + period)"
        by blast
      have "poll_ticks period (Some d) attempt tk w = Some (out', w')"
        using s False a None n r(1) by (subst poll_ticks.simps) simp
      with r(2) w2(3) td show ?thesis by (intro exI [of _ out'] exI [of _ w']) simp
    qed
  qed
qed

text \<open>An attempt that succeeds from some time on is made in time.\<close>

theorem poll_finds:
  assumes "good w" and "clock w < tk" and "tk \<le> s" and "ta + period \<le> s"
    and "\<And>w. good w \<Longrightarrow> clock w \<le> s \<Longrightarrow> fst (attempt w) = Some r \<or> clock w < ta \<and> fst (attempt w) = None"
    and "ctx = None \<or> (\<exists>d. ctx = Some d \<and> s < d)"
  shows "\<exists>w'. poll_ticks period ctx attempt tk w = Some (Some r, w') \<and> clock w' < s + period"
  using assms(1-3)
proof (induction "nat (s + 1 - tk)" arbitrary: tk w rule: less_induct)
  case less
  let ?w1 = "w\<lparr>clock := tk\<rparr>"
  have s: "select_done ctx tk w = (False, ?w1)"
    using less.prems(2,3) assms(6) by (auto simp: select_done_def Let_def)
  have g: "good ?w1" using less.prems(1) by (simp add: good_clock)
  obtain out w2 where a: "attempt ?w1 = (out, w2)" by fastforce
  from attempt_fast [OF g] good_attempt [OF g] a
  have w2: "good w2" "clock w2 < tk + period" by simp_all
  show ?case
  proof (cases "out = Some r")
    case True
    with s a w2 less.prems(3) show ?thesis by (subst poll_ticks.simps) simp
  next
    case False
    with assms(5) [OF g] a less.prems(3) have out: "out = None" "tk < ta" by auto
    have "nat (s + 1 - (tk + period)) < nat (s + 1 - tk)" using less.prems(3) period_pos by simp
    moreover have "tk + period \<le> s" using out(2) assms(4) by simp
    ultimately obtain w' where r: "poll_ticks period ctx attempt (tk + period) w2 = Some (Some r, w')" "clock w' < s + period"
      using less.hyps w2 by blast
    have "poll_ticks period ctx attempt tk w = Some (Some r, w')"
      using s a out(1) r(1) next_tick_at [OF period_pos, of tk] by (subst poll_ticks.simps) simp
    with r(2) show ?thesis by blast
  qed
qed

end

end
