(* ===== verification/Ingestor.thy ===== *)
theory Ingestor
  imports Store
begin

section \<open>The ingestor: \<open>internal/core/services/ingestor.go\<close>\<close>

text \<open>
  \<open>Ingest\<close> validates a message that came in and puts it into the store. A nil pointer is \<open>None\<close>.
  The handler that calls it does not read the message again, except for its run id, so that the
  time filled in through the pointer is only visible in the store.
\<close>

definition NewIngestor :: "'x Store option \<Rightarrow> gerror + 'x Store" where
  "NewIngestor st =
     (case st of
        None \<Rightarrow> Inl (errorf ErrConfiguration ''store is required'')
      | Some s \<Rightarrow> Inr s)"

definition Ingest :: "'x Store \<Rightarrow> Message option \<Rightarrow> 'x world \<Rightarrow> gerror option \<times> 'x world" where
  "Ingest st msg w =
     (case msg of
        None \<Rightarrow> (Some (errorf ErrValidation ''message is required''), w)
      | Some m \<Rightarrow>
          if TrimSpace (m_RunID m) = [] \<or> m_RunID m = ''unknown''
          then (Some (errorf ErrValidation ''run_id missing''), w)
          else let (m, w) =
                 (if IsZero (m_ReceivedAt m)
                  then let (now, w) = time_Now w in (m\<lparr>m_ReceivedAt := now\<rparr>, w)
                  else (m, w));
                 (err, w) = st_Deposit st m w
               in case err of
                    Some e \<Rightarrow> (Some (GErr [ErrInternal] (sentinel_text ErrInternal @ '': '' @ etext e)), w)
                  | None \<Rightarrow> (None, w))"

definition acceptable :: "Message option \<Rightarrow> bool" where
  "acceptable msg \<longleftrightarrow> (\<exists>m. msg = Some m \<and> TrimSpace (m_RunID m) \<noteq> [] \<and> m_RunID m \<noteq> ''unknown'')"

text \<open>The errors tell a bad message from a failing store, and a bad message never gets to the store.\<close>

lemma Ingest_cases:
  assumes "Ingest st msg w = (err, w')"
  obtains (rejected) e where "\<not> acceptable msg" "err = Some e" "\<And>s. errors_Is e s \<longleftrightarrow> s = ErrValidation" "w' = w"
  | (failed) m w1 x e where "acceptable msg" "outside w1 = outside w" "m_RunID m = m_RunID (the msg)"
      "st_Deposit st m w1 = (Some x, w')" "err = Some e" "\<And>s. errors_Is e s \<longleftrightarrow> s = ErrInternal"
  | (stored) m w1 where "acceptable msg" "outside w1 = outside w" "clock w \<le> clock w1" "err = None"
      "m = (the msg)\<lparr>m_ReceivedAt := m_ReceivedAt m\<rparr>" "\<not> IsZero (m_ReceivedAt (the msg)) \<Longrightarrow> m = the msg \<and> w1 = w"
      "st_Deposit st m w1 = (None, w')"
proof (cases "acceptable msg")
  case False
  with assms rejected show thesis by (auto simp: Ingest_def acceptable_def split: option.splits)
next
  case True
  then obtain m where m: "msg = Some m" "TrimSpace (m_RunID m) \<noteq> []" "m_RunID m \<noteq> ''unknown''"
    by (auto simp: acceptable_def)
  obtain m1 w1 where m1: "(if IsZero (m_ReceivedAt m) then let (now, w) = time_Now w in (m\<lparr>m_ReceivedAt := now\<rparr>, w)
      else (m, w)) = (m1, w1)" by fastforce
  have o: "outside w1 = outside w" "clock w \<le> clock w1" "m1 = m\<lparr>m_ReceivedAt := m_ReceivedAt m1\<rparr>" "m_RunID m1 = m_RunID m"
      "\<not> IsZero (m_ReceivedAt m) \<Longrightarrow> m1 = m \<and> w1 = w"
    using m1 outside_time_Now [of w] clock_time_Now(2) [of w] by (auto simp: split_beta Let_def split: if_splits)
  obtain e w2 where d: "st_Deposit st m1 w1 = (e, w2)" by fastforce
  show thesis
  proof (cases e)
    case None
    with assms m m1 d True o show thesis by (intro stored [of w1 m1]) (auto simp: Ingest_def)
  next
    case (Some x)
    with assms m m1 d True o show thesis
      by (intro failed [of w1 m1 x "GErr [ErrInternal] (sentinel_text ErrInternal @ '': '' @ etext x)"])
        (auto simp: Ingest_def errors_Is_def)
  qed
qed

end
