(* ===== verification/Webhook_Receiver.thy ===== *)
theory Webhook_Receiver
  imports Polling Ingestor
begin

section \<open>The webhook receiver: \<open>internal/adapters/secondary/receiver/webhook\<close>\<close>

text \<open>
  The receiver asks the store once a second for the message of its run, until the context ends.
  The time it has waited is only logged.
\<close>

record WebhookReceiver =
  wr_runID :: string
  wr_startedAt :: int

definition NewWebhookReceiver :: WebhookReceiver where
  "NewWebhookReceiver = \<lparr>wr_runID = [], wr_startedAt = zero_time\<rparr>"

definition webhook_Start :: "string \<Rightarrow> WebhookReceiver \<Rightarrow> 'x world \<Rightarrow> gerror option \<times> WebhookReceiver \<times> 'x world" where
  "webhook_Start runID r w =
     (let (now, w) = time_Now w in (None, r\<lparr>wr_runID := runID, wr_startedAt := now\<rparr>, w))"

definition second :: int where "second = 10 ^ 9"

text \<open>The branch of the tick.\<close>

definition webhook_attempt ::
  "'x Store \<Rightarrow> string \<Rightarrow> 'x world \<Rightarrow> (gerror + Message) option \<times> 'x world" where
  "webhook_attempt st runID w =
     (case st_Claim st runID WebhookReceiverType w of
        (Inl err, w) \<Rightarrow> (Some (Inl (errorf ErrInternal (''failed to claim message from store: '' @ etext err))), w)
      | (Inr None, w) \<Rightarrow> (None, w)
      | (Inr (Some msg), w) \<Rightarrow> (Some (Inr msg), w))"

definition deadline_exceeded :: string where "deadline_exceeded = ''context deadline exceeded''"

definition webhook_Collect ::
  "'x Store \<Rightarrow> WebhookReceiver \<Rightarrow> ctx \<Rightarrow> 'x world \<Rightarrow> ((gerror + Message) \<times> 'x world) option" where
  "webhook_Collect st r ctx w =
     (if wr_runID r = [] then Some (Inl (errorf ErrConfiguration ''receiver not started''), w)
      else do {
        (out, w) \<leftarrow> start_ticker (1 * second) ctx (webhook_attempt st (wr_runID r)) w;
        Some (case out of
          None \<Rightarrow> Inl (errorf ErrTimeout (''timeout waiting for webhook message: '' @ deadline_exceeded))
        | Some x \<Rightarrow> x, w)
      })"

definition webhook_Stop :: "WebhookReceiver \<Rightarrow> 'x world \<Rightarrow> gerror option \<times> 'x world" where
  "webhook_Stop r w = (None, w)"

subsection \<open>On a memory store that others use\<close>

text \<open>While the goroutine of a receiver waits, others deposit and delete messages. \<open>hist t\<close> is the
  memory store as it is at the time \<open>t\<close>; a claim reads it at the time of the claim.\<close>

definition shared_port :: "codec \<Rightarrow> (int \<Rightarrow> MemoryStore) \<Rightarrow> 'x Store" where
  "shared_port cod hist = disabled_port
     \<lparr>st_Claim := (\<lambda>runID receiverType w.
        let (now, w) = time_Now w in (mem_Claim cod runID receiverType now (hist now), w))\<rparr>"

lemma memory_port_shared:
  "st_Claim (memory_port cod get put) runID t w = st_Claim (shared_port cod (\<lambda>_. get (outside w))) runID t w"
  by (simp add: memory_port_def shared_port_def split_beta Let_def)

text \<open>The readings of the clock of this run are less than a second apart.\<close>

definition quick :: "'x world \<Rightarrow> bool" where
  "quick w \<longleftrightarrow> (\<forall>n. int (draws w n) < second)"

lemma quick_clock [simp]: "quick (w\<lparr>clock := t\<rparr>) = quick w"
  by (simp add: quick_def)

lemma quick_draw: "quick w \<Longrightarrow> quick (w\<lparr>draws := snd (draw (draws w))\<rparr>)"
  by (simp add: quick_def draw_def)

lemma quick_time_Now:
  assumes "quick w"
  shows "quick (snd (time_Now w))" and "clock (snd (time_Now w)) < clock w + second"
  using assms by (simp_all add: quick_def time_Now_def draw_def Let_def)

lemma shared_attempt:
  "webhook_attempt (shared_port cod hist) runID w =
     (case mem_Claim cod runID WebhookReceiverType (fst (time_Now w)) (hist (fst (time_Now w))) of
        Inl err \<Rightarrow> (Some (Inl (errorf ErrInternal (''failed to claim message from store: '' @ etext err))), snd (time_Now w))
      | Inr None \<Rightarrow> (None, snd (time_Now w))
      | Inr (Some msg) \<Rightarrow> (Some (Inr msg), snd (time_Now w)))"
  by (simp add: webhook_attempt_def shared_port_def split_beta Let_def split: sum.splits option.splits)

lemma snd_shared_attempt: "snd (webhook_attempt (shared_port cod hist) runID w) = snd (time_Now w)"
  by (simp add: shared_attempt split: sum.splits option.splits)

interpretation webhook: polling "webhook_attempt (shared_port cod hist) runID" second quick for cod hist runID
proof unfold_locales
  fix w :: "'a world"
  assume "quick w"
  from quick_time_Now [OF this] clock_time_Now(2) [of w]
  show "quick (snd (webhook_attempt (shared_port cod hist) runID w))"
    and "clock w \<le> clock (snd (webhook_attempt (shared_port cod hist) runID w))
      \<and> clock (snd (webhook_attempt (shared_port cod hist) runID w)) < clock w + second"
    by (simp_all add: snd_shared_attempt)
qed (simp_all add: second_def quick_draw)

text \<open>On the disabled store there is never a message.\<close>

lemma disabled_attempt: "webhook_attempt disabled_port runID w = (None, w)"
  by (simp add: webhook_attempt_def disabled_port_def)

interpretation disabled: polling "webhook_attempt disabled_port runID" second quick for runID
  by unfold_locales (simp_all add: disabled_attempt second_def quick_draw)

subsection \<open>Properties\<close>

lemma webhook_Collect_started:
  "wr_runID r \<noteq> [] \<Longrightarrow> webhook_Collect st r ctx w =
     map_option (\<lambda>(out, w). (case out of
          None \<Rightarrow> Inl (errorf ErrTimeout (''timeout waiting for webhook message: '' @ deadline_exceeded))
        | Some x \<Rightarrow> x, w)) (poll_ticks second ctx (webhook_attempt st (wr_runID r)) (clock w + second) w)"
  by (cases "poll_ticks second ctx (webhook_attempt st (wr_runID r)) (clock w + second) w")
    (auto simp: webhook_Collect_def start_ticker_def)

text \<open>C28 (webhook_collect_returns): with a deadline, a started receiver on a memory store returns, at
  the latest one second after the deadline (or at once where that has passed), whatever others do to
  the store meanwhile: with a timeout, never before the deadline, or with what the store answers for
  its run at that time, an error of the store or the message.\<close>

theorem webhook_collect_returns:
  assumes "wr_runID r \<noteq> []" and "quick w"
  shows "\<exists>out w'. webhook_Collect (shared_port cod hist) r (Some d) w = Some (out, w')
     \<and> clock w' \<le> max (clock w) (d + second)
     \<and> (case out of
          Inl err \<Rightarrow> errors_Is err ErrTimeout \<and> d \<le> clock w'
            \<or> errors_Is err ErrInternal \<and> (\<exists>e. mem_Claim cod (wr_runID r) ''webhook'' (clock w') (hist (clock w')) = Inl e)
        | Inr msg \<Rightarrow> mem_Claim cod (wr_runID r) ''webhook'' (clock w') (hist (clock w')) = Inr (Some msg))"
proof -
  let ?attempt = "webhook_attempt (shared_port cod hist) (wr_runID r)"
  have "clock w < clock w + second" by (simp add: second_def)
  from webhook.poll_returns [OF assms(2) this, of d cod hist "wr_runID r"] obtain out w' where
    p: "poll_ticks second (Some d) ?attempt (clock w + second) w = Some (out, w')"
    and c: "clock w' \<le> max (clock w) (d + second)" by blast
  let ?out = "case out of
      None \<Rightarrow> Inl (errorf ErrTimeout (''timeout waiting for webhook message: '' @ deadline_exceeded))
    | Some x \<Rightarrow> x"
  have e: "webhook_Collect (shared_port cod hist) r (Some d) w = Some (?out, w')"
    using assms(1) p by (simp add: webhook_Collect_started)
  show ?thesis
  proof (cases out)
    case None
    with poll_ticks_cases [OF p] have "d \<le> clock w'" by simp
    with None e c show ?thesis by (intro exI [of _ ?out] exI [of _ w']) simp
  next
    case (Some x)
    with poll_ticks_cases [OF p] obtain w1 where "?attempt w1 = (Some x, w')" by auto
    then have "case x of
          Inl err \<Rightarrow> errors_Is err ErrInternal \<and> (\<exists>e. mem_Claim cod (wr_runID r) ''webhook'' (clock w') (hist (clock w')) = Inl e)
        | Inr msg \<Rightarrow> mem_Claim cod (wr_runID r) ''webhook'' (clock w') (hist (clock w')) = Inr (Some msg)"
      by (auto simp: shared_attempt clock_time_Now(1) WebhookReceiverType_def split: sum.splits option.splits)
    with Some e c show ?thesis by (intro exI [of _ ?out] exI [of _ w']) (auto split: sum.splits)
  qed
qed

theorem webhook_collect_returns_witness:
  "\<exists>out w'. webhook_Collect (shared_port example_codec (\<lambda>_. NewMemoryStore 60)) \<lparr>wr_runID = ''r'', wr_startedAt = 0\<rparr> (Some 5)
      \<lparr>draws = \<lambda>_. 0, clock = 0, outside = ()\<rparr> = Some (out, w') \<and> clock w' \<le> 5 + second"
proof -
  have q: "quick \<lparr>draws = \<lambda>_. 0, clock = 0, outside = ()\<rparr>" by (simp add: quick_def second_def)
  have r: "wr_runID \<lparr>wr_runID = ''r'', wr_startedAt = 0\<rparr> \<noteq> []" by simp
  from webhook_collect_returns [OF r q, of example_codec "\<lambda>_. NewMemoryStore 60" 5] show ?thesis
    by (auto simp: second_def)
qed

text \<open>The store after operations on other slots.\<close>

lemma claim_untouched:
  assumes "\<forall>p \<in> set ops. \<not> touches cod (store_key runID t) p"
  shows "mem_Claim cod runID t now (fold (mem_step cod) ops s) = mem_Claim cod runID t now s"
proof -
  have "map_of (ms_messages (mem_step cod p s)) (store_key runID t) = map_of (ms_messages s) (store_key runID t)"
    if "\<not> touches cod (store_key runID t) p" for p s
    using that by (cases p) (auto simp: mem_defs mem_stored_def Let_def split: sum.splits)
  then have "map_of (ms_messages (fold (mem_step cod) ops s)) (store_key runID t) = map_of (ms_messages s) (store_key runID t)"
    using assms by (induction ops arbitrary: s) simp_all
  then show ?thesis by (simp add: mem_Claim_def)
qed

lemma Ingest_memory:
  assumes "Ingest (memory_port cod id (\<lambda>s _. s)) (Some m) w0 = (None, w1)"
    and "\<forall>a data. marshal_message cod (m\<lparr>m_ReceivedAt := a\<rparr>) = Inr data \<longrightarrow> unmarshal_message cod data = Inr (m\<lparr>m_ReceivedAt := a\<rparr>)"
  obtains at where "TrimSpace (m_RunID m) \<noteq> []" "\<not> IsZero (m_ReceivedAt m) \<Longrightarrow> at = m_ReceivedAt m"
    "\<And>now. now \<le> clock w0 + ms_ttl (outside w0) \<Longrightarrow>
       mem_Claim cod (m_RunID m) (m_ReceiverType m) now (outside w1) = Inr (Some (m\<lparr>m_ReceivedAt := at\<rparr>))"
  using assms(1)
proof (cases rule: Ingest_cases)
  case rejected
  then show thesis by simp
next
  case failed
  then show thesis by simp
next
  case (stored m' w2)
  let ?now = "fst (time_Now w2)"
  have m'1: "m' = m\<lparr>m_ReceivedAt := m_ReceivedAt m'\<rparr>" using stored(5) by simp
  then obtain a where a: "m' = m\<lparr>m_ReceivedAt := a\<rparr>" ..
  note m' = m'1 a
  have d: "mem_Deposit cod m' ?now (outside w0) = (None, outside w1)"
    using stored(2,7) by (auto simp: memory_port_def split_beta Let_def prod_eq_iff)
  then obtain data where data: "marshal_message cod m' = Inr data"
    by (auto simp: mem_Deposit_def split: sum.splits)
  have o1: "outside w1 = outside w0\<lparr>ms_messages := AList.update (store_key (m_RunID m) (m_ReceiverType m))
      \<lparr>me_payload = data, me_expiresAt = ?now + ms_ttl (outside w0)\<rparr> (ms_messages (outside w0))\<rparr>"
    using d data m' by (auto simp: mem_Deposit_def Let_def)
  have "clock w0 \<le> ?now"
    using stored(3) clock_time_Now [of w2] by simp
  then have "mem_Claim cod (m_RunID m) (m_ReceiverType m) now (outside w1) = Inr (Some m')"
    if "now \<le> clock w0 + ms_ttl (outside w0)" for now
    using data assms(2) that m' o1 by (simp add: mem_Claim_def)
  with m'(1) show thesis
    using that [of "m_ReceivedAt m'"] stored(1,6) by (auto simp: acceptable_def)
qed

text \<open>The slot of a message over time: empty before the world \<open>w1\<close> in which it was stored, and not
  touched after it.\<close>

definition slot_kept :: "codec \<Rightarrow> (int \<Rightarrow> MemoryStore) \<Rightarrow> string \<Rightarrow> MemoryStore world \<Rightarrow> bool" where
  "slot_kept cod hist runID w1 \<longleftrightarrow>
     (\<forall>t < clock w1. mem_Claim cod runID WebhookReceiverType t (hist t) = Inr None)
     \<and> (\<forall>t \<ge> clock w1. \<exists>ops. hist t = fold (mem_step cod) ops (outside w1)
          \<and> (\<forall>p \<in> set ops. \<not> touches cod (store_key runID WebhookReceiverType) p))"

text \<open>A message that the ingestor accepts into the memory store,
  before or while the webhook receiver of its run waits, is what the receiver returns, at most two
  seconds after both the message was there and the receiver had started to collect, provided that the
  deadline and the time to live leave that much time and nobody touches the slot of the message.\<close>

lemma ingest_collect:
  fixes w :: "'x world"
  assumes "Ingest (memory_port cod id (\<lambda>s _. s)) (Some m) w0 = (None, w1)"
    and "m_ReceiverType m = WebhookReceiverType" and "wr_runID r = m_RunID m"
    and "\<forall>a data. marshal_message cod (m\<lparr>m_ReceivedAt := a\<rparr>) = Inr data \<longrightarrow> unmarshal_message cod data = Inr (m\<lparr>m_ReceivedAt := a\<rparr>)"
    and "slot_kept cod hist (m_RunID m) w1"
    and "quick w" and "max (clock w1) (clock w) + 2 * second \<le> clock w0 + ms_ttl (outside w0)"
    and "ctx = None \<or> (\<exists>d. ctx = Some d \<and> max (clock w1) (clock w) + second < d)"
  shows "\<exists>at w'. webhook_Collect (shared_port cod hist) r ctx w = Some (Inr (m\<lparr>m_ReceivedAt := at\<rparr>), w')
     \<and> (\<not> IsZero (m_ReceivedAt m) \<longrightarrow> at = m_ReceivedAt m)
     \<and> clock w' < max (clock w1) (clock w) + 2 * second"
proof -
  let ?s = "max (clock w1) (clock w) + second"
  let ?attempt = "webhook_attempt (shared_port cod hist) (m_RunID m)"
  from Ingest_memory [OF assms(1,4)] assms(2) obtain at where run: "m_RunID m \<noteq> []"
    and at: "\<not> IsZero (m_ReceivedAt m) \<longrightarrow> at = m_ReceivedAt m"
    and claim: "\<And>now. now \<le> clock w0 + ms_ttl (outside w0) \<Longrightarrow>
       mem_Claim cod (m_RunID m) WebhookReceiverType now (outside w1) = Inr (Some (m\<lparr>m_ReceivedAt := at\<rparr>))"
    by (metis TrimSpace_Nil)
  have there: "mem_Claim cod (m_RunID m) WebhookReceiverType t (hist t) = Inr (Some (m\<lparr>m_ReceivedAt := at\<rparr>))"
    if t: "clock w1 \<le> t" "t < ?s + second" for t
  proof -
    from assms(5) t(1) obtain ops where "hist t = fold (mem_step cod) ops (outside w1)"
      "\<forall>p \<in> set ops. \<not> touches cod (store_key (m_RunID m) WebhookReceiverType) p"
      by (auto simp: slot_kept_def)
    with claim_untouched claim [of t] t(2) assms(7) show ?thesis by simp
  qed
  have fast: "fst (?attempt w) = Some (Inr (m\<lparr>m_ReceivedAt := at\<rparr>)) \<or> clock w < clock w1 \<and> fst (?attempt w) = None"
    if "quick w" "clock w \<le> ?s" for w :: "'x world"
  proof -
    let ?t = "fst (time_Now w)"
    have t: "clock w \<le> ?t" "?t < ?s + second"
      using quick_time_Now(2) [OF that(1)] clock_time_Now [of w] that(2) by simp_all
    show ?thesis
    proof (cases "clock w1 \<le> ?t")
      case True
      with there [of ?t] t show ?thesis by (simp add: shared_attempt)
    next
      case False
      with assms(5) t show ?thesis by (simp add: shared_attempt slot_kept_def)
    qed
  qed
  have p: "0 < second" by (simp add: second_def)
  have "\<exists>w'. poll_ticks second ctx ?attempt (clock w + second) w = Some (Some (Inr (m\<lparr>m_ReceivedAt := at\<rparr>)), w')
      \<and> clock w' < ?s + second"
    by (rule webhook.poll_finds [OF assms(6) _ _ _ fast]) (use p assms(8) in auto)
  then obtain w' where "poll_ticks second ctx ?attempt (clock w + second) w = Some (Some (Inr (m\<lparr>m_ReceivedAt := at\<rparr>)), w')"
    "clock w' < ?s + second" by blast
  with run assms(3) at show ?thesis
    by (intro exI [of _ at] exI [of _ w']) (simp add: webhook_Collect_started)
qed

text \<open>On the disabled store a receiver with a deadline ends with a
  timeout, and one without a deadline does not return.\<close>

theorem disabled_store_times_out:
  assumes "wr_runID r \<noteq> []" and "quick w"
  shows "(\<exists>err w'. webhook_Collect disabled_port r (Some d) w = Some (Inl err, w') \<and> errors_Is err ErrTimeout
            \<and> d \<le> clock w' \<and> clock w' \<le> max (clock w) (d + second))
     \<and> webhook_Collect disabled_port r None w = None"
proof -
  have "clock w < clock w + second" by (simp add: second_def)
  from disabled.poll_returns [OF assms(2) this, of d "wr_runID r"] obtain out w' where
    p: "poll_ticks second (Some d) (webhook_attempt disabled_port (wr_runID r)) (clock w + second) w = Some (out, w')"
    "clock w' \<le> max (clock w) (d + second)" by blast
  with poll_ticks_cases [OF p(1)] have "out = None" "d \<le> clock w'" by (auto simp: disabled_attempt)
  with p assms(1) have "webhook_Collect disabled_port r (Some d) w =
      Some (Inl (errorf ErrTimeout (''timeout waiting for webhook message: '' @ deadline_exceeded)), w')"
    by (simp add: webhook_Collect_started)
  moreover have "webhook_Collect disabled_port r None w = None"
    using assms(1) by (simp add: webhook_Collect_started poll_ticks_forever disabled_attempt)
  ultimately show ?thesis using p(2) \<open>d \<le> clock w'\<close> by auto
qed

theorem disabled_store_times_out_witness:
  "\<exists>err w'. webhook_Collect disabled_port \<lparr>wr_runID = ''r'', wr_startedAt = 0\<rparr> (Some 5)
     \<lparr>draws = \<lambda>_. 0, clock = 0, outside = ()\<rparr> = Some (Inl err, w') \<and> errors_Is err ErrTimeout"
proof -
  have q: "quick \<lparr>draws = \<lambda>_. 0, clock = 0, outside = ()\<rparr>" by (simp add: quick_def second_def)
  have r: "wr_runID \<lparr>wr_runID = ''r'', wr_startedAt = 0\<rparr> \<noteq> []" by simp
  from disabled_store_times_out [OF r q, of 5] show ?thesis by blast
qed

end
