(* ===== verification/Webhook_Server.thy ===== *)
theory Webhook_Server
  imports Url_Forms Webhook_Receiver
begin

section \<open>The webhook endpoint: \<open>internal/adapters/primary/webhook\<close>\<close>

text \<open>
  The extractors of the providers turn a request into a message, the handler passes it to the
  ingestor. An extractor draws the order of the maps it visits and reads the clock, so it works on
  the world; it does not touch what lies outside.
\<close>

subsection \<open>The providers\<close>

type_synonym 'x Extractor = "WebhookRequest \<Rightarrow> 'x world \<Rightarrow> (gerror + Message) \<times> 'x world"

text \<open>The message every extractor builds at its end.\<close>

definition provider_message ::
  "WebhookRequest \<Rightarrow> string \<Rightarrow> strmap \<Rightarrow> string \<Rightarrow> 'x world \<Rightarrow> Message \<times> 'x world" where
  "provider_message req runID flds raw w =
     (let (now, w) = time_Now w in
      (\<lparr>m_RunID = runID, m_ReceiverType = WebhookReceiverType, m_ReceivedAt = now,
        m_Headers = [(''content-type'', header_Get req ''Content-Type'')], m_Fields = flds, m_Raw = raw\<rparr>, w))"

definition raw_bytes :: "string option \<Rightarrow> string" where
  "raw_bytes raw = (case raw of None \<Rightarrow> [] | Some b \<Rightarrow> b)"

definition twilio_Extract :: "lib \<Rightarrow> 'x Extractor" where
  "twilio_Extract L req w =
     (let ((flds, raw, err), e) = ExtractFields L req (draws w); w = w\<lparr>draws := e\<rparr> in
      case err of
        Some x \<Rightarrow> (Inl x, w)
      | None \<Rightarrow>
          (let runID = TrimSpace (go_index flds ''body'');
               (msg, w) = provider_message req runID flds (raw_bytes raw) w
           in (Inr msg, w)))"

definition meta_Extract :: "lib \<Rightarrow> 'x Extractor" where
  "meta_Extract L req w =
     (let ((flds, raw, err), e) = ExtractFields L req (draws w); w = w\<lparr>draws := e\<rparr> in
      case err of
        Some x \<Rightarrow> (Inl x, w)
      | None \<Rightarrow>
          (let runID = go_index flds ''messages.0.text.body'';
               runID = (if runID = [] then ''unknown'' else runID);
               (msg, w) = provider_message req runID flds (raw_bytes raw) w
           in (Inr msg, w)))"

text \<open>The generic provider takes a missing or blank body for an empty one.\<close>

definition generic_body :: "lib \<Rightarrow> WebhookRequest \<Rightarrow> entropy \<Rightarrow> (gerror + strmap \<times> string) \<times> entropy" where
  "generic_body L req e =
     (let ((flds, raw, err), e) = ExtractFields L req e in
      (case err of
         Some x \<Rightarrow>
           if errors_Is x ErrValidation
           then if raw = None \<or> TrimSpace (raw_bytes raw) = [] then Inr ([], []) else Inl x
           else Inl x
       | None \<Rightarrow> Inr (flds, raw_bytes raw), e))"

text \<open>The fields of the three parts of the request and its method; a loop over values writes
  under the lower case of the names, in the order of the run.\<close>

definition prefixed_values :: "string \<Rightarrow> (string \<times> string list) list \<Rightarrow> strmap \<Rightarrow> strmap" where
  "prefixed_values pre vals flds =
     fold (\<lambda>(k, vs). AList.update (pre @ ToLower k) (Join vs '','')) vals flds"

definition generic_fields :: "WebhookRequest \<Rightarrow> strmap \<Rightarrow> entropy \<Rightarrow> strmap \<times> entropy" where
  "generic_fields req flds e =
     (let flds = go_copy flds (map (\<lambda>(k, v). (''body.'' @ k, v)) flds);
          (headers, e) = go_range (wq_Header req) e;
          flds = prefixed_values ''headers.'' headers flds;
          (query, e) = go_range (url_Query req) e;
          flds = prefixed_values ''query.'' query flds
      in (AList.update ''method'' (wq_Method req) flds, e))"

definition generic_run_id :: "WebhookRequest \<Rightarrow> strmap \<Rightarrow> string" where
  "generic_run_id req flds =
     (let runID = values_Get (url_Query req) ''run_id'';
          runID = (if runID = [] then header_Get req ''X-E2E-Run-ID'' else runID)
      in if runID \<noteq> [] then runID
         else if TrimSpace (go_index flds ''run_id'') \<noteq> [] then TrimSpace (go_index flds ''run_id'')
         else TrimSpace (go_index flds ''runid''))"

definition generic_Extract :: "lib \<Rightarrow> 'x Extractor" where
  "generic_Extract L req w =
     (let (body, e) = generic_body L req (draws w) in
      case body of
        Inl x \<Rightarrow> (Inl x, w\<lparr>draws := e\<rparr>)
      | Inr (flds, raw) \<Rightarrow>
          (let (flds, e) = generic_fields req flds e;
               (msg, w) = provider_message req (generic_run_id req flds) flds raw (w\<lparr>draws := e\<rparr>)
           in (Inr msg, w)))"

subsection \<open>The server\<close>

type_synonym 'x extractors = "(string, 'x Extractor) gomap"

definition NewWebhookServer :: "'i option \<Rightarrow> gerror + 'i \<times> 'x extractors" where
  "NewWebhookServer ingestor =
     (case ingestor of
        None \<Rightarrow> Inl (errorf ErrConfiguration ''message ingestor is required'')
      | Some i \<Rightarrow> Inr (i, []))"

definition RegisterExtractor :: "string \<Rightarrow> 'x Extractor \<Rightarrow> 'x extractors \<Rightarrow> 'x extractors" where
  "RegisterExtractor path ext exts = AList.update path ext exts"

text \<open>The status and the text that the handler answers with (\<open>http.Error\<close>), or no content.\<close>

datatype webhook_reply = Refused int string | NoContent

definition error_reply :: "gerror \<Rightarrow> webhook_reply" where
  "error_reply err =
     (if errors_Is err ErrValidation then Refused 400 (etext err) else Refused 500 ''internal server error'')"

definition provider_of :: "WebhookRequest \<Rightarrow> string" where
  "provider_of req = drop (length ''/webhook/'') (wq_Path req)"

definition handleWebhook :: "'x extractors \<Rightarrow> 'x Store \<Rightarrow> WebhookRequest \<Rightarrow> 'x world \<Rightarrow> webhook_reply \<times> 'x world" where
  "handleWebhook exts ingestor req w =
     (case map_of exts (provider_of req) of
        None \<Rightarrow> (Refused 404 ''unknown provider'', w)
      | Some extractor \<Rightarrow>
          (case extractor req w of
             (Inl err, w) \<Rightarrow> (error_reply err, w)
           | (Inr msg, w) \<Rightarrow>
               (case Ingest ingestor (Some msg) w of
                  (Some err, w) \<Rightarrow> (error_reply err, w)
                | (None, w) \<Rightarrow> (NoContent, w))))"

text \<open>The three providers as the server registers them (\<open>cmd/server/main.go\<close>).\<close>

definition main_extractors :: "lib \<Rightarrow> 'x extractors" where
  "main_extractors L =
     RegisterExtractor ''generic'' (generic_Extract L)
       (RegisterExtractor ''meta'' (meta_Extract L) (RegisterExtractor ''twilio'' (twilio_Extract L) []))"

subsection \<open>What an extractor promises\<close>

text \<open>An extractor leaves the world outside alone, never turns the clock back, and gives messages of
  the webhook type only. The three providers keep the contract, and the handler relies on it.\<close>

locale extractor =
  fixes extr :: "'x Extractor"
  assumes extr_outside: "outside (snd (extr req w)) = outside w"
    and extr_clock: "clock w \<le> clock (snd (extr req w))"
    and extr_type: "fst (extr req w) = Inr msg \<Longrightarrow> m_ReceiverType msg = WebhookReceiverType"
begin

lemma handled:
  assumes "handleWebhook exts ingestor req w = (reply, w')"
    and "map_of exts (provider_of req) = Some extr"
  obtains (refused) err w1 where "extr req w = (Inl err, w1)" "reply = error_reply err" "w' = w1" "outside w1 = outside w"
  | (rejected) msg err w1 where "extr req w = (Inr msg, w1)" "Ingest ingestor (Some msg) w1 = (Some err, w')"
      "reply = error_reply err" "outside w1 = outside w"
  | (accepted) msg w1 where "extr req w = (Inr msg, w1)" "Ingest ingestor (Some msg) w1 = (None, w')" "reply = NoContent"
      "outside w1 = outside w" "clock w \<le> clock w1" "m_ReceiverType msg = WebhookReceiverType"
proof (cases "extr req w")
  case (Pair out w1)
  with extr_outside [of req w] extr_clock [of w req] have o: "outside w1 = outside w" "clock w \<le> clock w1" by simp_all
  show thesis
  proof (cases out)
    case (Inl err)
    with assms Pair o refused show thesis by (auto simp: handleWebhook_def)
  next
    case (Inr msg)
    obtain err w2 where i: "Ingest ingestor (Some msg) w1 = (err, w2)" by fastforce
    have t: "m_ReceiverType msg = WebhookReceiverType" using extr_type [of req w] Pair Inr by simp
    show thesis
    proof (cases err)
      case None
      with assms Pair Inr i o t show thesis by (intro accepted [of msg w1]) (simp_all add: handleWebhook_def)
    next
      case (Some x)
      with assms Pair Inr i o show thesis by (intro rejected [of msg w1 x]) (simp_all add: handleWebhook_def)
    qed
  qed
qed

end

lemma provider_message_props:
  "outside (snd (provider_message req runID flds raw w)) = outside w"
  "clock w \<le> clock (snd (provider_message req runID flds raw w))"
  "m_ReceiverType (fst (provider_message req runID flds raw w)) = WebhookReceiverType"
  "m_RunID (fst (provider_message req runID flds raw w)) = runID"
  "m_Fields (fst (provider_message req runID flds raw w)) = flds"
  using clock_time_Now(2) [of w] by (simp_all add: provider_message_def split_beta Let_def)

text \<open>All three end in an error before they have read the clock, or in \<open>provider_message\<close>.\<close>

definition provider_shape :: "'x Extractor \<Rightarrow> bool" where
  "provider_shape extr \<longleftrightarrow> (\<forall>req w.
     (\<exists>x e. extr req w = (Inl x, w\<lparr>draws := e\<rparr>))
     \<or> (\<exists>runID flds raw e. extr req w = map_prod Inr id (provider_message req runID flds raw (w\<lparr>draws := e\<rparr>))))"

lemma provider_shape_extractor:
  assumes "provider_shape extr"
  shows "extractor extr"
proof
  fix req w msg
  from assms have "(\<exists>x e. extr req w = (Inl x, w\<lparr>draws := e\<rparr>))
     \<or> (\<exists>runID flds raw e. extr req w = map_prod Inr id (provider_message req runID flds raw (w\<lparr>draws := e\<rparr>)))"
    by (simp add: provider_shape_def)
  then show "outside (snd (extr req w)) = outside w" and "clock w \<le> clock (snd (extr req w))"
    and "fst (extr req w) = Inr msg \<Longrightarrow> m_ReceiverType msg = WebhookReceiverType"
    using provider_message_props(2) [of "w\<lparr>draws := _\<rparr>"] by (auto simp: provider_message_props)
qed

lemma twilio_shape: "provider_shape (twilio_Extract L)"
  unfolding provider_shape_def
proof (intro allI)
  fix req and w :: "'a world"
  obtain flds raw err e where x: "ExtractFields L req (draws w) = ((flds, raw, err), e)" by (metis prod_cases3 surj_pair)
  show "(\<exists>x e. twilio_Extract L req w = (Inl x, w\<lparr>draws := e\<rparr>))
     \<or> (\<exists>runID flds raw e. twilio_Extract L req w = map_prod Inr id (provider_message req runID flds raw (w\<lparr>draws := e\<rparr>)))"
    by (cases err) (auto simp: twilio_Extract_def x map_prod_def split_beta Let_def)
qed

lemma meta_shape: "provider_shape (meta_Extract L)"
  unfolding provider_shape_def
proof (intro allI)
  fix req and w :: "'a world"
  obtain flds raw err e where x: "ExtractFields L req (draws w) = ((flds, raw, err), e)" by (metis prod_cases3 surj_pair)
  show "(\<exists>x e. meta_Extract L req w = (Inl x, w\<lparr>draws := e\<rparr>))
     \<or> (\<exists>runID flds raw e. meta_Extract L req w = map_prod Inr id (provider_message req runID flds raw (w\<lparr>draws := e\<rparr>)))"
    by (cases err) (auto simp: meta_Extract_def x map_prod_def split_beta Let_def)
qed

lemma generic_shape: "provider_shape (generic_Extract L)"
  unfolding provider_shape_def
proof (intro allI)
  fix req and w :: "'a world"
  obtain body e where x: "generic_body L req (draws w) = (body, e)" by fastforce
  show "(\<exists>x e. generic_Extract L req w = (Inl x, w\<lparr>draws := e\<rparr>))
     \<or> (\<exists>runID flds raw e. generic_Extract L req w = map_prod Inr id (provider_message req runID flds raw (w\<lparr>draws := e\<rparr>)))"
    by (cases body) (auto simp: generic_Extract_def x map_prod_def split_beta Let_def)
qed

interpretation twilio: extractor "twilio_Extract L" for L
  by (rule provider_shape_extractor) (rule twilio_shape)

interpretation meta: extractor "meta_Extract L" for L
  by (rule provider_shape_extractor) (rule meta_shape)

interpretation generic: extractor "generic_Extract L" for L
  by (rule provider_shape_extractor) (rule generic_shape)

lemma main_extractors_lookup:
  "map_of (main_extractors L) p =
     (if p = ''generic'' then Some (generic_Extract L) else if p = ''meta'' then Some (meta_Extract L)
      else if p = ''twilio'' then Some (twilio_Extract L) else None)"
  by (simp add: main_extractors_def RegisterExtractor_def)

text \<open>The handler with the registered providers: an unknown path, an error, or a message that the
  ingestor has taken.\<close>

lemma main_handled:
  fixes w :: "'x world"
  assumes "handleWebhook (main_extractors L) ingestor req w = (reply, w')"
  obtains (unknown) "provider_of req \<notin> {''generic'', ''meta'', ''twilio''}"
      "reply = Refused 404 ''unknown provider''" "w' = w"
  | (refused) err where "reply = error_reply err" "outside w' = outside w"
      "provider_of req \<in> {''generic'', ''meta'', ''twilio''}"
  | (rejected) msg err w1 where "Ingest ingestor (Some msg) w1 = (Some err, w')" "reply = error_reply err" "outside w1 = outside w"
      "provider_of req \<in> {''generic'', ''meta'', ''twilio''}"
  | (accepted) msg w1 where "Ingest ingestor (Some msg) w1 = (None, w')" "reply = NoContent"
      "outside w1 = outside w" "clock w \<le> clock w1" "m_ReceiverType msg = WebhookReceiverType"
      "provider_of req \<in> {''generic'', ''meta'', ''twilio''}"
proof -
  let ?p = "provider_of req"
  consider "?p = ''generic''" | "?p = ''meta''" | "?p = ''twilio''" | "?p \<notin> {''generic'', ''meta'', ''twilio''}" by blast
  then show thesis
  proof cases
    case 1
    then have e: "map_of (main_extractors L) ?p = Some (generic_Extract L)" by (simp add: main_extractors_lookup)
    show thesis
      by (rule generic.handled [OF assms e]) (use 1 in \<open>auto intro: refused rejected accepted\<close>)
  next
    case 2
    then have e: "map_of (main_extractors L) ?p = Some (meta_Extract L)" by (simp add: main_extractors_lookup)
    show thesis
      by (rule meta.handled [OF assms e]) (use 2 in \<open>auto intro: refused rejected accepted\<close>)
  next
    case 3
    then have e: "map_of (main_extractors L) ?p = Some (twilio_Extract L)" by (simp add: main_extractors_lookup)
    show thesis
      by (rule twilio.handled [OF assms e]) (use 3 in \<open>auto intro: refused rejected accepted\<close>)
  next
    case 4
    then have "map_of (main_extractors L :: 'x extractors) ?p = None" by (simp add: main_extractors_lookup)
    with assms have "reply = Refused 404 ''unknown provider''" "w' = w" by (simp_all add: handleWebhook_def)
    with 4 unknown show thesis by blast
  qed
qed

subsection \<open>Properties\<close>

lemma Ingest_memory_refused:
  assumes "Ingest (memory_port cod id (\<lambda>s _. s)) msg w = (Some err, w')"
  shows "outside w' = outside w"
  using assms
proof (cases rule: Ingest_cases)
  case (failed m w1 x e)
  have "fst (mem_Deposit cod m now (outside w)) = Some y \<Longrightarrow> snd (mem_Deposit cod m now (outside w)) = outside w" for now y
    by (simp add: mem_Deposit_def Let_def split: sum.splits)
  with failed(2,4) show ?thesis by (auto simp: memory_port_def split_beta Let_def)
qed simp_all

lemma error_reply_code: "error_reply err = Refused code tx \<Longrightarrow> code \<in> {400, 500}" "error_reply err \<noteq> NoContent"
  by (auto simp: error_reply_def split: if_splits)

text \<open>What the endpoint does on the memory store: a request is refused and the store is as before, or one
  message goes into the store.\<close>

lemma handleWebhook_memory:
  assumes "handleWebhook (main_extractors L) (memory_port cod id (\<lambda>s _. s)) req w = (reply, w')"
  obtains (refused) code tx where "reply = Refused code tx" "outside w' = outside w" "code \<in> {400, 404, 500}"
      "code = 404 \<longleftrightarrow> provider_of req \<notin> {''generic'', ''meta'', ''twilio''}"
  | (stored) msg now where "reply = NoContent" "provider_of req \<in> {''generic'', ''meta'', ''twilio''}"
      "acceptable (Some msg)" "m_ReceiverType msg = WebhookReceiverType"
      "mem_Deposit cod msg now (outside w) = (None, outside w')"
  using assms
proof (rule main_handled)
  assume "provider_of req \<notin> {''generic'', ''meta'', ''twilio''}" "reply = Refused 404 ''unknown provider''" "w' = w"
  with refused show thesis by simp
next
  fix err
  assume r: "reply = error_reply err" "outside w' = outside w" and p: "provider_of req \<in> {''generic'', ''meta'', ''twilio''}"
  then obtain code tx where "reply = Refused code tx" "code \<in> {400, 500}"
    using error_reply_code by (metis webhook_reply.exhaust)
  with r(2) p refused show thesis by auto
next
  fix msg err w1
  assume i: "Ingest (memory_port cod id (\<lambda>s _. s)) (Some msg) w1 = (Some err, w')" "outside w1 = outside w"
    and r: "reply = error_reply err" and p: "provider_of req \<in> {''generic'', ''meta'', ''twilio''}"
  then obtain code tx where "reply = Refused code tx" "code \<in> {400, 500}"
    using error_reply_code by (metis webhook_reply.exhaust)
  with Ingest_memory_refused [OF i(1)] i(2) p refused show thesis by auto
next
  fix msg w1
  assume i: "Ingest (memory_port cod id (\<lambda>s _. s)) (Some msg) w1 = (None, w')" "outside w1 = outside w"
    and r: "reply = NoContent" "m_ReceiverType msg = WebhookReceiverType"
    and p: "provider_of req \<in> {''generic'', ''meta'', ''twilio''}"
  from i(1) show thesis
  proof (cases rule: Ingest_cases)
    case (stored m w2)
    from stored(5) r(2) obtain a where m: "m = msg\<lparr>m_ReceivedAt := a\<rparr>" by (metis option.sel)
    have "mem_Deposit cod m (fst (time_Now w2)) (outside w) = (None, outside w')"
      using stored(2,7) i(2) by (auto simp: memory_port_def split_beta Let_def prod_eq_iff)
    moreover have "acceptable (Some m)" "m_ReceiverType m = WebhookReceiverType"
      using stored(1) r(2) m by (simp_all add: acceptable_def)
    ultimately show thesis using that(2) r(1) p by blast
  qed simp_all
qed



definition one_codec :: "Message \<Rightarrow> codec" where
  "one_codec msg = \<lparr>marshal_message = (\<lambda>m. if m = msg then Inr [] else Inl ''unsupported''),
     unmarshal_message = (\<lambda>s. Inr msg)\<rparr>"

definition example_post :: WebhookRequest where
  "example_post = example_form_request\<lparr>wq_Body := Inr (form_Encode [(''Body'', ''r'')])\<rparr>"

definition example_before :: "MemoryStore world" where
  "example_before = \<lparr>draws = \<lambda>_. 0, clock = 0, outside = NewMemoryStore (4 * second)\<rparr>"

lemma example_post_message:
  "\<exists>msg w1. handleWebhook (main_extractors example_lib) (memory_port (one_codec msg) id (\<lambda>s _. s)) example_post example_before
     = (NoContent, w1) \<and> clock w1 = 0 \<and> acceptable (Some msg)"
proof -
  have c: "ToLower ''Body'' = ''body''" by (simp add: ToLower_def lower_char_def char_of_def bit_simps)
  have l: "length (form_Encode [(''Body'', ''r'')]) \<le> maxFormSize"
    by (simp add: form_Encode_def sort_keys_def QueryEscape_def escape_char_def is_alnum_def byte_in_def maxFormSize_def)
  have nj: "\<not> Contains (ToLower (header_Get example_post ''Content-Type'')) ''application/json''"
    using example_form_not_json by (simp add: example_post_def header_Get_def)
  have "\<exists>flds raw e'. ExtractFields example_lib example_post (\<lambda>_. 0) = ((flds, raw, None), e') \<and> go_wf flds
     \<and> map_of flds = map_of (map (\<lambda>(k, v). (ToLower k, v)) [(''Body'', ''r'')])"
    by (rule form_read [OF _ _ _ _ _ _ l nj]) (simp_all add: example_post_def example_form_request_def)
  then obtain flds raw e where x: "ExtractFields example_lib example_post (\<lambda>_. 0) = ((flds, raw, None), e)"
    "map_of flds ''body'' = Some ''r''" using c by auto
  have "e = (\<lambda>_. 0)"
    using x(1) nj by (auto simp: ExtractFields_def extractForm_def split_beta Let_def split: option.splits)
  note x = x [unfolded this]
  let ?msg = "\<lparr>m_RunID = ''r'', m_ReceiverType = WebhookReceiverType, m_ReceivedAt = 0,
     m_Headers = [(''content-type'', header_Get example_post ''Content-Type'')], m_Fields = flds, m_Raw = raw_bytes raw\<rparr>"
  have tr: "TrimSpace ''r'' = ''r''" by (simp add: TrimSpace_graph is_graph_def)
  have "twilio_Extract example_lib example_post example_before = (Inr ?msg, example_before)"
    using x tr by (simp add: twilio_Extract_def example_before_def go_index_def provider_message_def time_Now_def draw_def Let_def)
  moreover have "provider_of example_post = ''twilio''"
    by (simp add: provider_of_def example_post_def example_form_request_def)
  ultimately have "\<exists>w1. handleWebhook (main_extractors example_lib) (memory_port (one_codec ?msg) id (\<lambda>s _. s)) example_post example_before
     = (NoContent, w1) \<and> clock w1 = 0"
    by (simp add: handleWebhook_def main_extractors_lookup Ingest_def tr IsZero_def zero_time_def memory_port_def
      one_codec_def mem_Deposit_def example_before_def time_Now_def draw_def Let_def)
  then show ?thesis by (intro exI [of _ ?msg]) (auto simp: acceptable_def tr)
qed


lemma map_of_prefixed_values:
  assumes "distinct (map (ToLower \<circ> fst) vals)"
  shows "map_of (prefixed_values pre vals flds) =
     map_of flds ++ map_of (map (\<lambda>(k, vs). (pre @ ToLower k, Join vs '','')) vals)"
proof -
  have "distinct (map (\<lambda>x. pre @ ToLower (fst x)) vals)" using assms by (simp add: distinct_map inj_on_def)
  moreover have e: "(\<lambda>(k, vs). AList.update (pre @ ToLower k) (Join vs '','')) =
      (\<lambda>x. AList.update (pre @ ToLower (fst x)) (Join (snd x) '',''))" by (auto simp: fun_eq_iff)
  ultimately show ?thesis
    unfolding prefixed_values_def e by (simp add: map_of_fold_update case_prod_unfold)
qed

lemma map_of_prefixed_at:
  assumes "distinct (map (ToLower \<circ> fst) vals)" and "(k, vs) \<in> set vals"
  shows "map_of (map (\<lambda>(k, vs). (pre @ ToLower k, Join vs '','')) vals) (pre @ ToLower k) = Some (Join vs '','')"
  using assms by (intro map_of_is_SomeI) (force simp: distinct_map comp_def inj_on_def split_beta)+

lemma map_of_prefixed_none:
  "(\<And>s. K \<noteq> pre @ s) \<Longrightarrow> map_of (map (\<lambda>(k, vs). (pre @ ToLower k, Join vs '','')) vals) K = None"
  by (force simp: map_of_eq_None_iff)

lemma map_of_prefixed_missing:
  "K \<notin> ToLower ` fst ` set vals \<Longrightarrow> map_of (map (\<lambda>(k, vs). (pre @ ToLower k, Join vs '','')) vals) (pre @ K) = None"
  by (force simp: map_of_eq_None_iff)

text \<open>The fields of a request: the body over its bare paths, the headers and the query over them, the method last.\<close>

lemma generic_fields_maps:
  assumes "distinct (map (ToLower \<circ> fst) (wq_Header req))" and "distinct (map (ToLower \<circ> fst) (url_Query req))"
    and "go_wf flds0" and "generic_fields req flds0 e = (flds, e')"
  defines "part \<equiv> \<lambda>pre vals. map_of (map (\<lambda>(k, vs). (pre @ ToLower k, Join vs '','')) vals)"
  obtains hs qs where "set hs = set (wq_Header req)" "set qs = set (url_Query req)"
    "distinct (map (ToLower \<circ> fst) hs)" "distinct (map (ToLower \<circ> fst) qs)"
    "map_of flds = (map_of flds0 ++ map_of (map (\<lambda>(k, v). (''body.'' @ k, v)) flds0) ++ part ''headers.'' hs ++ part ''query.'' qs)
       (''method'' \<mapsto> wq_Method req)"
proof -
  let ?B = "map (\<lambda>(k, v). (''body.'' @ k, v)) flds0"
  obtain hs e1 where hs: "go_range (wq_Header req) e = (hs, e1)" by fastforce
  obtain qs e2 where qs: "go_range (url_Query req) e1 = (qs, e2)" by fastforce
  have d: "distinct (map (ToLower \<circ> fst) hs)" "distinct (map (ToLower \<circ> fst) qs)"
    and s: "set hs = set (wq_Header req)" "set qs = set (url_Query req)"
    using assms(1,2) mset_go_range [of "wq_Header req" e] mset_go_range [of "url_Query req" e1] hs qs
    by (metis fst_conv mset_eq_imp_distinct_iff mset_map, metis fst_conv mset_eq_imp_distinct_iff mset_map,
        metis fst_conv mset_eq_setD, metis fst_conv mset_eq_setD)
  have wb: "go_wf ?B"
    using assms(3) by (simp add: distinct_map comp_def inj_on_def split_beta)
  have "flds = AList.update ''method'' (wq_Method req)
      (prefixed_values ''query.'' qs (prefixed_values ''headers.'' hs (go_copy flds0 ?B)))"
    using assms(4) hs qs by (simp add: generic_fields_def Let_def del: append.simps)
  then have "map_of flds = (map_of flds0 ++ map_of ?B ++ part ''headers.'' hs ++ part ''query.'' qs)(''method'' \<mapsto> wq_Method req)"
    by (simp only: part_def map_of_update map_of_prefixed_values [OF d(1)] map_of_prefixed_values [OF d(2)] map_of_go_copy [OF wb])
  from that [OF s d this] show thesis .
qed

lemma generic_fields_lookup:
  assumes "distinct (map (ToLower \<circ> fst) (wq_Header req))" and "distinct (map (ToLower \<circ> fst) (url_Query req))"
    and "go_wf flds0" and "generic_fields req flds0 e = (flds, e')"
  shows "map_of flds ''method'' = Some (wq_Method req)"
    and "(k, vs) \<in> set (wq_Header req) \<Longrightarrow> map_of flds (''headers.'' @ ToLower k) = Some (Join vs '','')"
    and "(k, vs) \<in> set (url_Query req) \<Longrightarrow> map_of flds (''query.'' @ ToLower k) = Some (Join vs '','')"
    and "map_of flds0 k = Some v \<Longrightarrow> map_of flds (''body.'' @ k) = Some v"
    and "h \<notin> ToLower ` fst ` set (wq_Header req) \<Longrightarrow> map_of flds (''headers.'' @ h) = map_of flds0 (''headers.'' @ h)"
proof -
  from generic_fields_maps [OF assms] obtain hs qs where s: "set hs = set (wq_Header req)" "set qs = set (url_Query req)"
    and d: "distinct (map (ToLower \<circ> fst) hs)" "distinct (map (ToLower \<circ> fst) qs)"
    and f: "map_of flds = (map_of flds0 ++ map_of (map (\<lambda>(k, v). (''body.'' @ k, v)) flds0)
        ++ map_of (map (\<lambda>(k, vs). (''headers.'' @ ToLower k, Join vs '','')) hs)
        ++ map_of (map (\<lambda>(k, vs). (''query.'' @ ToLower k, Join vs '','')) qs))(''method'' \<mapsto> wq_Method req)" by blast
  have elsewhere: "map_of (map (\<lambda>(k, vs). (''query.'' @ ToLower k, Join vs '','')) qs) (''headers.'' @ K) = None"
    "map_of (map (\<lambda>(k, vs). (''query.'' @ ToLower k, Join vs '','')) qs) (''body.'' @ K) = None"
    "map_of (map (\<lambda>(k, vs). (''headers.'' @ ToLower k, Join vs '','')) hs) (''body.'' @ K) = None" for K
    by (rule map_of_prefixed_none, simp)+
  have body: "map_of (map (\<lambda>(k, v). (''body.'' @ k, v)) flds0) (''headers.'' @ h) = None" for h
    by (force simp: map_of_eq_None_iff)
  show "map_of flds ''method'' = Some (wq_Method req)" by (simp add: f)
  show "map_of flds (''headers.'' @ ToLower k) = Some (Join vs '','')" if "(k, vs) \<in> set (wq_Header req)"
    using map_of_prefixed_at [OF d(1) that[folded s(1)], of "''headers.''"] elsewhere(1) [of "ToLower k"]
    by (simp add: f map_add_def)
  show "map_of flds (''query.'' @ ToLower k) = Some (Join vs '','')" if "(k, vs) \<in> set (url_Query req)"
    using map_of_prefixed_at [OF d(2) that[folded s(2)], of "''query.''"] by (simp add: f map_add_def)
  show "map_of flds (''body.'' @ k) = Some v" if "map_of flds0 k = Some v"
  proof -
    have "map_of (map (\<lambda>(k, v). (''body.'' @ k, v)) flds0) (''body.'' @ k) = Some v"
      using that assms(3) map_of_SomeD [OF that]
      by (intro map_of_is_SomeI) (auto simp: distinct_map comp_def inj_on_def split_beta intro: rev_image_eqI)
    with elsewhere(2,3) [of k] show ?thesis by (simp add: f map_add_def)
  qed
  show "map_of flds (''headers.'' @ h) = map_of flds0 (''headers.'' @ h)" if "h \<notin> ToLower ` fst ` set (wq_Header req)"
    using map_of_prefixed_missing [of h hs "''headers.''"] that s(1) elsewhere(1) [of h] body [of h]
    by (simp add: f map_add_def)
qed

lemma ExtractFields_wf: "go_wf (fst (fst (ExtractFields L req e)))"
proof -
  have "go_wf (fst (flattenMap L [] payload e))" for payload
    using flatten_gathers(1) [of L "[]" payload e] by (simp add: gathers_def)
  moreover have "go_wf (form_fields form)" for form
  proof -
    have e: "(\<lambda>(k, vs). AList.update (ToLower k) (Join vs '','')) =
      (\<lambda>x. AList.update (ToLower (fst x)) (Join (snd x) '',''))" by (auto simp: fun_eq_iff)
    show ?thesis unfolding form_fields_def e by (rule go_wf_fold_update) simp
  qed
  ultimately show ?thesis
    by (simp add: ExtractFields_def extractJSON_def extractForm_def split_beta Let_def split: sum.splits option.splits)
qed

lemma generic_body_wf: "generic_body L req e = (Inr (flds, raw), e') \<Longrightarrow> go_wf flds"
  using ExtractFields_wf [of L req e]
  by (auto simp: generic_body_def split_beta Let_def split: option.splits if_splits)

text \<open>The message of the generic provider holds every header, every query parameter
  and every field of the body under its prefix, and the method of the request. The run comes from the
  query, or else from the header, or else from the body. But the fields of the body are there without
  a prefix too, so that a body can supply the field of a header that the request does not have.\<close>

theorem generic_message:
  assumes "generic_Extract L req w = (Inr msg, w')"
    and "distinct (map (ToLower \<circ> fst) (wq_Header req))" and "distinct (map (ToLower \<circ> fst) (url_Query req))"
  shows "\<exists>body raw e. generic_body L req (draws w) = (Inr (body, raw), e) \<and> m_Raw msg = raw
     \<and> map_of (m_Fields msg) ''method'' = Some (wq_Method req)
     \<and> (\<forall>(k, vs) \<in> set (wq_Header req). map_of (m_Fields msg) (''headers.'' @ ToLower k) = Some (Join vs '',''))
     \<and> (\<forall>(k, vs) \<in> set (url_Query req). map_of (m_Fields msg) (''query.'' @ ToLower k) = Some (Join vs '',''))
     \<and> (\<forall>k v. map_of body k = Some v \<longrightarrow> map_of (m_Fields msg) (''body.'' @ k) = Some v)
     \<and> (\<forall>h. h \<notin> ToLower ` fst ` set (wq_Header req) \<longrightarrow>
           map_of (m_Fields msg) (''headers.'' @ h) = map_of body (''headers.'' @ h))
     \<and> (values_Get (url_Query req) ''run_id'' \<noteq> [] \<longrightarrow> m_RunID msg = values_Get (url_Query req) ''run_id'')
     \<and> (values_Get (url_Query req) ''run_id'' = [] \<and> header_Get req ''X-E2E-Run-ID'' \<noteq> [] \<longrightarrow>
           m_RunID msg = header_Get req ''X-E2E-Run-ID'')"
proof -
  obtain out e where b: "generic_body L req (draws w) = (out, e)" by fastforce
  with assms(1) obtain body raw where o: "out = Inr (body, raw)"
    by (cases out) (auto simp: generic_Extract_def)
  obtain flds e' where f: "generic_fields req body e = (flds, e')" by fastforce
  have m: "msg = fst (provider_message req (generic_run_id req flds) flds raw (w\<lparr>draws := e'\<rparr>))"
    using assms(1) b o f by (auto simp: generic_Extract_def split_beta Let_def)
  then have props: "m_Fields msg = flds" "m_RunID msg = generic_run_id req flds" "m_Raw msg = raw"
    by (simp_all add: provider_message_def split_beta Let_def)
  note look = generic_fields_lookup [OF assms(2,3) generic_body_wf [OF b [unfolded o]] f]
  show ?thesis
    using b look unfolding o props
    by (intro exI [of _ body] exI [of _ raw] exI [of _ e]) (auto simp: generic_run_id_def Let_def)
qed

definition example_generic :: WebhookRequest where
  "example_generic = \<lparr>wq_Method = ''POST'', wq_Path = ''/webhook/generic'', wq_RawQuery = ''run_id=r'', wq_Header = [],
     wq_MediaType = (''application/octet-stream'', None), wq_Body = Inr []\<rparr>"

lemma example_generic_query: "ParseQuery ''run_id=r'' = ([(''run_id'', [''r''])], None)"
proof -
  have "form_piece (''run_id'', ''r'') = ''run_id=r''"
    by (simp add: form_piece_def QueryEscape_def escape_char_def is_alnum_def byte_in_def)
  then show ?thesis
    using ParseQuery_pieces [of "[(''run_id'', ''r'')]" "[]" None] by (simp add: ParseQuery_def values_Add_def)
qed

theorem generic_message_witness:
  "\<exists>msg w'. generic_Extract example_lib example_generic \<lparr>draws = \<lambda>_. 0, clock = 0, outside = ()\<rparr> = (Inr msg, w')
     \<and> m_RunID msg = ''r'' \<and> map_of (m_Fields msg) ''method'' = Some ''POST''"
proof -
  let ?w = "\<lparr>draws = \<lambda>_. 0, clock = 0, outside = ()\<rparr>"
  have q: "url_Query example_generic = [(''run_id'', [''r''])]"
    by (simp add: url_Query_def example_generic_def example_generic_query)
  have pf: "ParseForm example_generic = ([(''run_id'', [''r''])], None)"
    by (simp add: ParseForm_def parsePostForm_def copyValues_def example_generic_def example_generic_query)
  have "header_Get example_generic ''Content-Type'' = []" by (simp add: header_Get_def values_Get_def example_generic_def)
  then have "\<exists>raw. ExtractFields example_lib example_generic (\<lambda>_. 0) = ((form_fields [(''run_id'', [''r''])], raw, None), \<lambda>_. 0)"
    by (simp add: ExtractFields_def extractForm_def pf ToLower_def Contains.simps Let_def)
  then obtain raw where "generic_body example_lib example_generic (\<lambda>_. 0) = (Inr (form_fields [(''run_id'', [''r''])], raw), \<lambda>_. 0)"
    by (auto simp: generic_body_def)
  then obtain msg w' where h: "generic_Extract example_lib example_generic ?w = (Inr msg, w')"
    by (simp add: generic_Extract_def split_beta Let_def)
  have "distinct (map (ToLower \<circ> fst) (wq_Header example_generic))" by (simp add: example_generic_def)
  moreover have "distinct (map (ToLower \<circ> fst) (url_Query example_generic))" by (simp add: q)
  moreover have "values_Get (url_Query example_generic) ''run_id'' = ''r''" by (simp add: q values_Get_def)
  moreover have "wq_Method example_generic = ''POST''" by (simp add: example_generic_def)
  ultimately show ?thesis using generic_message [OF h] h by auto
qed

end
