(* ===== verification/Gateway.thy ===== *)
theory Gateway
  imports Api_Server Webhook_Server Log_Events
begin

section \<open>The port of the service: the mux, the access log and the two servers behind it\<close>

text \<open>
  The API and the webhook endpoint share one mux and one port. A request is the one of the webhook
  handler; the API reads less of it. The mux is that of \<open>net/http\<close>: a pattern is a list of segments, a
  path is cleaned before it is looked up, and a path that is not clean, or that lacks the slash at the end of a
  pattern, is redirected. No two patterns of the program match the same path, so the precedence
  of patterns plays no role. Paths are decoded; the host of a pattern and patterns with \<open>...\<close> or \<open>$\<close> do not
  occur.
\<close>

subsection \<open>Paths\<close>

fun split_on :: "char \<Rightarrow> string \<Rightarrow> string list" where
  "split_on c [] = [[]]"
| "split_on c (x # xs) =
     (if x = c then [] # split_on c xs
      else case split_on c xs of [] \<Rightarrow> [[x]] | s # ss \<Rightarrow> (x # s) # ss)"

definition clean_segment :: "string \<Rightarrow> string list \<Rightarrow> string list" where
  "clean_segment seg stack =
     (if seg = [] \<or> seg = ''.'' then stack else if seg = ''..'' then tl stack else seg # stack)"

text \<open>\<open>path.Clean\<close> on a path that starts with a slash, and what the mux makes of it.\<close>

definition path_Clean :: "string \<Rightarrow> string" where
  "path_Clean p = ''/'' @ Join (rev (fold clean_segment (split_on CHR ''/'' p) [])) ''/''"

definition cleanPath :: "string \<Rightarrow> string" where
  "cleanPath p =
     (if p = [] then ''/''
      else let p = (if hd p \<noteq> CHR ''/'' then CHR ''/'' # p else p);
               np = path_Clean p
           in if last p = CHR ''/'' \<and> np \<noteq> ''/'' then np @ ''/'' else np)"

subsection \<open>Patterns\<close>

datatype pattern_segment = Lit string | Wild string | Rest

fun parse_segment :: "string \<Rightarrow> pattern_segment" where
  "parse_segment s = (if s \<noteq> [] \<and> hd s = CHR ''{'' then Wild (butlast (tl s)) else Lit s)"

fun parse_segments :: "string list \<Rightarrow> pattern_segment list" where
  "parse_segments [] = []"
| "parse_segments [s] = (if s = [] then [Rest] else [parse_segment s])"
| "parse_segments (s # ss) = parse_segment s # parse_segments ss"

definition parsePattern :: "string \<Rightarrow> pattern_segment list" where
  "parsePattern p = parse_segments (tl (split_on CHR ''/'' p))"

fun pattern_matches :: "pattern_segment list \<Rightarrow> string list \<Rightarrow> bool" where
  "pattern_matches [] segs = (segs = [])"
| "pattern_matches (Rest # ps) segs = (segs \<noteq> [])"
| "pattern_matches (Lit l # ps) segs = (case segs of [] \<Rightarrow> False | s # ss \<Rightarrow> s = l \<and> pattern_matches ps ss)"
| "pattern_matches (Wild n # ps) segs = (case segs of [] \<Rightarrow> False | s # ss \<Rightarrow> s \<noteq> [] \<and> pattern_matches ps ss)"

definition pattern_exact :: "pattern_segment list \<Rightarrow> string list \<Rightarrow> bool" where
  "pattern_exact p segs \<longleftrightarrow> pattern_matches p segs \<and> (last p = Rest \<longrightarrow> length p = length segs)"

subsection \<open>The mux and its routes\<close>

datatype endpoint = ApiRoute route | SwaggerRoute | WebhookRoute

type_synonym mux = "(string \<times> endpoint) list"

definition registerRoute :: "string \<Rightarrow> endpoint \<Rightarrow> mux \<Rightarrow> mux" where
  "registerRoute pattern handler m = m @ [(pattern, handler)]"

definition api_mux :: mux where
  "api_mux =
     registerRoute ''/swagger/*'' SwaggerRoute
     (registerRoute ''/results/{run_id}'' (ApiRoute ResultByIDRoute)
     (registerRoute ''/results'' (ApiRoute ResultsRoute)
     (registerRoute ''/run-sequence'' (ApiRoute RunSequenceRoute)
     (registerRoute ''/run'' (ApiRoute RunRoute)
     (registerRoute ''/health'' (ApiRoute HealthRoute) [])))))"

definition RegisterRoutes :: "mux \<Rightarrow> mux" where
  "RegisterRoutes m = m @ [(''/webhook/'', WebhookRoute)]"

definition service_mux :: mux where "service_mux = RegisterRoutes api_mux"

definition mux_find :: "(pattern_segment list \<Rightarrow> string list \<Rightarrow> bool) \<Rightarrow> mux \<Rightarrow> string \<Rightarrow> endpoint option" where
  "mux_find test m path =
     map_option snd (List.find (\<lambda>(pattern, h). test (parsePattern pattern) (tl (split_on CHR ''/'' path))) m)"

datatype routed = Endpoint endpoint | Redirect string | NoRoute

text \<open>\<open>matchOrRedirect\<close> and \<open>findHandler\<close> of the mux. The query of a redirect is that of the request.\<close>

definition matchOrRedirect :: "mux \<Rightarrow> string \<Rightarrow> routed" where
  "matchOrRedirect m path =
     (if mux_find pattern_exact m path = None \<and> \<not> (path \<noteq> [] \<and> last path = CHR ''/'')
         \<and> mux_find pattern_exact m (path @ ''/'') \<noteq> None
      then Redirect (cleanPath path @ ''/'')
      else case mux_find pattern_matches m path of None \<Rightarrow> NoRoute | Some h \<Rightarrow> Endpoint h)"

definition findHandler :: "mux \<Rightarrow> string \<Rightarrow> string \<Rightarrow> routed" where
  "findHandler m method path =
     (if method = ''CONNECT'' then matchOrRedirect m path
      else case matchOrRedirect m (cleanPath path) of
        Redirect url \<Rightarrow> Redirect url
      | found \<Rightarrow> if cleanPath path \<noteq> path then Redirect (cleanPath path) else found)"

subsection \<open>The response writer and the access log\<close>

text \<open>What a handler does to its writer. The status on the wire is that of the first \<open>WriteHeader\<close>, and 200
  where a write comes first or nothing is written; the recorder of the middleware keeps the last one.\<close>

datatype writer_op = WriteHeader int | WriteBody

fun wire_status :: "writer_op list \<Rightarrow> int" where
  "wire_status (WriteHeader code # ops) = code"
| "wire_status ops = 200"

fun statusRecorder :: "writer_op list \<Rightarrow> int \<Rightarrow> int" where
  "statusRecorder [] status = status"
| "statusRecorder (WriteHeader code # ops) status = statusRecorder ops code"
| "statusRecorder (WriteBody # ops) status = statusRecorder ops status"

datatype answer =
    ApiAnswer ApiResponse
  | WebhookAnswer webhook_reply
  | Redirected string
  | PageNotFound

definition respondJSON :: "int \<Rightarrow> writer_op list" where
  "respondJSON status = [WriteHeader status, WriteBody]"

definition http_Error :: "int \<Rightarrow> writer_op list" where
  "http_Error code = [WriteHeader code, WriteBody]"

fun writer_ops :: "answer \<Rightarrow> writer_op list" where
  "writer_ops (ApiAnswer (HttpError code msg)) = http_Error code"
| "writer_ops (ApiAnswer resp) = respondJSON (response_status resp)"
| "writer_ops (WebhookAnswer (Refused code msg)) = http_Error code"
| "writer_ops (WebhookAnswer NoContent) = [WriteHeader 204]"
| "writer_ops (Redirected url) = [WriteHeader 301, WriteBody]"
| "writer_ops PageNotFound = http_Error 404"

subsection \<open>The handler of the port\<close>

definition api_request :: "WebhookRequest \<Rightarrow> ApiRequest" where
  "api_request req =
     \<lparr>aq_Method = wq_Method req, aq_Path = wq_Path req, aq_Query = values_Get (url_Query req),
      aq_Authorization = header_Get req ''Authorization'', aq_Body = wq_Body req\<rparr>"

text \<open>\<open>swagger\<close> is the handler of the documentation, which is not part of the repository.\<close>

definition endpoint_handler ::
  "(ApiRequest \<Rightarrow> ApiResponse) \<Rightarrow> ('i, 'x) Orchestrator \<Rightarrow> 'x extractors \<Rightarrow> 'x Store \<Rightarrow> endpoint
    \<Rightarrow> WebhookRequest \<Rightarrow> ApiServer \<Rightarrow> 'x world \<Rightarrow> ('x, answer) handled" where
  "endpoint_handler swagger orc exts ingestor h req s w =
     (case h of
        ApiRoute rt \<Rightarrow> map_option (map_prod ApiAnswer id) (serve orc rt (api_request req) s w)
      | SwaggerRoute \<Rightarrow>
          map_option (map_prod ApiAnswer id)
            (authMiddleware (\<lambda>r s w. Some (swagger r, s, [], w)) (api_request req) s w)
      | WebhookRoute \<Rightarrow>
          (let (reply, w) = handleWebhook exts ingestor req w in Some (WebhookAnswer reply, s, [], w)))"

definition ServeHTTP ::
  "(ApiRequest \<Rightarrow> ApiResponse) \<Rightarrow> mux \<Rightarrow> ('i, 'x) Orchestrator \<Rightarrow> 'x extractors \<Rightarrow> 'x Store
    \<Rightarrow> WebhookRequest \<Rightarrow> ApiServer \<Rightarrow> 'x world \<Rightarrow> ('x, answer) handled" where
  "ServeHTTP swagger m orc exts ingestor req s w =
     (case findHandler m (wq_Method req) (wq_Path req) of
        Endpoint h \<Rightarrow> endpoint_handler swagger orc exts ingestor h req s w
      | Redirect url \<Rightarrow> Some (Redirected url, s, [], w)
      | NoRoute \<Rightarrow> Some (PageNotFound, s, [], w))"

text \<open>The middleware around the mux: one line per request, at the level of debugging for the health check. A
  handler that panics leaves no line.\<close>

definition loggingMiddleware ::
  "Logger option \<Rightarrow> (WebhookRequest \<Rightarrow> ApiServer \<Rightarrow> 'x world \<Rightarrow> ('x, answer) handled)
    \<Rightarrow> WebhookRequest \<Rightarrow> ApiServer \<Rightarrow> 'x world
    \<Rightarrow> (log_line option \<times> answer \<times> ApiServer \<times> notification list \<times> 'x world) option" where
  "loggingMiddleware lg next_handler req s w = do {
     let (start, w) = time_Now w;
     (ans, s, nts, w) \<leftarrow> next_handler req s w;
     let level = (if wq_Path req = ''/health'' then LevelDebug else LevelInfo);
     let (now, w) = time_Now w;
     let line = fst (Event_Msg ''http request completed''
           (Event_Duration AttrDurationMS (now - start)
           (Event_Int AttrRespStatus (statusRecorder (writer_ops ans) 200)
           (Event_Str AttrPath (wq_Path req)
           (Event_Str AttrMethod (wq_Method req)
           (Some (Logger_Event level lg)))))));
     Some (line, ans, s, nts, w)
   }"

subsection \<open>Paths and their segments\<close>

lemma split_on_ne [simp]: "split_on c xs \<noteq> []"
  by (cases xs) (auto split: list.splits)

lemma split_on_free: "s \<in> set (split_on c xs) \<Longrightarrow> c \<notin> set s"
proof (induction xs arbitrary: s)
  case (Cons x xs)
  then show ?case by (cases "split_on c xs") (auto split: if_splits)
qed simp

lemma split_on_append: "c \<notin> set s \<Longrightarrow> split_on c (s @ c # r) = s # split_on c r"
  by (induction s) auto

lemma split_on_whole: "c \<notin> set s \<Longrightarrow> split_on c s = [s]"
  by (induction s) auto

lemma Join_cons: "ss \<noteq> [] \<Longrightarrow> Join (s # ss) sep = s @ sep @ Join ss sep"
  by (cases ss) simp_all

lemma Join_snoc: "ss \<noteq> [] \<Longrightarrow> Join (ss @ [s]) sep = Join ss sep @ sep @ s"
proof (induction ss)
  case (Cons x ss)
  then show ?case by (cases ss) simp_all
qed simp

lemma split_on_Join: "ss \<noteq> [] \<Longrightarrow> (\<And>s. s \<in> set ss \<Longrightarrow> c \<notin> set s) \<Longrightarrow> split_on c (Join ss [c]) = ss"
proof (induction ss)
  case (Cons s ss)
  then show ?case by (cases ss) (simp_all add: split_on_whole split_on_append)
qed simp

lemma Join_split_on: "Join (split_on c xs) [c] = xs"
proof (induction xs)
  case (Cons x xs)
  obtain t ts where "split_on c xs = t # ts" by (cases "split_on c xs") simp_all
  with Cons show ?case by (cases ts) auto
qed simp

lemma split_on_eq:
  assumes "ss \<noteq> []" and "\<And>s. s \<in> set ss \<Longrightarrow> c \<notin> set s"
  shows "split_on c xs = ss \<longleftrightarrow> xs = Join ss [c]"
  using split_on_Join [OF assms] Join_split_on [of c xs] by auto

lemma split_on_Cons_eq:
  assumes "c \<notin> set s"
  shows "split_on c xs = s # ss \<longleftrightarrow> (if ss = [] then xs = s else \<exists>r. xs = s @ c # r \<and> split_on c r = ss)"
proof (cases "ss = []")
  case True
  with assms split_on_eq [of "[s]" c xs] show ?thesis by simp
next
  case False
  have "\<exists>r. xs = s @ c # r \<and> split_on c r = ss" if e: "split_on c xs = s # ss"
  proof -
    have "xs = s @ c # Join ss [c]" using Join_split_on [of c xs] e False by (simp add: Join_cons)
    moreover have "split_on c (Join ss [c]) = ss"
      by (rule split_on_Join [OF False]) (use split_on_free [of _ c xs] e in auto)
    ultimately show ?thesis by blast
  qed
  with False assms show ?thesis by (auto simp: split_on_append)
qed

text \<open>A clean path is a list of proper segments, with or without a slash at the end.\<close>

definition proper :: "string list \<Rightarrow> bool" where
  "proper ss \<longleftrightarrow> (\<forall>s \<in> set ss. s \<notin> {[], ''.'', ''..''} \<and> CHR ''/'' \<notin> set s)"

definition path_of :: "string list \<Rightarrow> bool \<Rightarrow> string" where
  "path_of ss slash = CHR ''/'' # Join ss ''/'' @ (if slash \<and> ss \<noteq> [] then ''/'' else [])"

lemma fold_clean_proper: "proper ss \<Longrightarrow> fold clean_segment ss stack = rev ss @ stack"
  by (induction ss arbitrary: stack) (auto simp: proper_def clean_segment_def)

lemma proper_clean: "(\<forall>s \<in> set segs. CHR ''/'' \<notin> set s) \<Longrightarrow> proper stack \<Longrightarrow> proper (fold clean_segment segs stack)"
proof (induction segs arbitrary: stack)
  case (Cons s segs)
  from Cons.prems have "proper (clean_segment s stack)" by (cases stack) (auto simp: proper_def clean_segment_def)
  from Cons.IH [OF _ this] Cons.prems(1) show ?case by simp
qed simp

lemma proper_rev [simp]: "proper (rev ss) = proper ss"
  by (simp add: proper_def)

lemma Join_proper_Nil: "proper ss \<Longrightarrow> Join ss ''/'' = [] \<longleftrightarrow> ss = []"
proof (cases ss)
  case (Cons s us)
  assume "proper ss"
  with Cons show ?thesis by (cases us) (auto simp: proper_def)
qed simp

lemma cleanPath_cases:
  obtains ss slash where "proper ss" "cleanPath p = path_of ss slash"
proof (cases "p = []")
  case True
  then have "cleanPath p = path_of [] False" by (simp add: cleanPath_def path_of_def)
  moreover have "proper []" by (simp add: proper_def)
  ultimately show thesis using that by blast
next
  case False
  let ?p = "if hd p \<noteq> CHR ''/'' then CHR ''/'' # p else p"
  let ?ss = "rev (fold clean_segment (split_on CHR ''/'' ?p) [])"
  have "proper []" by (simp add: proper_def)
  then have pr: "proper ?ss" using proper_clean [of "split_on CHR ''/'' ?p" "[]"] split_on_free by simp
  have "path_Clean ?p = ''/'' @ Join ?ss ''/''" by (simp add: path_Clean_def)
  with False pr have "cleanPath p = path_of ?ss (last ?p = CHR ''/'')"
    using Join_proper_Nil [OF pr] by (simp add: cleanPath_def path_of_def Let_def)
  with pr that show thesis by blast
qed

lemma path_Clean_path_of: "proper ss \<Longrightarrow> path_Clean (path_of ss slash) = path_of ss False"
proof (cases "ss = []")
  case True
  then show ?thesis by (simp add: path_Clean_def path_of_def clean_segment_def)
next
  case False
  assume pr: "proper ss"
  have one: "split_on CHR ''/'' (Join ss ''/'') = ss"
    by (rule split_on_Join [OF False]) (use pr in \<open>simp add: proper_def\<close>)
  have "\<forall>s \<in> set (ss @ [[]]). CHR ''/'' \<notin> set s" using pr by (simp add: proper_def)
  then have "split_on CHR ''/'' (Join (ss @ [[]]) ''/'') = ss @ [[]]" by (intro split_on_Join) (simp, blast)
  then have "split_on CHR ''/'' (Join ss ''/'' @ ''/'') = ss @ [[]]" by (simp only: Join_snoc [OF False] append_Nil2)
  with one have "split_on CHR ''/'' (path_of ss slash) = [] # ss @ (if slash then [[]] else [])"
    using False by (simp add: path_of_def)
  then show ?thesis
    using fold_clean_proper [OF pr, of "[]"] by (simp add: path_Clean_def path_of_def clean_segment_def)
qed

lemma cleanPath_path_of: "proper ss \<Longrightarrow> cleanPath (path_of ss slash) = path_of ss slash"
proof -
  assume pr: "proper ss"
  show ?thesis
  proof (cases "ss = []")
    case True
    then show ?thesis by (simp add: cleanPath_def path_Clean_def path_of_def clean_segment_def)
  next
    case False
    then obtain us s where ss: "ss = us @ [s]" by (metis rev_exhaust)
    with pr have s: "s \<noteq> []" "CHR ''/'' \<notin> set s" by (auto simp: proper_def)
    from ss Join_snoc [of us s "''/''"] s(1) have "last (Join ss ''/'') = last s" by (cases "us = []") simp_all
    with s have l: "last (Join ss ''/'') \<noteq> CHR ''/''" by (metis last_in_set)
    have np: "Join ss ''/'' \<noteq> []" using Join_proper_Nil [OF pr] False by simp
    show ?thesis
    proof (cases slash)
      case True
      with False have p: "path_of ss slash = path_of ss False @ ''/''" by (simp add: path_of_def)
      have "path_Clean (path_of ss slash) = path_of ss False" by (rule path_Clean_path_of [OF pr])
      moreover have "path_of ss False \<noteq> ''/''" "hd (path_of ss slash) = CHR ''/''" "path_of ss slash \<noteq> []"
        "last (path_of ss slash) = CHR ''/''" using np p by (simp_all add: path_of_def)
      ultimately show ?thesis using p by (simp add: cleanPath_def Let_def)
    next
      case False
      then have "slash = False" by simp
      moreover have "path_Clean (path_of ss False) = path_of ss False" by (rule path_Clean_path_of [OF pr])
      moreover have "hd (path_of ss False) = CHR ''/''" "path_of ss False \<noteq> []"
        "last (path_of ss False) \<noteq> CHR ''/''" using np l by (simp_all add: path_of_def)
      ultimately show ?thesis by (simp add: cleanPath_def Let_def)
    qed
  qed
qed

lemma cleanPath_idem: "cleanPath (cleanPath p) = cleanPath p"
  by (rule cleanPath_cases [of p]) (simp add: cleanPath_path_of)

lemma cleanPath_slash: "\<exists>q. cleanPath p = CHR ''/'' # q"
  by (rule cleanPath_cases [of p]) (simp add: path_of_def)

subsection \<open>The routes\<close>

lemma segments_one: "CHR ''/'' \<notin> set l \<Longrightarrow> split_on CHR ''/'' q = [l] \<longleftrightarrow> q = l"
  using split_on_Cons_eq [of "CHR ''/''" l q "[]"] by simp

lemma matches_Lit:
  assumes "CHR ''/'' \<notin> set l"
  shows "pattern_matches [Lit l] (split_on CHR ''/'' q) \<longleftrightarrow> q = l"
    and "pattern_matches (Lit l # p # ps) (split_on CHR ''/'' q) \<longleftrightarrow>
      (\<exists>r. q = l @ CHR ''/'' # r \<and> pattern_matches (p # ps) (split_on CHR ''/'' r))"
proof -
  have "pattern_matches [Lit l] segs \<longleftrightarrow> segs = [l]" for segs by (cases segs) auto
  with segments_one [OF assms] show "pattern_matches [Lit l] (split_on CHR ''/'' q) \<longleftrightarrow> q = l" by simp
  have "pattern_matches (p # ps) segs \<Longrightarrow> segs \<noteq> []" for segs by (cases p; cases segs) auto
  then have "pattern_matches (Lit l # p # ps) segs \<longleftrightarrow> (\<exists>ss. ss \<noteq> [] \<and> segs = l # ss \<and> pattern_matches (p # ps) ss)" for segs
    by (cases segs) auto
  then have "pattern_matches (Lit l # p # ps) (split_on CHR ''/'' q) \<longleftrightarrow>
      (\<exists>ss. ss \<noteq> [] \<and> (\<exists>r. q = l @ CHR ''/'' # r \<and> split_on CHR ''/'' r = ss) \<and> pattern_matches (p # ps) ss)"
    by (simp only: split_on_Cons_eq [OF assms] if_False cong: conj_cong)
  then show "pattern_matches (Lit l # p # ps) (split_on CHR ''/'' q) \<longleftrightarrow>
      (\<exists>r. q = l @ CHR ''/'' # r \<and> pattern_matches (p # ps) (split_on CHR ''/'' r))"
    using split_on_ne [of "CHR ''/''"] by blast
qed

lemma matches_Wild: "pattern_matches [Wild n] (split_on CHR ''/'' q) \<longleftrightarrow> q \<noteq> [] \<and> CHR ''/'' \<notin> set q"
proof -
  have "pattern_matches [Wild n] segs \<longleftrightarrow> (\<exists>s. segs = [s] \<and> s \<noteq> [])" for segs by (cases segs) auto
  moreover have "split_on CHR ''/'' q = [s] \<Longrightarrow> s = q \<and> CHR ''/'' \<notin> set q" for s
    using split_on_free [of s "CHR ''/''" q] segments_one [of s q] by auto
  ultimately show ?thesis using split_on_whole [of "CHR ''/''" q] by auto
qed

lemma service_patterns:
  "service_mux = [(''/health'', ApiRoute HealthRoute), (''/run'', ApiRoute RunRoute),
     (''/run-sequence'', ApiRoute RunSequenceRoute), (''/results'', ApiRoute ResultsRoute),
     (''/results/{run_id}'', ApiRoute ResultByIDRoute), (''/swagger/*'', SwaggerRoute), (''/webhook/'', WebhookRoute)]"
  "parsePattern ''/health'' = [Lit ''health'']" "parsePattern ''/run'' = [Lit ''run'']"
  "parsePattern ''/run-sequence'' = [Lit ''run-sequence'']" "parsePattern ''/results'' = [Lit ''results'']"
  "parsePattern ''/results/{run_id}'' = [Lit ''results'', Wild ''run_id'']"
  "parsePattern ''/swagger/*'' = [Lit ''swagger'', Lit ''*'']" "parsePattern ''/webhook/'' = [Lit ''webhook'', Rest]"
  by (simp_all add: service_mux_def api_mux_def RegisterRoutes_def registerRoute_def parsePattern_def)

lemma service_match:
  "mux_find pattern_matches service_mux (CHR ''/'' # q) =
     (if q = ''health'' then Some (ApiRoute HealthRoute) else if q = ''run'' then Some (ApiRoute RunRoute)
      else if q = ''run-sequence'' then Some (ApiRoute RunSequenceRoute)
      else if q = ''results'' then Some (ApiRoute ResultsRoute)
      else if \<exists>r. q = ''results/'' @ r \<and> r \<noteq> [] \<and> CHR ''/'' \<notin> set r then Some (ApiRoute ResultByIDRoute)
      else if q = ''swagger/*'' then Some SwaggerRoute
      else if \<exists>r. q = ''webhook/'' @ r then Some WebhookRoute else None)"
proof -
  let ?m = "\<lambda>p. pattern_matches p (split_on CHR ''/'' q)"
  have "?m [Lit ''health''] \<longleftrightarrow> q = ''health''" "?m [Lit ''run''] \<longleftrightarrow> q = ''run''"
    "?m [Lit ''run-sequence''] \<longleftrightarrow> q = ''run-sequence''" "?m [Lit ''results''] \<longleftrightarrow> q = ''results''"
    by (rule matches_Lit(1), simp)+
  moreover have "?m [Lit ''results'', Wild ''run_id''] \<longleftrightarrow> (\<exists>r. q = ''results/'' @ r \<and> r \<noteq> [] \<and> CHR ''/'' \<notin> set r)"
    using matches_Lit(2) [of "''results''" "Wild ''run_id''" "[]" q] by (simp add: matches_Wild del: pattern_matches.simps)
  moreover have "?m [Lit ''swagger'', Lit ''*''] \<longleftrightarrow> q = ''swagger/*''"
    using matches_Lit(2) [of "''swagger''" "Lit ''*''" "[]" q] matches_Lit(1) [of "''*''"] by (simp del: pattern_matches.simps)
  moreover have "?m [Lit ''webhook'', Rest] \<longleftrightarrow> (\<exists>r. q = ''webhook/'' @ r)"
    using matches_Lit(2) [of "''webhook''" Rest "[]" q] by (simp del: pattern_matches.simps(3))
  ultimately show ?thesis
    by (simp only: mux_find_def service_patterns split_on.simps find.simps prod.case if_True if_False list.sel
        if_distrib [where f = "map_option snd"] option.map snd_conv simp_thms)
qed

lemma exact_slash:
  "mux_find pattern_exact service_mux (CHR ''/'' # q @ ''/'') \<noteq> None \<longleftrightarrow> q = ''webhook''"
proof -
  let ?m = "\<lambda>p. pattern_exact p (split_on CHR ''/'' (q @ ''/''))"
  have ends: "q @ ''/'' \<noteq> l" if "l \<noteq> []" "last l \<noteq> CHR ''/''" for l using that by auto
  have lit: "\<not> ?m [Lit l]" if "l \<noteq> []" "last l \<noteq> CHR ''/''" "CHR ''/'' \<notin> set l" for l
    using matches_Lit(1) [OF that(3)] ends [OF that(1,2)] by (simp add: pattern_exact_def del: pattern_matches.simps)
  have "\<not> ?m [Lit ''health'']" "\<not> ?m [Lit ''run'']" "\<not> ?m [Lit ''run-sequence'']" "\<not> ?m [Lit ''results'']"
    by (rule lit, simp_all)+
  moreover have "\<not> ?m [Lit ''results'', Wild ''run_id'']"
  proof
    assume "?m [Lit ''results'', Wild ''run_id'']"
    then obtain r where "q @ ''/'' = ''results'' @ CHR ''/'' # r" "r \<noteq> []" "CHR ''/'' \<notin> set r"
      by (auto simp: pattern_exact_def matches_Lit matches_Wild simp del: pattern_matches.simps append.simps)
    then have "last r = CHR ''/''" by (metis last_appendR last_ConsR last_snoc list.distinct(1))
    with \<open>r \<noteq> []\<close> \<open>CHR ''/'' \<notin> set r\<close> show False by (metis last_in_set)
  qed
  moreover have "\<not> ?m [Lit ''swagger'', Lit ''*'']"
    using matches_Lit(2) [of "''swagger''" "Lit ''*''" "[]" "q @ ''/''"] matches_Lit(1) [of "''*''"] ends [of "''swagger/*''"]
    by (simp add: pattern_exact_def del: pattern_matches.simps)
  moreover have "?m [Lit ''webhook'', Rest] \<longleftrightarrow> q = ''webhook''"
  proof
    assume m: "?m [Lit ''webhook'', Rest]"
    then obtain r where r: "q @ ''/'' = ''webhook'' @ CHR ''/'' # r"
      by (auto simp: pattern_exact_def matches_Lit simp del: pattern_matches.simps append.simps)
    then have "length (split_on CHR ''/'' r) = 1"
      using m split_on_append [of "CHR ''/''" "''webhook''" r] by (simp add: pattern_exact_def del: append.simps)
    then obtain t where "split_on CHR ''/'' r = [t]" by (auto simp: length_Suc_conv)
    with Join_split_on [of "CHR ''/''" r] split_on_free [of t "CHR ''/''" r] have "CHR ''/'' \<notin> set r" by simp
    moreover have "r \<noteq> [] \<Longrightarrow> last r = CHR ''/''" using r by (metis last_appendR last_ConsR last_snoc list.distinct(1))
    ultimately have "r = []" by (metis last_in_set)
    with r show "q = ''webhook''" by simp
  next
    assume q: "q = ''webhook''"
    show "?m [Lit ''webhook'', Rest]" unfolding q by (simp add: pattern_exact_def)
  qed
  ultimately show ?thesis
    by (simp only: mux_find_def service_patterns split_on.simps find.simps prod.case if_True if_False list.sel
        option.map snd_conv simp_thms split: if_split) simp
qed

lemma service_matchOrRedirect:
  "matchOrRedirect service_mux (CHR ''/'' # q) =
     (if q = ''webhook'' then Redirect ''/webhook/''
      else case mux_find pattern_matches service_mux (CHR ''/'' # q) of None \<Rightarrow> NoRoute | Some h \<Rightarrow> Endpoint h)"
proof (cases "q = ''webhook''")
  case True
  have "mux_find pattern_exact service_mux ''/webhook'' = None"
    by (simp add: mux_find_def service_patterns pattern_exact_def)
  moreover have "cleanPath ''/webhook'' = ''/webhook''"
    by (simp add: cleanPath_def path_Clean_def clean_segment_def)
  moreover have "mux_find pattern_exact service_mux (''/webhook'' @ ''/'') \<noteq> None"
    using exact_slash [of "''webhook''"] by simp
  ultimately show ?thesis unfolding True by (simp add: matchOrRedirect_def)
next
  case False
  then have "mux_find pattern_exact service_mux ((CHR ''/'' # q) @ ''/'') = None" using exact_slash [of q] by simp
  with False show ?thesis by (simp only: matchOrRedirect_def if_False simp_thms)
qed

lemma findHandler_clean:
  "method \<noteq> ''CONNECT'' \<Longrightarrow> cleanPath p = p \<Longrightarrow> findHandler m method p = matchOrRedirect m p"
  by (simp add: findHandler_def split: routed.splits)

lemma findHandler_dirty:
  "method \<noteq> ''CONNECT'' \<Longrightarrow> cleanPath p \<noteq> p \<Longrightarrow>
     findHandler m method p = (case matchOrRedirect m (cleanPath p) of Redirect url \<Rightarrow> Redirect url | _ \<Rightarrow> Redirect (cleanPath p))"
  by (simp add: findHandler_def split: routed.splits)

text \<open>C27 (request_routing): which handler a request gets. A path that is not clean is redirected to its clean
  form, from where there is no second redirect but that of \<open>/webhook\<close>; the health check, the three fixed routes, one
  result by its id (one segment that is not empty) and everything under \<open>/webhook/\<close> have their
  handlers whatever the method. The documentation has the literal path \<open>/swagger/*\<close>, so that the
  pages below \<open>/swagger/\<close> are not found; and \<open>/results/\<close> is not found either, so that a request without a run
  id never reaches the check for it.\<close>

theorem request_routing:
  assumes "method \<noteq> ''CONNECT''"
  shows "findHandler service_mux method p =
    (if cleanPath p = ''/webhook'' then Redirect ''/webhook/''
     else if cleanPath p \<noteq> p then Redirect (cleanPath p)
     else if p = ''/health'' then Endpoint (ApiRoute HealthRoute)
     else if p = ''/run'' then Endpoint (ApiRoute RunRoute)
     else if p = ''/run-sequence'' then Endpoint (ApiRoute RunSequenceRoute)
     else if p = ''/results'' then Endpoint (ApiRoute ResultsRoute)
     else if \<exists>r. p = ''/results/'' @ r \<and> r \<noteq> [] \<and> CHR ''/'' \<notin> set r then Endpoint (ApiRoute ResultByIDRoute)
     else if p = ''/swagger/*'' then Endpoint SwaggerRoute
     else if \<exists>r. p = ''/webhook/'' @ r then Endpoint WebhookRoute
     else NoRoute)
   \<and> cleanPath (cleanPath p) = cleanPath p
   \<and> findHandler service_mux method ''/swagger/index.html'' = NoRoute
   \<and> findHandler service_mux method ''/results/'' = NoRoute"
proof -
  have clean: "findHandler service_mux method p =
    (if p = ''/webhook'' then Redirect ''/webhook/''
     else if p = ''/health'' then Endpoint (ApiRoute HealthRoute)
     else if p = ''/run'' then Endpoint (ApiRoute RunRoute)
     else if p = ''/run-sequence'' then Endpoint (ApiRoute RunSequenceRoute)
     else if p = ''/results'' then Endpoint (ApiRoute ResultsRoute)
     else if \<exists>r. p = ''/results/'' @ r \<and> r \<noteq> [] \<and> CHR ''/'' \<notin> set r then Endpoint (ApiRoute ResultByIDRoute)
     else if p = ''/swagger/*'' then Endpoint SwaggerRoute
     else if \<exists>r. p = ''/webhook/'' @ r then Endpoint WebhookRoute
     else NoRoute)" if "cleanPath p = p" for p
  proof -
    from that cleanPath_slash [of p] obtain q where q: "p = CHR ''/'' # q" by auto
    show ?thesis 
      unfolding findHandler_clean [OF assms that] unfolding q service_matchOrRedirect service_match
      by (simp only: list.inject append.simps simp_thms option.case
          if_distrib [where f = "\<lambda>x. case x of None \<Rightarrow> NoRoute | Some h \<Rightarrow> Endpoint h"])
  qed
  have "cleanPath ''/swagger/index.html'' = ''/swagger/index.html''" "cleanPath ''/results/'' = ''/results/''"
    by (simp_all add: cleanPath_def path_Clean_def clean_segment_def)
  then have none: "findHandler service_mux method ''/swagger/index.html'' = NoRoute"
    "findHandler service_mux method ''/results/'' = NoRoute"
    using clean [of "''/swagger/index.html''"] clean [of "''/results/''"] by simp_all
  show ?thesis
  proof (cases "cleanPath p = p")
    case True
    then show ?thesis unfolding clean [OF True] using none by simp
  next
    case False
    obtain q where q: "cleanPath p = CHR ''/'' # q" using cleanPath_slash by blast
    have "findHandler service_mux method p = (if cleanPath p = ''/webhook'' then Redirect ''/webhook/'' else Redirect (cleanPath p))"
      unfolding findHandler_dirty [OF assms False] unfolding q service_matchOrRedirect by (simp split: option.splits)
    with False none show ?thesis by (simp add: cleanPath_idem)
  qed
qed

theorem request_routing_witness:
  "findHandler service_mux ''POST'' ''/webhook//generic'' = Redirect ''/webhook/generic''"
proof -
  have "cleanPath ''/webhook//generic'' = ''/webhook/generic''"
    by (simp add: cleanPath_def path_Clean_def clean_segment_def)
  with request_routing [of "''POST''" "''/webhook//generic''"] show ?thesis by simp
qed

lemma tokenless_serve:
  assumes "as_AuthEnable s" and "TrimPrefix (aq_Authorization r) ''Bearer '' = []"
  shows "serve orc rt r s w = Some (if rt = HealthRoute then handleHealth else HttpError 401 ''unauthorized'', s, [], w)"
  using assms by (cases rt) (simp_all add: serve_def authMiddleware_def authorized_def)

text \<open>C26 (tokenless_requests): where authorisation is on, a request without a token, whatever its method, path and
  body, runs no test, stores no result and leaves the reservations alone: it gets the health status, 401, 404, a redirect
  or the answer of the webhook endpoint. That endpoint is open to everyone (its documentation
  lists a 401 that it never gives): all such a request can do is to store one message there.\<close>

theorem tokenless_requests:
  assumes "as_AuthEnable s" and "TrimPrefix (header_Get req ''Authorization'') ''Bearer '' = []"
    and "ServeHTTP swagger service_mux orc (main_extractors L) (memory_port cod id (\<lambda>s _. s)) req s w = Some (ans, s', nts, w')"
  shows "s' = s \<and> nts = [] \<and> ms_reservations (outside w') = ms_reservations (outside w)
     \<and> (case ans of
          ApiAnswer resp \<Rightarrow> resp \<in> {handleHealth, HttpError 401 ''unauthorized''} \<and> w' = w
        | Redirected url \<Rightarrow> w' = w
        | PageNotFound \<Rightarrow> w' = w
        | WebhookAnswer (Refused code msg) \<Rightarrow> code \<in> {400, 404, 500} \<and> outside w' = outside w
        | WebhookAnswer NoContent \<Rightarrow>
            (\<exists>msg now. acceptable (Some msg) \<and> mem_Deposit cod msg now (outside w) = (None, outside w')))"
proof -
  have tok: "TrimPrefix (aq_Authorization (api_request req)) ''Bearer '' = []"
    using assms(2) by (simp add: api_request_def)
  show ?thesis
  proof (cases "findHandler service_mux (wq_Method req) (wq_Path req)")
    case (Endpoint h)
    show ?thesis
    proof (cases h)
      case (ApiRoute rt)
      with assms(3) Endpoint show ?thesis
        by (auto simp: ServeHTTP_def endpoint_handler_def tokenless_serve [OF assms(1) tok])
    next
      case SwaggerRoute
      with assms Endpoint tok show ?thesis
        by (auto simp: ServeHTTP_def endpoint_handler_def authMiddleware_def authorized_def)
    next
      case WebhookRoute
      with assms(3) Endpoint obtain reply where h: "handleWebhook (main_extractors L) (memory_port cod id (\<lambda>s _. s)) req w = (reply, w')"
        and r: "ans = WebhookAnswer reply" "s' = s" "nts = []"
        by (auto simp: ServeHTTP_def endpoint_handler_def split: prod.splits)
      from h show ?thesis
      proof (cases rule: handleWebhook_memory)
        case (stored msg now)
        have "ms_reservations (snd (mem_Deposit cod msg now (outside w))) = ms_reservations (outside w)"
          by (simp add: mem_Deposit_def Let_def split: sum.splits)
        with stored(5) have "ms_reservations (outside w') = ms_reservations (outside w)" by simp
        with stored r show ?thesis by auto
      qed (use r in simp)
    qed
  qed (use assms(3) in \<open>auto simp: ServeHTTP_def\<close>)
qed

theorem tokenless_requests_witness:
  "\<forall>orc :: (unit, MemoryStore) Orchestrator. \<exists>ans s' nts w'. ServeHTTP (\<lambda>_. handleHealth) service_mux orc
       (main_extractors example_lib) (memory_port example_codec id (\<lambda>s _. s))
       (example_generic\<lparr>wq_Path := ''/run''\<rparr>) (NewServer True ''k'' None []) example_before = Some (ans, s', nts, w')
     \<and> s' = NewServer True ''k'' None [] \<and> nts = []"
proof
  fix orc :: "(unit, MemoryStore) Orchestrator"
  let ?req = "example_generic\<lparr>wq_Path := ''/run''\<rparr>" and ?s = "NewServer True ''k'' None []"
  have a: "as_AuthEnable ?s" by (simp add: NewServer_def)
  have h: "header_Get ?req ''Authorization'' = []"
    by (simp add: header_Get_def values_Get_def example_generic_def)
  have t: "TrimPrefix (header_Get ?req ''Authorization'') ''Bearer '' = []"
    unfolding h by (simp add: TrimPrefix_def)
  have "cleanPath ''/run'' = ''/run''" by (simp add: cleanPath_def path_Clean_def clean_segment_def)
  then have "findHandler service_mux (wq_Method ?req) (wq_Path ?req) = Endpoint (ApiRoute RunRoute)"
    by (simp add: findHandler_clean service_matchOrRedirect service_match example_generic_def)
  then have "\<exists>ans s' nts w'. ServeHTTP (\<lambda>_. handleHealth) service_mux orc
       (main_extractors example_lib) (memory_port example_codec id (\<lambda>s _. s)) ?req ?s example_before = Some (ans, s', nts, w')"
    using h by (simp add: ServeHTTP_def endpoint_handler_def tokenless_serve [OF a] api_request_def TrimPrefix_def)
  with tokenless_requests [OF a t]
  show "\<exists>ans s' nts w'. ServeHTTP (\<lambda>_. handleHealth) service_mux orc
       (main_extractors example_lib) (memory_port example_codec id (\<lambda>s _. s)) ?req ?s example_before = Some (ans, s', nts, w')
     \<and> s' = ?s \<and> nts = []" by blast
qed

text \<open>The line of a request has the status that the client sees, whatever the handler; the middleware
  changes nothing in what the handler does.\<close>

lemma access_log:
  assumes "Configure level format = Inr cfg"
    and "loggingMiddleware (NewLogger cfg ''api'') h req s w = Some (line, ans, s', nts, w')"
  obtains w1 w2 where "h req s (snd (time_Now w)) = Some (ans, s', nts, w2)" "w' = snd (time_Now w2)"
    "line = (let lvl = (if wq_Path req = ''/health'' then LevelDebug else LevelInfo) in
       if lc_level cfg \<le> lvl
       then Some (lvl, ''http request completed'',
         [(''component'', LStr ''api''), (''method'', LStr (wq_Method req)), (''path'', LStr (wq_Path req)),
          (''resp_status'', LInt (wire_status (writer_ops ans))),
          (''duration_ms'', LInt (Milliseconds (clock w' - clock (snd (time_Now w)))))])
       else None)"
proof -
  have st: "statusRecorder (writer_ops ans) 200 = wire_status (writer_ops ans)"
    by (cases ans rule: writer_ops.cases) (simp_all add: http_Error_def respondJSON_def)
  obtain l where l: "newWith cfg ''api'' = Some l" "handler_level (lo_handler l) = lc_level cfg"
    "lo_attrs l = [(''component'', LStr ''api'')]" using newWith_Some [of cfg "''api''"] by auto
  from assms(2) obtain w2 where h: "h req s (snd (time_Now w)) = Some (ans, s', nts, w2)"
    by (auto simp: loggingMiddleware_def split_beta Let_def split: Option.bind_split_asm)
  show thesis
    by (rule that [OF h])
      (use assms(2) h l in \<open>auto simp: loggingMiddleware_def field_methods chain_Some Event_Msg_def Logger_Event_def
        NewLogger_def attr_defs st clock_time_Now(1) split_beta Let_def\<close>)
qed

end
