(* ===== verification/Scheduler.thy ===== *)
theory Scheduler
  imports Orchestrator
begin

section \<open>The scheduler: \<open>internal/adapters/primary/cron\<close>\<close>

text \<open>
  The scheduler registers a job with the cron library for every test that is enabled and has a schedule.
  \<open>parse\<close> is the parser of the library: the error text, if it refuses a schedule. When the library fires
  an entry, which it does between \<open>Start\<close> and \<open>Stop\<close> only, its function runs the test and waits for the
  result; the run has no deadline (\<open>context.Background\<close>).
\<close>

record cron_entry =
  ce_schedule :: string
  ce_def :: TestDefinition

record Scheduler =
  sd_entries :: "cron_entry list"
  sd_running :: bool

definition NewScheduler :: Scheduler where
  "NewScheduler = \<lparr>sd_entries = [], sd_running = False\<rparr>"

definition RegisterTest ::
  "(string \<Rightarrow> string option) \<Rightarrow> TestDefinition \<Rightarrow> Scheduler \<Rightarrow> gerror option \<times> Scheduler" where
  "RegisterTest parse def s =
     (if \<not> td_Enabled def \<or> td_Schedule def = [] then (None, s)
      else case parse (td_Schedule def) of
        Some err \<Rightarrow>
          (Some (errorf ErrConfiguration (''failed to schedule test '' @ td_ID def @ '': '' @ err)), s)
      | None \<Rightarrow>
          (None, s\<lparr>sd_entries := sd_entries s @ [\<lparr>ce_schedule = td_Schedule def, ce_def = def\<rparr>]\<rparr>))"

definition Scheduler_Start :: "Scheduler \<Rightarrow> Scheduler" where
  "Scheduler_Start s = s\<lparr>sd_running := True\<rparr>"

definition Scheduler_Stop :: "Scheduler \<Rightarrow> Scheduler" where
  "Scheduler_Stop s = s\<lparr>sd_running := False\<rparr>"

text \<open>The function of an entry: the run with its notification, and the level of the closing log line.\<close>

definition cron_job ::
  "('i, 'x) Orchestrator \<Rightarrow> TestDefinition \<Rightarrow> 'x world
    \<Rightarrow> (TestResult \<times> int \<times> notification option \<times> 'x world) option" where
  "cron_job orc def w = do {
     (runID, result, nt, w) \<leftarrow> RunTest orc None def w;
     let level = (if tr_Status result = StatusFailed \<or> tr_Status result = StatusError then 8
                  else if tr_Status result = StatusSkipped then 4 else 0);
     Some (result, level, nt, w)
   }"

text \<open>What the library may do with a scheduler.\<close>

inductive fires :: "('i, 'x) Orchestrator \<Rightarrow> Scheduler \<Rightarrow> 'x world \<Rightarrow> TestResult \<Rightarrow> notification option \<Rightarrow> 'x world \<Rightarrow> bool"
  for orc s where
  fire: "sd_running s \<Longrightarrow> en \<in> set (sd_entries s) \<Longrightarrow> cron_job orc (ce_def en) w = Some (result, level, nt, w')
    \<Longrightarrow> fires orc s w result nt w'"

inductive_cases firesE: "fires orc s w result nt w'"

text \<open>\<open>main\<close> registers all tests, and only logs the errors.\<close>

definition register_all :: "(string \<Rightarrow> string option) \<Rightarrow> TestDefinition list \<Rightarrow> Scheduler \<Rightarrow> Scheduler" where
  "register_all parse defs s = fold (\<lambda>def s. snd (RegisterTest parse def s)) defs s"

definition schedulable :: "(string \<Rightarrow> string option) \<Rightarrow> TestDefinition \<Rightarrow> bool" where
  "schedulable parse def \<longleftrightarrow> td_Enabled def \<and> td_Schedule def \<noteq> [] \<and> parse (td_Schedule def) = None"

lemma RegisterTest_entries:
  "sd_entries (snd (RegisterTest parse def s)) =
     sd_entries s @ (if schedulable parse def then [\<lparr>ce_schedule = td_Schedule def, ce_def = def\<rparr>] else [])"
  by (simp add: RegisterTest_def schedulable_def split: option.splits)

lemma RegisterTest_running [simp]: "sd_running (snd (RegisterTest parse def s)) = sd_running s"
  by (simp add: RegisterTest_def split: option.splits)

lemma register_all_entries:
  "sd_entries (register_all parse defs s) =
     sd_entries s @ map (\<lambda>def. \<lparr>ce_schedule = td_Schedule def, ce_def = def\<rparr>) (filter (schedulable parse) defs)"
  unfolding register_all_def by (induction defs arbitrary: s) (simp_all add: RegisterTest_entries)

lemma register_all_running [simp]: "sd_running (register_all parse defs s) = sd_running s"
  unfolding register_all_def by (induction defs arbitrary: s) simp_all

lemma RegisterTest_error: "fst (RegisterTest parse def s) = Some err \<Longrightarrow> errors_Is err k \<longleftrightarrow> k = ErrConfiguration"
  by (auto simp: RegisterTest_def split: if_splits option.splits)

lemma cron_job_run:
  "cron_job orc def w = Some (result, level, nt, w') \<Longrightarrow> \<exists>runID. RunTest orc None def w = Some (runID, result, nt, w')"
  by (auto simp: cron_job_def split: Option.bind_split_asm)

lemma cron_job_level: "cron_job orc def w = Some (result, level, nt, w') \<Longrightarrow> level = runStatusLevel (tr_Status result)"
  by (auto simp: cron_job_def runStatusLevel_def split: Option.bind_split_asm RunStatus.splits if_splits)

subsection \<open>Properties\<close>

text \<open>C39 (scheduled_runs): the scheduler has an entry for exactly the tests that are enabled with a schedule
  that parses, in the order of their registration. What it runs is one of these tests, so a scheduled run
  is never skipped; its failures are notified. A stopped scheduler runs nothing.\<close>

theorem scheduled_runs:
  assumes "fires orc s w result nt w'" and "s = Scheduler_Start (register_all parse defs NewScheduler)"
  shows "(\<exists>def \<in> set defs. td_Enabled def \<and> td_Schedule def \<noteq> [] \<and> parse (td_Schedule def) = None
       \<and> tr_TestID result = td_ID def \<and> tr_Status result \<notin> {StatusSkipped, StatusRunning}
       \<and> nt = (if is_failure (tr_Status result) then Some (td_OnFailure def, result) else None))
     \<and> map ce_def (sd_entries s) = filter (schedulable parse) defs
     \<and> \<not> fires orc (Scheduler_Stop s) w0 result0 nt0 w0'"
proof -
  have e: "sd_entries s = map (\<lambda>def. \<lparr>ce_schedule = td_Schedule def, ce_def = def\<rparr>) (filter (schedulable parse) defs)"
    by (simp add: assms(2) Scheduler_Start_def register_all_entries NewScheduler_def)
  from assms(1) obtain en level where en: "en \<in> set (sd_entries s)"
    and j: "cron_job orc (ce_def en) w = Some (result, level, nt, w')" by (rule firesE)
  from cron_job_run [OF j] obtain runID where "RunTest orc None (ce_def en) w = Some (runID, result, nt, w')" ..
  then obtain w1 where x: "execute orc None (ce_def en) runID w1 = Some (result, nt, w')"
    by (auto simp: RunTest_alt split_beta Let_def)
  from en e have d: "ce_def en \<in> set defs" "schedulable parse (ce_def en)" by auto
  with execute_status [OF x]
  have "\<exists>def \<in> set defs. td_Enabled def \<and> td_Schedule def \<noteq> [] \<and> parse (td_Schedule def) = None
       \<and> tr_TestID result = td_ID def \<and> tr_Status result \<notin> {StatusSkipped, StatusRunning}
       \<and> nt = (if is_failure (tr_Status result) then Some (td_OnFailure def, result) else None)"
    by (intro bexI [of _ "ce_def en"]) (auto simp: schedulable_def)
  moreover have "map ce_def (sd_entries s) = filter (schedulable parse) defs" by (simp add: e comp_def)
  moreover have "\<not> fires orc (Scheduler_Stop s) w0 result0 nt0 w0'" by (auto simp: Scheduler_Stop_def elim: firesE)
  ultimately show ?thesis by blast
qed

definition nightly :: TestDefinition where
  "nightly = (example_definition [example_step])\<lparr>td_Schedule := ''0 3 * * *''\<rparr>"

definition nightly_scheduler :: Scheduler where
  "nightly_scheduler = Scheduler_Start (register_all (\<lambda>_. None) [nightly, nightly\<lparr>td_Enabled := False\<rparr>] NewScheduler)"

theorem scheduled_runs_witness:
  "\<exists>result nt w'. fires failing_orchestrator nightly_scheduler world0 result nt w'
     \<and> tr_TestID result = ''t'' \<and> map ce_def (sd_entries nightly_scheduler) = [nightly]"
proof -
  have e: "sd_running nightly_scheduler" "sd_entries nightly_scheduler = [\<lparr>ce_schedule = ''0 3 * * *'', ce_def = nightly\<rparr>]"
    by (simp_all add: nightly_scheduler_def Scheduler_Start_def register_all_entries NewScheduler_def schedulable_def
        nightly_def example_definition_def)
  obtain result level nt w' where "cron_job failing_orchestrator nightly world0 = Some (result, level, nt, w')"
    by (simp add: cron_job_def nightly_def RunTest_def execute_def executeSequential_def
      example_definition_def failing_orchestrator_def example_orchestrator_def
      run_step_def TriggerRegistry_Create_def EffectiveType_def example_step_def reserveRecipients_def
      stepMaxAttempts_def eval_nat_numeral failing_trigger_def split_beta Let_def)
  with e have f: "fires failing_orchestrator nightly_scheduler world0 result nt w'"
    by (intro fire [where en = "\<lparr>ce_schedule = ''0 3 * * *'', ce_def = nightly\<rparr>" and level = level]) simp_all
  from scheduled_runs [OF f nightly_scheduler_def]
  have "tr_TestID result = ''t''" "map ce_def (sd_entries nightly_scheduler) = [nightly]"
    by (auto simp: nightly_def example_definition_def schedulable_def)
  with f show ?thesis by (intro exI conjI)
qed

end
