(* ===== verification/Api_Receiver.thy ===== *)
theory Api_Receiver
  imports Polling Http_Trigger
begin

section \<open>The polling receiver: \<open>internal/adapters/secondary/receiver/api\<close>\<close>

text \<open>
  The receiver of type \<open>api\<close> calls an endpoint again and again until an attempt passes or the
  context ends. An attempt renders its request with the variables of the run, which it shares with
  everyone else and may change (\<open>run_id\<close>, counters), so they come back beside the result.

  The serialisation of the body is the same code as in the trigger (\<open>bodyText\<close>). The outermost
  \<open>option\<close> is \<open>None\<close> where a template panics or the loop does not end.
\<close>

definition defaultInterval :: int where "defaultInterval = 5 * 10 ^ 9"

record 'x APIPollingReceiver =
  pr_cfg :: ReceiverConfig
  pr_assertions :: AssertionRegistry
  pr_client :: "'x HttpDo"
  pr_runID :: string

definition NewAPIPollingReceiver ::
  "ReceiverConfig \<Rightarrow> AssertionRegistry option \<Rightarrow> 'x HttpDo option \<Rightarrow> gerror + 'x APIPollingReceiver" where
  "NewAPIPollingReceiver cfg reg client =
     (if rc_URL cfg = [] then Inl (errorf ErrConfiguration (''api receiver requires '' @ squoted ''url''))
      else case reg of
        None \<Rightarrow> Inl (errorf ErrConfiguration ''assertion registry is required'')
      | Some r \<Rightarrow>
          (case client of
             None \<Rightarrow> Inl (errorf ErrConfiguration ''http client is required'')
           | Some c \<Rightarrow> Inr \<lparr>pr_cfg = cfg, pr_assertions = r, pr_client = c, pr_runID = []\<rparr>))"

definition api_Start :: "string \<Rightarrow> 'x APIPollingReceiver \<Rightarrow> 'x APIPollingReceiver" where
  "api_Start runID r = r\<lparr>pr_runID := runID\<rparr>"

definition api_unresolvedReason :: "string \<Rightarrow> strmap option \<Rightarrow> string \<Rightarrow> entropy \<Rightarrow> string \<times> entropy" where
  "api_unresolvedReason targetURL headers body e =
     (if HasUnresolved targetURL
      then (''api receiver url '' @ Quote targetURL @ '' contains an unresolved template placeholder'', e)
      else (let (hs, e1) = range_headers headers e in
        case unresolved_header hs of
          Some k \<Rightarrow> (''api receiver header '' @ Quote k @ '' contains an unresolved template placeholder'', e1)
        | None \<Rightarrow>
            if HasUnresolved body
            then (''api receiver body '' @ Quote body @ '' contains an unresolved template placeholder'', e1)
            else ([], e1)))"

text \<open>\<open>fmt.Errorf\<close> without a sentinel.\<close>

definition plain_error :: "string \<Rightarrow> gerror" where "plain_error tx = GErr [] tx"

definition api_status_error :: "ReceiverConfig \<Rightarrow> HttpResponse \<Rightarrow> gerror option" where
  "api_status_error cfg resp =
     (if rc_ExpectedStatus cfg \<noteq> 0 then
        if hp_StatusCode resp \<noteq> rc_ExpectedStatus cfg
        then Some (plain_error (''expected status '' @ FormatInt (rc_ExpectedStatus cfg) @ '', got ''
               @ FormatInt (hp_StatusCode resp) @ '': '' @ hp_Body resp))
        else None
      else if 400 \<le> hp_StatusCode resp
      then Some (plain_error (''returned status '' @ FormatInt (hp_StatusCode resp) @ '': '' @ hp_Body resp))
      else None)"

text \<open>The fields of the response, and the check of the assertions on them. The body is decoded and
  flattened again for the assertions, which may choose another order of its maps.\<close>

definition api_flatten :: "lib \<Rightarrow> string \<Rightarrow> entropy \<Rightarrow> strmap \<times> entropy" where
  "api_flatten L rawResp e =
     (if TrimSpace rawResp \<noteq> []
      then (case lib_unmarshal L rawResp of
              Inl err \<Rightarrow> ([], e)
            | Inr payload \<Rightarrow> FlattenJSON L payload e)
      else ([], e))"

definition api_check :: "lib \<Rightarrow> AssertionRegistry \<Rightarrow> AssertionConfig list \<Rightarrow> string \<Rightarrow> varmap \<Rightarrow> entropy
    \<Rightarrow> (gerror + strmap) templated" where
  "api_check L reg asserts rawResp vars e =
     (let (flatResp, e) = api_flatten L rawResp e in
      if asserts = [] then Some (Inr flatResp, vars, e)
      else if TrimSpace rawResp = []
      then Some (Inl (plain_error ''response_assertions configured but API response body is empty''), vars, e)
      else case lib_unmarshal L rawResp of
        Inl err \<Rightarrow> Some (Inl (plain_error (''failed to parse API response as JSON: '' @ err)), vars, e)
      | Inr respPayload \<Rightarrow>
          (let (flatResp, e) = FlattenJSON L respPayload e in do {
             (err, vars, e) \<leftarrow> Run L reg asserts flatResp rawResp vars e;
             Some (case err of Some x \<Rightarrow> Inl x | None \<Rightarrow> Inr flatResp, vars, e)
           }))"

definition first_values :: "(string, string list) gomap \<Rightarrow> strmap" where
  "first_values hdr = map (\<lambda>(k, vs). (k, hd vs)) (filter (\<lambda>(k, vs). vs \<noteq> []) hdr)"

text \<open>From the response on.\<close>

definition api_response :: "lib \<Rightarrow> 'x APIPollingReceiver \<Rightarrow> HttpResponse \<Rightarrow> varmap \<Rightarrow> 'x world
    \<Rightarrow> ((gerror + Message) \<times> varmap \<times> 'x world) option" where
  "api_response L r resp vars w =
     (case hp_ReadError resp of
        Some err \<Rightarrow> Some (Inl (errorf ErrTriggerFailed (''failed to read response body: '' @ err)), vars, w)
      | None \<Rightarrow>
          (case api_status_error (pr_cfg r) resp of
             Some err \<Rightarrow> Some (Inl err, vars, w)
           | None \<Rightarrow> do {
               (out, vars, e) \<leftarrow> api_check L (pr_assertions r) (rc_ResponseAsserts (pr_cfg r)) (hp_Body resp) vars (draws w);
               let w = w\<lparr>draws := e\<rparr>;
               case out of
                 Inl err \<Rightarrow> Some (Inl err, vars, w)
               | Inr flatResp \<Rightarrow>
                   (let (now, w) = time_Now w in
                    Some (Inr \<lparr>m_RunID = pr_runID r, m_ReceiverType = APIReceiverType, m_ReceivedAt = now,
                        m_Headers = first_values (hp_Header resp), m_Fields = flatResp, m_Raw = hp_Body resp\<rparr>, vars, w))
             }))"

definition api_attempt :: "lib \<Rightarrow> 'x APIPollingReceiver \<Rightarrow> ctx \<Rightarrow> varmap \<Rightarrow> 'x world
    \<Rightarrow> ((gerror + Message) \<times> varmap \<times> 'x world) option" where
  "api_attempt L r ctx vars w = do {
     let vars = AList.update ''run_id'' (pr_runID r) vars;
     (targetURL, vars, e) \<leftarrow> ReplaceString L (rc_URL (pr_cfg r)) vars (draws w);
     (headers, vars, e) \<leftarrow> ReplaceHeaders L (rc_Headers (pr_cfg r)) vars e;
     (body, vars, e) \<leftarrow> bodyText L (rc_Body (pr_cfg r)) headers vars e;
     case body of
       Inl err \<Rightarrow> Some (Inl (plain_error (''failed to serialize request body: '' @ err)), vars, w\<lparr>draws := e\<rparr>)
     | Inr tx \<Rightarrow>
         (let mthd = (if rc_Method (pr_cfg r) = [] then MethodGet else rc_Method (pr_cfg r));
              (reason, e) = api_unresolvedReason targetURL headers tx e in
          if reason \<noteq> [] then Some (Inl (errorf ErrTriggerFailed reason), vars, w\<lparr>draws := e\<rparr>)
          else case lib_new_request L mthd targetURL of
            Some err \<Rightarrow>
              Some (Inl (errorf ErrTriggerFailed (''failed to create polling request: '' @ err)), vars, w\<lparr>draws := e\<rparr>)
          | None \<Rightarrow>
              (let (hs, e) = range_headers headers e;
                   req = \<lparr>hq_Method = mthd, hq_URL = targetURL, hq_Header = set_headers hs, hq_Body = tx\<rparr>;
                   (result, w) = pr_client r ctx req (w\<lparr>draws := e\<rparr>)
               in case result of
                    Inl err \<Rightarrow> Some (Inl (errorf ErrTriggerFailed (''HTTP request failed: '' @ err)), vars, w)
                  | Inr resp \<Rightarrow> api_response L r resp vars w))
   }"

text \<open>The loop: after an attempt that failed, the select on the context and a timer that starts now.\<close>

partial_function (option) api_loop :: "lib \<Rightarrow> 'x APIPollingReceiver \<Rightarrow> ctx \<Rightarrow> int \<Rightarrow> varmap \<Rightarrow> 'x world
    \<Rightarrow> ((gerror + Message) \<times> varmap \<times> 'x world) option" where
  "api_loop L r ctx interval vars w =
     Option.bind (api_attempt L r ctx vars w) (\<lambda>(out, vars, w).
       case out of
         Inr msg \<Rightarrow> Some (Inr msg, vars, w)
       | Inl lastErr \<Rightarrow>
           (let (expired, w) = select_done ctx (clock w + interval) w in
            if expired
            then Some (Inl (errorf ErrTimeout (''timeout waiting for API condition (last error: '' @ etext lastErr
                   @ ''): context deadline exceeded'')), vars, w)
            else api_loop L r ctx interval vars w))"

definition api_interval :: "ReceiverConfig \<Rightarrow> int" where
  "api_interval cfg = (if rc_Interval cfg \<le> 0 then defaultInterval else rc_Interval cfg)"

definition api_Collect :: "lib \<Rightarrow> 'x APIPollingReceiver \<Rightarrow> ctx \<Rightarrow> varmap \<Rightarrow> 'x world
    \<Rightarrow> ((gerror + Message) \<times> varmap \<times> 'x world) option" where
  "api_Collect L r ctx vars w =
     (if pr_runID r = [] then Some (Inl (errorf ErrConfiguration ''receiver not started''), vars, w)
      else api_loop L r ctx (api_interval (pr_cfg r)) vars w)"

subsection \<open>The loop\<close>

lemma api_loop_cases:
  "api_loop L r ctx interval vars w = Some y \<Longrightarrow>
     (case fst y of
        Inr msg \<Rightarrow> \<exists>vars1 w1. api_attempt L r ctx vars1 w1 = Some y
      | Inl err \<Rightarrow> errors_Is err ErrTimeout \<and> (\<exists>d. ctx = Some d \<and> d \<le> clock (snd (snd y))))"
proof (erule api_loop.raw_induct [rotated])
  fix rec L and r :: "'x APIPollingReceiver" and ctx interval vars w y
  assume IH: "\<And>L r ctx interval vars w y. rec L r ctx interval vars w = Some y \<Longrightarrow>
      (case fst y of
         Inr msg \<Rightarrow> \<exists>vars1 w1. api_attempt L r ctx vars1 w1 = Some y
       | Inl err \<Rightarrow> errors_Is err ErrTimeout \<and> (\<exists>d. ctx = Some d \<and> d \<le> clock (snd (snd y))))"
    and eq: "Option.bind (api_attempt L r ctx vars w) (\<lambda>(out, vars, w).
       case out of
         Inl lastErr \<Rightarrow>
           (let (expired, w) = select_done ctx (clock w + interval) w in
            if expired
            then Some (Inl (errorf ErrTimeout (''timeout waiting for API condition (last error: '' @ etext lastErr
                   @ ''): context deadline exceeded'')), vars, w)
            else rec L r ctx interval vars w)
       | Inr msg \<Rightarrow> Some (Inr msg, vars, w)) = Some y"
  then obtain out vars1 w1 where a: "api_attempt L r ctx vars w = Some (out, vars1, w1)"
    by (cases "api_attempt L r ctx vars w") auto
  show "case fst y of
         Inr msg \<Rightarrow> \<exists>vars1 w1. api_attempt L r ctx vars1 w1 = Some y
       | Inl err \<Rightarrow> errors_Is err ErrTimeout \<and> (\<exists>d. ctx = Some d \<and> d \<le> clock (snd (snd y)))"
  proof (cases out)
    case (Inr msg)
    with a eq have "y = (Inr msg, vars1, w1)" by simp
    with a Inr show ?thesis by (auto intro!: exI [of _ vars] exI [of _ w])
  next
    case (Inl err)
    obtain expired w2 where s: "select_done ctx (clock w1 + interval) w1 = (expired, w2)" by fastforce
    show ?thesis
    proof (cases expired)
      case True
      with a Inl s eq select_done_expired [of ctx "clock w1 + interval" w1] show ?thesis by auto
    next
      case False
      with a Inl s eq have "rec L r ctx interval vars1 w2 = Some y" by simp
      from IH [OF this] show ?thesis .
    qed
  qed
qed

text \<open>An attempt that does not panic, does not turn back the clock, and counts at most one call.\<close>

definition countable_attempts :: "lib \<Rightarrow> 'x APIPollingReceiver \<Rightarrow> ctx \<Rightarrow> ('x \<Rightarrow> nat) \<Rightarrow> bool" where
  "countable_attempts L r ctx calls \<longleftrightarrow>
     (\<forall>vars w. \<exists>out vars' w'. api_attempt L r ctx vars w = Some (out, vars', w') \<and> clock w \<le> clock w'
        \<and> calls (outside w') \<le> Suc (calls (outside w)))"

lemma api_loop_returns:
  assumes "countable_attempts L r (Some d) calls" and "0 < interval"
  shows "\<exists>out vars' w'. api_loop L r (Some d) interval vars w = Some (out, vars', w')
     \<and> calls (outside w') \<le> calls (outside w) + nat ((d - clock w) div interval) + 1"
proof (induction "nat (d - clock w)" arbitrary: vars w rule: less_induct)
  case less
  from assms(1) obtain out vars1 w1 where a: "api_attempt L r (Some d) vars w = Some (out, vars1, w1)" "clock w \<le> clock w1"
    "calls (outside w1) \<le> Suc (calls (outside w))"
    unfolding countable_attempts_def by blast
  show ?case
  proof (cases out)
    case (Inr msg)
    with a show ?thesis by (subst api_loop.simps) simp
  next
    case (Inl err)
    let ?tk = "clock w1 + interval"
    obtain expired w2 where s: "select_done (Some d) ?tk w1 = (expired, w2)" by fastforce
    have o: "outside w2 = outside w1" using select_done_outside [of "Some d" ?tk w1] s by simp
    show ?thesis
    proof (cases expired)
      case True
      with a Inl s o show ?thesis by (subst api_loop.simps) simp
    next
      case False
      with s select_done_before [of w1 ?tk d] assms(2) have le: "?tk \<le> d" by force
      from select_done_at_tick [of w1 ?tk d] s le assms(2) have c: "clock w2 = ?tk" by simp
      have m: "nat (d - clock w2) < nat (d - clock w)" using c le a(2) assms(2) by simp
      from less.hyps [OF m] obtain out' vars' w' where
        r: "api_loop L r (Some d) interval vars1 w2 = Some (out', vars', w')"
        "calls (outside w') \<le> calls (outside w2) + nat ((d - clock w2) div interval) + 1" by blast
      have "(d - clock w2) div interval \<le> (d - clock w - interval) div interval"
        using c a(2) assms(2) by (intro zdiv_mono1) simp_all
      also have "\<dots> = (d - clock w) div interval - 1"
        using assms(2) div_add_self2 [of interval "d - clock w - interval"] by simp
      finally have "(d - clock w2) div interval + 1 \<le> (d - clock w) div interval" by simp
      moreover have "0 \<le> (d - clock w2) div interval" using le c assms(2) by (simp add: pos_imp_zdiv_nonneg_iff)
      ultimately have "nat ((d - clock w2) div interval) + 1 \<le> nat ((d - clock w) div interval)" by linarith
      moreover have "api_loop L r (Some d) interval vars w = Some (out', vars', w')"
        using a Inl s False r(1) by (subst api_loop.simps) simp
      ultimately show ?thesis using r(2) o a(3) by (intro exI [of _ out'] exI [of _ vars'] exI [of _ w']) simp
    qed
  qed
qed

lemma api_interval_pos: "0 < api_interval cfg"
  by (simp add: api_interval_def defaultInterval_def)

subsection \<open>What an attempt that passes has seen\<close>

lemma api_check_ok:
  assumes "api_check L reg asserts rawResp vars e = Some (Inr flat, vars', e')" and "list_all no_braces asserts"
    and "asserts \<noteq> []"
  obtains payload e1 where "lib_unmarshal L rawResp = Inr payload" "flat = fst (FlattenJSON L payload e1)"
    "\<forall>cfg \<in> set asserts. check L reg cfg (synthetic_message flat rawResp) = None"
proof -
  obtain flat0 e0 where f0: "api_flatten L rawResp e = (flat0, e0)" by fastforce
  from assms(1,3) f0 obtain payload where p: "lib_unmarshal L rawResp = Inr payload"
    by (auto simp: api_check_def split: if_splits sum.splits)
  obtain flat1 e1 where f: "FlattenJSON L payload e0 = (flat1, e1)" by fastforce
  from Run_no_braces [OF assms(2), of L reg flat1 rawResp vars e1] obtain e2 where
    "Run L reg asserts flat1 rawResp vars e1 =
      Some (map_option (\<lambda>err. run_error err rawResp)
             (first_error (\<lambda>cfg. check L reg cfg (synthetic_message flat1 rawResp)) asserts), vars, e2)" by blast
  with assms(1,3) f0 p f have "first_error (\<lambda>cfg. check L reg cfg (synthetic_message flat1 rawResp)) asserts = None"
    and "flat = flat1"
    by (auto simp: api_check_def split: if_splits option.splits)
  with p f that [of payload e0] show thesis by (simp add: first_error_None)
qed

lemma api_response_ok:
  assumes "api_response L r resp vars w = Some (Inr msg, vars', w')"
  obtains flat e where "hp_ReadError resp = None" "api_status_error (pr_cfg r) resp = None"
    "api_check L (pr_assertions r) (rc_ResponseAsserts (pr_cfg r)) (hp_Body resp) vars (draws w) = Some (Inr flat, vars', e)"
    "m_RunID msg = pr_runID r" "m_ReceiverType msg = APIReceiverType" "m_Fields msg = flat" "m_Raw msg = hp_Body resp"
proof -
  from assms have re: "hp_ReadError resp = None" and st: "api_status_error (pr_cfg r) resp = None"
    by (auto simp: api_response_def split: option.splits)
  with assms obtain out vars1 e where c: "api_check L (pr_assertions r) (rc_ResponseAsserts (pr_cfg r)) (hp_Body resp) vars (draws w)
      = Some (out, vars1, e)"
    by (auto simp: api_response_def split: Option.bind_split_asm)
  with assms re st show thesis
    by (cases out) (auto simp: api_response_def split_beta Let_def intro!: that)
qed

lemma api_attempt_ok:
  assumes "api_attempt L r ctx vars w = Some (Inr msg, vars', w')"
  obtains req w1 resp w2 vars2 where "pr_client r ctx req w1 = (Inr resp, w2)" "outside w1 = outside w"
    "\<not> HasUnresolved (hq_URL req)" "\<not> HasUnresolved (hq_Body req)"
    "api_response L r resp vars2 w2 = Some (Inr msg, vars', w')"
proof -
  from assms obtain targetURL vars1 e1 headers vars2 e2 body vars3 e3 where
    "ReplaceString L (rc_URL (pr_cfg r)) (AList.update ''run_id'' (pr_runID r) vars) (draws w) = Some (targetURL, vars1, e1)"
    "ReplaceHeaders L (rc_Headers (pr_cfg r)) vars1 e1 = Some (headers, vars2, e2)"
    "bodyText L (rc_Body (pr_cfg r)) headers vars2 e2 = Some (body, vars3, e3)"
    by (auto simp: api_attempt_def split: Option.bind_split_asm)
  note steps = this
  with assms obtain tx where tx: "body = Inr tx" by (cases body) (auto simp: api_attempt_def)
  obtain reason e4 where re: "api_unresolvedReason targetURL headers tx e3 = (reason, e4)" by fastforce
  with assms steps tx have ok: "reason = []"
    by (cases "reason = []") (auto simp: api_attempt_def Let_def)
  with re have nu: "\<not> HasUnresolved targetURL" "\<not> HasUnresolved tx"
    by (auto simp: api_unresolvedReason_def split_beta Let_def split: if_splits option.splits)
  let ?m = "if rc_Method (pr_cfg r) = [] then MethodGet else rc_Method (pr_cfg r)"
  from assms steps tx re ok have nr: "lib_new_request L ?m targetURL = None"
    by (cases "lib_new_request L ?m targetURL") (auto simp: api_attempt_def Let_def)
  obtain hs e5 where hs: "range_headers headers e4 = (hs, e5)" by fastforce
  let ?req = "\<lparr>hq_Method = ?m, hq_URL = targetURL, hq_Header = set_headers hs, hq_Body = tx\<rparr>"
  obtain result w2 where c: "pr_client r ctx ?req (w\<lparr>draws := e5\<rparr>) = (result, w2)" by fastforce
  with assms steps tx re ok nr hs obtain resp where "result = Inr resp"
    "api_response L r resp vars3 w2 = Some (Inr msg, vars', w')"
    by (cases result) (auto simp: api_attempt_def Let_def)
  with that [of ?req "w\<lparr>draws := e5\<rparr>" resp w2 vars3] c nu show thesis by simp
qed

subsection \<open>Properties\<close>

text \<open>C31 (api_collect_outcome): the polling receiver only ever ends in a timeout, never before the
  deadline, or with the message of a response whose status is acceptable and that passes every one of
  the response assertions; whatever else goes wrong, it polls on.\<close>

theorem api_collect_outcome:
  assumes "api_Collect L r ctx vars w = Some (out, vars', w')" and "pr_runID r \<noteq> []"
    and "list_all no_braces (rc_ResponseAsserts (pr_cfg r))"
  shows "case out of
     Inl err \<Rightarrow> errors_Is err ErrTimeout \<and> (\<exists>d. ctx = Some d \<and> d \<le> clock w')
   | Inr msg \<Rightarrow> m_RunID msg = pr_runID r \<and> m_ReceiverType msg = ''api''
       \<and> (\<exists>req w1 resp w2. pr_client r ctx req w1 = (Inr resp, w2) \<and> \<not> HasUnresolved (hq_URL req)
            \<and> m_Raw msg = hp_Body resp
            \<and> (if rc_ExpectedStatus (pr_cfg r) \<noteq> 0 then hp_StatusCode resp = rc_ExpectedStatus (pr_cfg r)
               else hp_StatusCode resp < 400)
            \<and> (\<forall>cfg \<in> set (rc_ResponseAsserts (pr_cfg r)).
                  check L (pr_assertions r) cfg (synthetic_message (m_Fields msg) (hp_Body resp)) = None))"
proof (cases out)
  case (Inl err)
  with assms(1,2) api_loop_cases [of L r ctx "api_interval (pr_cfg r)" vars w "(out, vars', w')"] show ?thesis
    by (simp add: api_Collect_def)
next
  case (Inr msg)
  with assms(1,2) api_loop_cases [of L r ctx "api_interval (pr_cfg r)" vars w "(out, vars', w')"]
  obtain vars1 w1 where "api_attempt L r ctx vars1 w1 = Some (Inr msg, vars', w')" by (auto simp: api_Collect_def)
  then obtain req w3 resp w2 vars2 where
    c: "pr_client r ctx req w3 = (Inr resp, w2)" "\<not> HasUnresolved (hq_URL req)"
    and resp: "api_response L r resp vars2 w2 = Some (Inr msg, vars', w')" by (rule api_attempt_ok)
  from resp obtain flat e where st: "api_status_error (pr_cfg r) resp = None"
    and ck: "api_check L (pr_assertions r) (rc_ResponseAsserts (pr_cfg r)) (hp_Body resp) vars2 (draws w2) = Some (Inr flat, vars', e)"
    and m: "m_RunID msg = pr_runID r" "m_ReceiverType msg = APIReceiverType" "m_Fields msg = flat" "m_Raw msg = hp_Body resp"
    by (rule api_response_ok)
  have "\<forall>cfg \<in> set (rc_ResponseAsserts (pr_cfg r)). check L (pr_assertions r) cfg (synthetic_message flat (hp_Body resp)) = None"
    by (cases "rc_ResponseAsserts (pr_cfg r) = []", simp) (rule api_check_ok [OF ck assms(3)])
  moreover have "if rc_ExpectedStatus (pr_cfg r) \<noteq> 0 then hp_StatusCode resp = rc_ExpectedStatus (pr_cfg r)
      else hp_StatusCode resp < 400"
    using st by (auto simp: api_status_error_def split: if_splits)
  ultimately have "\<exists>req w1 resp w2. pr_client r ctx req w1 = (Inr resp, w2) \<and> \<not> HasUnresolved (hq_URL req)
      \<and> m_Raw msg = hp_Body resp
      \<and> (if rc_ExpectedStatus (pr_cfg r) \<noteq> 0 then hp_StatusCode resp = rc_ExpectedStatus (pr_cfg r)
         else hp_StatusCode resp < 400)
      \<and> (\<forall>cfg \<in> set (rc_ResponseAsserts (pr_cfg r)).
            check L (pr_assertions r) cfg (synthetic_message (m_Fields msg) (hp_Body resp)) = None)"
    unfolding m using c
    by (rule_tac x = req in exI, rule_tac x = w3 in exI, rule_tac x = resp in exI, rule_tac x = w2 in exI) simp
  with Inr m show ?thesis by (simp add: APIReceiverType_def)
qed


definition example_poll_cfg :: ReceiverConfig where
  "example_poll_cfg = \<lparr>rc_Type = ''api'', rc_Timeout = 0, rc_Recipient = [], rc_Options = [], rc_Assertions = [],
     rc_Interval = 0, rc_Method = [], rc_URL = ''http://x/'', rc_Headers = None, rc_Body = None, rc_ExpectedStatus = 0,
     rc_ResponseAsserts = [], rc_Extract = []\<rparr>"

definition example_poller :: "HttpResponse \<Rightarrow> HttpRequest list APIPollingReceiver" where
  "example_poller resp = \<lparr>pr_cfg = example_poll_cfg, pr_assertions = NewDefaultRegistry example_lib,
     pr_client = recording_client resp, pr_runID = ''r''\<rparr>"

lemma example_poller_simps:
  "pr_cfg (example_poller resp) = example_poll_cfg" "pr_client (example_poller resp) = recording_client resp"
  "pr_runID (example_poller resp) = ''r''"
  "rc_URL example_poll_cfg = ''http://x/''" "rc_Headers example_poll_cfg = None" "rc_Body example_poll_cfg = None"
  "rc_Method example_poll_cfg = []" "rc_ExpectedStatus example_poll_cfg = 0" "rc_ResponseAsserts example_poll_cfg = []"
  "rc_Interval example_poll_cfg = 0" "lib_new_request example_lib m ''http://x/'' = None"
  by (simp_all add: example_poller_def example_poll_cfg_def example_lib_def)

lemma example_attempt:
  "\<exists>vars' e. api_attempt example_lib (example_poller resp) ctx vars w =
     api_response example_lib (example_poller resp) resp vars'
         (w\<lparr>draws := e, outside := outside w @
            [\<lparr>hq_Method = ''GET'', hq_URL = ''http://x/'', hq_Header = set_headers [], hq_Body = []\<rparr>]\<rparr>)"
proof -
  have u: "CHR ''{'' \<notin> set ''http://x/''" by simp
  have nu: "\<not> HasUnresolved ''http://x/''" by (rule HasUnresolved_no_brace) simp
  show ?thesis
    unfolding api_attempt_def example_poller_simps
    by (simp add: ReplaceString_text [OF u] ReplaceHeaders_def
      bodyText_def api_unresolvedReason_def nu range_headers_def unresolved_header_def example_poller_simps MethodGet_def
      recording_client_def split_beta Let_def del: HasUnresolved.simps(2)) blast
qed

text \<open>A server that answers 200 at once, and one that answers 500 forever.\<close>

theorem api_collect_outcome_witness:
  "\<exists>msg vars' w'. api_Collect example_lib (example_poller example_response) None [] \<lparr>draws = \<lambda>_. 0, clock = 0, outside = []\<rparr> =
       Some (Inr msg, vars', w') \<and> m_ReceiverType msg = ''api''"
proof -
  let ?w = "\<lparr>draws = \<lambda>_. 0, clock = 0, outside = []\<rparr>"
  obtain vars1 e where a: "api_attempt example_lib (example_poller example_response) None [] ?w =
     api_response example_lib (example_poller example_response) example_response vars1
         (?w\<lparr>draws := e, outside := outside ?w @
            [\<lparr>hq_Method = ''GET'', hq_URL = ''http://x/'', hq_Header = set_headers [], hq_Body = []\<rparr>]\<rparr>)"
    using example_attempt by blast
  have "\<exists>msg vars' w'. api_response example_lib (example_poller example_response) example_response vars1 w =
      Some (Inr msg, vars', w')" for w
    by (simp add: api_response_def example_poller_simps example_response_def api_status_error_def api_check_def api_flatten_def
        split_beta Let_def)
  with a obtain msg1 vars2 w2 where "api_attempt example_lib (example_poller example_response) None [] ?w = Some (Inr msg1, vars2, w2)"
    by metis
  then have "\<exists>msg vars' w'. api_Collect example_lib (example_poller example_response) None [] ?w = Some (Inr msg, vars', w')"
    by (simp add: api_Collect_def api_loop.simps [of _ "example_poller example_response" None] example_poller_simps)
  then obtain msg vars' w' where h: "api_Collect example_lib (example_poller example_response) None [] ?w = Some (Inr msg, vars', w')"
    by blast
  from api_collect_outcome [OF h] show ?thesis using h by (auto simp: example_poller_simps)
qed


end
