(* ===== verification/Imap_Receiver.thy ===== *)
theory Imap_Receiver
  imports Webhook_Receiver Api_Receiver
begin

section \<open>The mailbox receiver: \<open>internal/adapters/secondary/receiver/imap\<close>\<close>

text \<open>
  The receiver of type \<open>imap\<close>, its client and the parser of emails. The IMAP library and the mail
  parser are parameters: \<open>ImapLib\<close> holds the calls that the client makes on a connection of type \<open>'c\<close>
  (each gives its error text where it fails), and \<open>MailLib\<close> what the parser reads out of a raw email.
\<close>

subsection \<open>The parser\<close>

text \<open>A mail as the library hands it out: the subject, the addresses of \<open>From\<close> and \<open>To\<close> (name and
  address each; none where the header does not parse), the date in RFC 3339, the raw header fields in
  order with their text (or that it does not decode), and the parts up to the first error with their media
  type and their body.\<close>

record Mail =
  ml_Subject :: string
  ml_From :: "(string \<times> string) list option"
  ml_To :: "(string \<times> string) list option"
  ml_Date :: string
  ml_Fields :: "(string \<times> string option) list"
  ml_Parts :: "(string \<times> string option) list"

type_synonym MailLib = "string \<Rightarrow> string + Mail"

definition extractAddress :: "(string \<times> string) list option \<Rightarrow> string" where
  "extractAddress addresses =
     (case addresses of
        None \<Rightarrow> []
      | Some [] \<Rightarrow> []
      | Some ((name, addr) # _) \<Rightarrow> if name \<noteq> [] then name @ '' <'' @ addr @ ''>'' else addr)"

fun rawHeaders_loop :: "(string \<times> string option) list \<Rightarrow> strmap \<Rightarrow> strmap" where
  "rawHeaders_loop [] res = res"
| "rawHeaders_loop ((key, val) # flds) res =
     rawHeaders_loop flds
       (case val of
          None \<Rightarrow> res
        | Some v \<Rightarrow> if map_of res key = None then AList.update key v res else res)"

definition extractRawHeaders :: "(string \<times> string option) list \<Rightarrow> strmap" where
  "extractRawHeaders flds = rawHeaders_loop flds []"

text \<open>The first part of a type that is not blank gives the field.\<close>

definition set_body :: "string \<Rightarrow> string \<Rightarrow> strmap \<Rightarrow> strmap" where
  "set_body key partBody flds =
     (if (case map_of flds key of None \<Rightarrow> [] | Some v \<Rightarrow> v) = []
      then AList.update key (TrimSpace partBody) flds else flds)"

fun parts_loop :: "(string \<times> string option) list \<Rightarrow> strmap \<Rightarrow> strmap" where
  "parts_loop [] flds = flds"
| "parts_loop ((contentType, body) # parts) flds =
     parts_loop parts
       (case body of
          None \<Rightarrow> flds
        | Some b \<Rightarrow>
            if contentType = ''text/plain'' then set_body ''body'' b flds
            else if contentType = ''text/html'' then set_body ''html_body'' b flds
            else flds)"

definition ParseMessage :: "MailLib \<Rightarrow> string \<Rightarrow> string \<Rightarrow> 'x world \<Rightarrow> (gerror + Message) \<times> 'x world" where
  "ParseMessage ml runID raw w =
     (case ml raw of
        Inl err \<Rightarrow> (Inl (errorf ErrInternal (''failed to parse email: '' @ err)), w)
      | Inr m \<Rightarrow>
          (let flds = parts_loop (ml_Parts m)
                 [(''subject'', ml_Subject m), (''from'', extractAddress (ml_From m)),
                  (''to'', extractAddress (ml_To m)), (''date'', ml_Date m)];
               (now, w) = time_Now w
           in (Inr \<lparr>m_RunID = runID, m_ReceiverType = ImapReceiverType, m_ReceivedAt = now,
                    m_Headers = extractRawHeaders (ml_Fields m), m_Fields = flds, m_Raw = raw\<rparr>, w)))"

subsection \<open>The client\<close>

datatype SearchCriteria = SubjectCriteria string | BodyCriteria string

text \<open>The calls of the library. A search gives the sequence numbers it found, a fetch the messages with
  their body sections.\<close>

record ('c, 'x) ImapLib =
  il_DialTLS :: "string \<Rightarrow> string \<Rightarrow> 'x world \<Rightarrow> (string + 'c) \<times> 'x world"
  il_Dial :: "string \<Rightarrow> 'x world \<Rightarrow> (string + 'c) \<times> 'x world"
  il_Login :: "'c \<Rightarrow> string \<Rightarrow> string \<Rightarrow> 'x world \<Rightarrow> string option \<times> 'x world"
  il_Select :: "'c \<Rightarrow> string \<Rightarrow> 'x world \<Rightarrow> string option \<times> 'x world"
  il_Noop :: "'c \<Rightarrow> 'x world \<Rightarrow> string option \<times> 'x world"
  il_Search :: "'c \<Rightarrow> SearchCriteria \<Rightarrow> 'x world \<Rightarrow> (string + nat list) \<times> 'x world"
  il_Fetch :: "'c \<Rightarrow> nat \<Rightarrow> 'x world \<Rightarrow> (string + string list list) \<times> 'x world"
  il_Logout :: "'c \<Rightarrow> 'x world \<Rightarrow> string option \<times> 'x world"

record 'c GoIMAPClient =
  gc_host :: string
  gc_port :: int
  gc_username :: string
  gc_password :: string
  gc_mailbox :: string
  gc_useTLS :: bool
  gc_conn :: "'c option"

definition NewGoIMAPClient :: "string \<Rightarrow> int \<Rightarrow> string \<Rightarrow> string \<Rightarrow> string \<Rightarrow> bool \<Rightarrow> 'c GoIMAPClient" where
  "NewGoIMAPClient host port username password mailbox useTLS =
     \<lparr>gc_host = host, gc_port = port, gc_username = username, gc_password = password,
      gc_mailbox = mailbox, gc_useTLS = useTLS, gc_conn = None\<rparr>"

definition wrap_internal :: "string \<Rightarrow> gerror" where
  "wrap_internal err = Wrap ErrInternal (Some (plain_error err))"

definition imap_Connect ::
  "('c, 'x) ImapLib \<Rightarrow> 'c GoIMAPClient \<Rightarrow> 'x world \<Rightarrow> (gerror option \<times> 'c GoIMAPClient) \<times> 'x world" where
  "imap_Connect il c w =
     (let addr = gc_host c @ '':'' @ FormatInt (gc_port c);
          (dialled, w) = (if gc_useTLS c then il_DialTLS il addr (gc_host c) w else il_Dial il addr w)
      in case dialled of
           Inl err \<Rightarrow> ((Some (wrap_internal err), c), w)
         | Inr conn \<Rightarrow>
             (let (err, w) = il_Login il conn (gc_username c) (gc_password c) w in
              case err of
                Some x \<Rightarrow> ((Some (wrap_internal x), c), w)
              | None \<Rightarrow>
                  (let (err, w) = il_Select il conn (gc_mailbox c) w in
                   case err of
                     Some x \<Rightarrow> ((Some (wrap_internal x), c), w)
                   | None \<Rightarrow> ((None, c\<lparr>gc_conn := Some conn\<rparr>), w))))"

definition searchIn ::
  "('c, 'x) ImapLib \<Rightarrow> MailLib \<Rightarrow> 'c \<Rightarrow> string \<Rightarrow> (string \<Rightarrow> SearchCriteria) \<Rightarrow> 'x world
    \<Rightarrow> (gerror + Message option) \<times> 'x world" where
  "searchIn il ml conn runID criteria w =
     (let (searchData, w) = il_Search il conn (criteria runID) w in
      case searchData of
        Inl err \<Rightarrow> (Inl (wrap_internal err), w)
      | Inr [] \<Rightarrow> (Inr None, w)
      | Inr (seqNum # _) \<Rightarrow>
          (let (messages, w) = il_Fetch il conn seqNum w in
           case messages of
             Inl err \<Rightarrow> (Inl (wrap_internal err), w)
           | Inr [] \<Rightarrow> (Inr None, w)
           | Inr ([] # _) \<Rightarrow> (Inr None, w)
           | Inr ((raw # _) # _) \<Rightarrow>
               (let (out, w) = ParseMessage ml runID raw w in
                (case out of Inl err \<Rightarrow> Inl err | Inr msg \<Rightarrow> Inr (Some msg), w))))"

text \<open>The call panics without a connection (a nil pointer); \<open>Collect\<close> is only called after \<open>Start\<close>.\<close>

definition SearchByRunID ::
  "('c, 'x) ImapLib \<Rightarrow> MailLib \<Rightarrow> 'c \<Rightarrow> string \<Rightarrow> 'x world \<Rightarrow> (gerror + Message option) \<times> 'x world" where
  "SearchByRunID il ml conn runID w =
     (let (err, w) = il_Noop il conn w in
      case err of
        Some x \<Rightarrow> (Inl (wrap_internal x), w)
      | None \<Rightarrow>
          (let (out, w) = searchIn il ml conn runID SubjectCriteria w in
           case out of
             Inl err \<Rightarrow> (Inl err, w)
           | Inr (Some msg) \<Rightarrow> (Inr (Some msg), w)
           | Inr None \<Rightarrow> searchIn il ml conn runID BodyCriteria w))"

definition imap_Disconnect :: "('c, 'x) ImapLib \<Rightarrow> 'c GoIMAPClient \<Rightarrow> 'x world \<Rightarrow> gerror option \<times> 'x world" where
  "imap_Disconnect il c w =
     (case gc_conn c of
        None \<Rightarrow> (None, w)
      | Some conn \<Rightarrow> (let (err, w) = il_Logout il conn w in (map_option plain_error err, w)))"

subsection \<open>The receiver\<close>

text \<open>\<open>strconv.ParseBool\<close>, with its error (that the code drops) as \<open>False\<close>, and the error text of
  \<open>strconv.Atoi\<close>.\<close>

definition ParseBool :: "string \<Rightarrow> bool" where
  "ParseBool s \<longleftrightarrow> s \<in> {''1'', ''t'', ''T'', ''true'', ''TRUE'', ''True''}"

definition signed_digits :: "string \<Rightarrow> bool" where
  "signed_digits s =
     (let ds = (case s of [] \<Rightarrow> [] | c # r \<Rightarrow> if c = CHR ''-'' \<or> c = CHR ''+'' then r else s)
      in ds \<noteq> [] \<and> list_all is_digit ds)"

definition Atoi_error :: "string \<Rightarrow> string" where
  "Atoi_error s = ''strconv.Atoi: parsing '' @ Quote s @ '': ''
     @ (if signed_digits s then ''value out of range'' else ''invalid syntax'')"

record 'c IMAPReceiver =
  ir_Client :: "'c GoIMAPClient"
  ir_RunID :: string
  ir_Host :: string
  ir_Mailbox :: string

definition option_of :: "strmap \<Rightarrow> string \<Rightarrow> string" where
  "option_of options k = (case map_of options k of None \<Rightarrow> [] | Some v \<Rightarrow> v)"

definition NewIMAPReceiver :: "strmap \<Rightarrow> gerror + 'c IMAPReceiver" where
  "NewIMAPReceiver options =
     (let host = option_of options ''host''; portStr = option_of options ''port'' in
      if host = [] then Inl (errorf ErrConfiguration (''imap receiver requires '' @ squoted ''host'' @ '' option''))
      else if portStr = [] then Inl (errorf ErrConfiguration (''imap receiver requires '' @ squoted ''port'' @ '' option''))
      else case ParseInt64 portStr of
        None \<Rightarrow> Inl (errorf ErrConfiguration
          (''imap '' @ squoted ''port'' @ '' option must be a number: '' @ Atoi_error portStr))
      | Some portNum \<Rightarrow>
          (let mailbox = (if option_of options ''mailbox'' = [] then ''INBOX'' else option_of options ''mailbox'') in
           Inr \<lparr>ir_Client = NewGoIMAPClient host (sint portNum) (option_of options ''username'')
                  (option_of options ''password'') mailbox (ParseBool (option_of options ''tls'')),
                ir_RunID = [], ir_Host = host, ir_Mailbox = mailbox\<rparr>))"

definition imap_Start ::
  "('c, 'x) ImapLib \<Rightarrow> string \<Rightarrow> 'c IMAPReceiver \<Rightarrow> 'x world \<Rightarrow> (gerror option \<times> 'c IMAPReceiver) \<times> 'x world" where
  "imap_Start il runID r w =
     (let ((err, c), w) = imap_Connect il (ir_Client r) w in
      case err of
        Some x \<Rightarrow> ((Some (errorf ErrInternal (''failed to connect to IMAP server: '' @ etext x)), r\<lparr>ir_Client := c\<rparr>), w)
      | None \<Rightarrow> ((None, r\<lparr>ir_Client := c, ir_RunID := runID\<rparr>), w))"

definition imap_attempt ::
  "('c, 'x) ImapLib \<Rightarrow> MailLib \<Rightarrow> 'c \<Rightarrow> string \<Rightarrow> 'x world \<Rightarrow> (gerror + Message) option \<times> 'x world" where
  "imap_attempt il ml conn runID w =
     (let (out, w) = SearchByRunID il ml conn runID w in
      (case out of
         Inl err \<Rightarrow> Some (Inl (errorf ErrInternal (''failed to search inbox: '' @ etext err)))
       | Inr (Some msg) \<Rightarrow> Some (Inr msg)
       | Inr None \<Rightarrow> None, w))"

definition imap_Collect ::
  "('c, 'x) ImapLib \<Rightarrow> MailLib \<Rightarrow> 'c IMAPReceiver \<Rightarrow> ctx \<Rightarrow> 'x world \<Rightarrow> ((gerror + Message) \<times> 'x world) option" where
  "imap_Collect il ml r ctx w =
     (if ir_RunID r = [] then Some (Inl (errorf ErrConfiguration ''receiver not started''), w)
      else case gc_conn (ir_Client r) of
        None \<Rightarrow> None
      | Some conn \<Rightarrow> do {
          (out, w) \<leftarrow> start_ticker (2 * second) ctx (imap_attempt il ml conn (ir_RunID r)) w;
          Some (case out of
            None \<Rightarrow> Inl (errorf ErrTimeout (''timeout waiting for email with runID '' @ ir_RunID r @ '': '' @ deadline_exceeded))
          | Some x \<Rightarrow> x, w)
        })"

definition imap_Stop :: "('c, 'x) ImapLib \<Rightarrow> 'c IMAPReceiver \<Rightarrow> 'x world \<Rightarrow> gerror option \<times> 'x world" where
  "imap_Stop il r w = imap_Disconnect il (ir_Client r) w"

subsection \<open>The bodies of a mail\<close>

text \<open>The bodies of the parts of a type that decode, without the space around them, and the first that is
  not empty.\<close>

definition part_texts :: "string \<Rightarrow> (string \<times> string option) list \<Rightarrow> string list" where
  "part_texts typ parts = map TrimSpace (List.map_filter snd (filter (\<lambda>(t, b). t = typ) parts))"

definition first_filled :: "string list \<Rightarrow> string" where
  "first_filled ts = (case filter (\<lambda>t. t \<noteq> []) ts of [] \<Rightarrow> [] | t # _ \<Rightarrow> t)"

definition field_of :: "strmap \<Rightarrow> string \<Rightarrow> string" where
  "field_of flds k = (case map_of flds k of None \<Rightarrow> [] | Some v \<Rightarrow> v)"

lemma field_of_set_body:
  "field_of (set_body key b flds) k =
     (if k = key \<and> field_of flds key = [] then TrimSpace b else field_of flds k)"
  by (auto simp: set_body_def field_of_def split: option.splits)

lemma parts_loop_fields:
  assumes "(k, typ) = (''body'', ''text/plain'') \<or> (k, typ) = (''html_body'', ''text/html'')"
  shows "field_of (parts_loop parts flds) k =
     (if field_of flds k \<noteq> [] then field_of flds k else first_filled (part_texts typ parts))"
  using assms
proof (induction parts arbitrary: flds)
  case Nil
  then show ?case by (auto simp: part_texts_def first_filled_def map_filter_simps)
next
  case (Cons p parts)
  obtain t b where p: "p = (t, b)" by fastforce
  show ?case
  proof (cases b)
    case None
    with Cons p show ?thesis by (auto simp: part_texts_def map_filter_simps)
  next
    case (Some tx)
    from Cons.prems show ?thesis
      using Cons.IH Some p
      by (auto simp: part_texts_def first_filled_def map_filter_simps field_of_set_body)
  qed
qed

lemma parts_loop_other: "k \<noteq> ''body'' \<Longrightarrow> k \<noteq> ''html_body'' \<Longrightarrow> field_of (parts_loop parts flds) k = field_of flds k"
  by (induction parts flds rule: parts_loop.induct) (auto simp: field_of_set_body split: option.splits)

text \<open>The first text of a header field wins.\<close>

lemma map_of_rawHeaders_loop:
  "map_of (rawHeaders_loop flds res) k =
     (case map_of res k of Some v \<Rightarrow> Some v
      | None \<Rightarrow> map_of (List.map_filter (\<lambda>(k, v). map_option (\<lambda>t. (k, t)) v) flds) k)"
  by (induction flds res rule: rawHeaders_loop.induct) (auto simp: map_filter_simps split: option.splits)

subsection \<open>What a search gives\<close>

lemma ParseMessage_ok:
  assumes "ParseMessage ml runID raw w = (Inr msg, w')"
  obtains m where "ml raw = Inr m" "m_RunID msg = runID" "m_ReceiverType msg = ImapReceiverType" "m_Raw msg = raw"
    "m_Headers msg = extractRawHeaders (ml_Fields m)"
    "\<And>k. field_of (m_Fields msg) k =
       (if k = ''body'' then first_filled (part_texts ''text/plain'' (ml_Parts m))
        else if k = ''html_body'' then first_filled (part_texts ''text/html'' (ml_Parts m))
        else field_of [(''subject'', ml_Subject m), (''from'', extractAddress (ml_From m)),
                       (''to'', extractAddress (ml_To m)), (''date'', ml_Date m)] k)"
proof -
  from assms obtain m where m: "ml raw = Inr m" by (auto simp: ParseMessage_def split: sum.splits)
  let ?flds = "[(''subject'', ml_Subject m), (''from'', extractAddress (ml_From m)),
                (''to'', extractAddress (ml_To m)), (''date'', ml_Date m)]"
  have e: "field_of ?flds ''body'' = []" "field_of ?flds ''html_body'' = []" by (simp_all add: field_of_def)
  have "field_of (parts_loop (ml_Parts m) ?flds) k =
       (if k = ''body'' then first_filled (part_texts ''text/plain'' (ml_Parts m))
        else if k = ''html_body'' then first_filled (part_texts ''text/html'' (ml_Parts m)) else field_of ?flds k)" for k
    using parts_loop_fields [of k "''text/plain''" "ml_Parts m" ?flds] parts_loop_fields [of k "''text/html''" "ml_Parts m" ?flds]
      parts_loop_other [of k "ml_Parts m" ?flds] e by auto
  with assms m that show thesis by (auto simp: ParseMessage_def split_beta Let_def)
qed

text \<open>A hit: the search by one of the two criteria found a mail, and it was fetched and parsed.\<close>

definition hit :: "('c, 'x) ImapLib \<Rightarrow> MailLib \<Rightarrow> 'c \<Rightarrow> string \<Rightarrow> Message \<Rightarrow> bool" where
  "hit il ml conn runID msg \<longleftrightarrow>
     (\<exists>criteria w1 n ns w2 secs mails (w3 :: 'x world).
        criteria \<in> {SubjectCriteria runID, BodyCriteria runID}
      \<and> fst (il_Search il conn criteria w1) = Inr (n # ns)
      \<and> fst (il_Fetch il conn n w2) = Inr ((m_Raw msg # secs) # mails)
      \<and> fst (ParseMessage ml runID (m_Raw msg) w3) = Inr msg)"

lemma searchIn_hit:
  assumes "searchIn il ml conn runID criteria w = (Inr (Some msg), w')"
    and "criteria runID \<in> {SubjectCriteria runID, BodyCriteria runID}"
  shows "hit il ml conn runID msg"
proof -
  obtain sd w1 where s: "il_Search il conn (criteria runID) w = (sd, w1)" by fastforce
  with assms(1) obtain n ns where sd: "sd = Inr (n # ns)"
    by (auto simp: searchIn_def split: sum.splits list.splits)
  obtain ms w2 where f: "il_Fetch il conn n w1 = (ms, w2)" by fastforce
  with assms(1) s sd obtain raw secs mails where ms: "ms = Inr ((raw # secs) # mails)"
    by (auto simp: searchIn_def split: sum.splits list.splits)
  obtain out w3 where p: "ParseMessage ml runID raw w2 = (out, w3)" by fastforce
  with assms(1) s sd f ms have out: "out = Inr msg" by (auto simp: searchIn_def split: sum.splits)
  with p have "m_Raw msg = raw" by (auto elim: ParseMessage_ok)
  with assms(2) s sd f ms p out show ?thesis
    unfolding hit_def
    by (intro exI [of _ "criteria runID"] exI [of _ w] exI [of _ n] exI [of _ ns] exI [of _ w1]
        exI [of _ secs] exI [of _ mails] exI [of _ w2]) simp
qed

lemma SearchByRunID_hit:
  assumes "SearchByRunID il ml conn runID w = (Inr (Some msg), w')"
  shows "hit il ml conn runID msg"
proof -
  obtain err w1 where n: "il_Noop il conn w = (err, w1)" by fastforce
  with assms have err: "err = None" by (auto simp: SearchByRunID_def split: option.splits)
  obtain out w2 where s: "searchIn il ml conn runID SubjectCriteria w1 = (out, w2)" by fastforce
  with assms n err consider "out = Inr (Some msg)" | "searchIn il ml conn runID BodyCriteria w2 = (Inr (Some msg), w')"
    by (auto simp: SearchByRunID_def split: sum.splits option.splits)
  then show ?thesis
    by cases (use s in \<open>auto intro: searchIn_hit\<close>)
qed

lemma imap_attempt_cases:
  assumes "imap_attempt il ml conn runID w = (Some out, w')"
  shows "case out of Inr msg \<Rightarrow> hit il ml conn runID msg | Inl err \<Rightarrow> errors_Is err ErrInternal"
proof -
  obtain r w1 where s: "SearchByRunID il ml conn runID w = (r, w1)" by fastforce
  with assms show ?thesis
    by (cases r) (auto simp: imap_attempt_def split: option.splits intro: SearchByRunID_hit)
qed

lemma hit_parsed:
  assumes "hit il ml conn runID msg"
  obtains m where "ml (m_Raw msg) = Inr m" "m_RunID msg = runID" "m_ReceiverType msg = ImapReceiverType"
    "field_of (m_Fields msg) ''subject'' = ml_Subject m"
    "field_of (m_Fields msg) ''body'' = first_filled (part_texts ''text/plain'' (ml_Parts m))"
    "field_of (m_Fields msg) ''html_body'' = first_filled (part_texts ''text/html'' (ml_Parts m))"
proof -
  from assms obtain w3 :: "'b world" where f: "fst (ParseMessage ml runID (m_Raw msg) w3) = Inr msg"
    unfolding hit_def by (elim exE conjE) (rule that)
  have "ParseMessage ml runID (m_Raw msg) w3 = (Inr msg, snd (ParseMessage ml runID (m_Raw msg) w3))"
    using f by (simp add: prod_eq_iff)
  then show thesis by (rule ParseMessage_ok) (rule that; simp add: field_of_def)
qed

subsection \<open>Properties\<close>

text \<open>A mailbox with one mail, for examples. The world counts the connections that are open.\<close>

definition example_mail :: Mail where
  "example_mail = \<lparr>ml_Subject = ''run r'', ml_From = Some [(''A'', ''a@x'')], ml_To = None, ml_Date = [],
     ml_Fields = [(''Subject'', Some ''run r'')], ml_Parts = [(''text/plain'', Some ''code''), (''text/html'', None)]\<rparr>"

definition example_imap :: "bool \<Rightarrow> (unit, nat) ImapLib" where
  "example_imap login_ok =
     \<lparr>il_DialTLS = (\<lambda>addr name w. (Inr (), w\<lparr>outside := Suc (outside w)\<rparr>)),
      il_Dial = (\<lambda>addr w. (Inr (), w\<lparr>outside := Suc (outside w)\<rparr>)),
      il_Login = (\<lambda>c u p w. (if login_ok then None else Some ''NO'', w)),
      il_Select = (\<lambda>c m w. (None, w)),
      il_Noop = (\<lambda>c w. (None, w)),
      il_Search = (\<lambda>c crit w. (Inr (if crit = BodyCriteria ''r'' then [7] else []), w)),
      il_Fetch = (\<lambda>c n w. (Inr [[''raw'']], w)),
      il_Logout = (\<lambda>c w. (None, w\<lparr>outside := outside w - 1\<rparr>))\<rparr>"

definition mailbox_options :: strmap where
  "mailbox_options = [(''host'', ''h''), (''port'', ''143'')]"

definition mailbox_world :: "nat world" where
  "mailbox_world = \<lparr>draws = (\<lambda>_. 0), clock = 0, outside = 0\<rparr>"

definition mailbox_receiver :: "unit IMAPReceiver" where
  "mailbox_receiver = \<lparr>ir_Client = \<lparr>gc_host = ''h'', gc_port = 143, gc_username = [], gc_password = [],
       gc_mailbox = ''INBOX'', gc_useTLS = False, gc_conn = Some ()\<rparr>,
     ir_RunID = ''r'', ir_Host = ''h'', ir_Mailbox = ''INBOX''\<rparr>"

text \<open>C34 (mail_collected): what the mailbox receiver of a run gives back is a mail that one of the two
  searches for the run id found, under that run id, with the first filled text and HTML parts as its bodies.
  Otherwise it fails: for an error of the mailbox, or because the deadline has passed.\<close>

theorem mail_collected:
  assumes "imap_Collect il ml r ctx w = Some (out, w')" and "ir_RunID r \<noteq> []"
  shows "case out of
      Inl err \<Rightarrow> errors_Is err ErrInternal \<or> errors_Is err ErrTimeout \<and> (\<exists>d. ctx = Some d \<and> d \<le> clock w')
    | Inr msg \<Rightarrow> \<exists>conn m. gc_conn (ir_Client r) = Some conn \<and> hit il ml conn (ir_RunID r) msg
        \<and> ml (m_Raw msg) = Inr m \<and> m_RunID msg = ir_RunID r \<and> m_ReceiverType msg = ''imap''
        \<and> field_of (m_Fields msg) ''subject'' = ml_Subject m
        \<and> field_of (m_Fields msg) ''body'' = first_filled (part_texts ''text/plain'' (ml_Parts m))
        \<and> field_of (m_Fields msg) ''html_body'' = first_filled (part_texts ''text/html'' (ml_Parts m))"
proof -
  from assms obtain conn o1 where c: "gc_conn (ir_Client r) = Some conn"
    and t: "poll_ticks (2 * second) ctx (imap_attempt il ml conn (ir_RunID r)) (clock w + 2 * second) w = Some (o1, w')"
    and out: "out = (case o1 of None \<Rightarrow> Inl (errorf ErrTimeout (''timeout waiting for email with runID '' @ ir_RunID r
                 @ '': '' @ deadline_exceeded)) | Some x \<Rightarrow> x)"
    by (auto simp: imap_Collect_def start_ticker_def split: option.splits Option.bind_split_asm)
  from poll_ticks_cases [OF t] show ?thesis
  proof
    assume "fst (o1, w') \<noteq> None \<and> (\<exists>w1. imap_attempt il ml conn (ir_RunID r) w1 = (o1, w'))"
    then obtain x w1 where x: "o1 = Some x" and a: "imap_attempt il ml conn (ir_RunID r) w1 = (Some x, w')" by auto
    show ?thesis
    proof (cases x)
      case (Inl err)
      with imap_attempt_cases [OF a] out x show ?thesis by simp
    next
      case (Inr msg)
      with imap_attempt_cases [OF a] have h: "hit il ml conn (ir_RunID r) msg" by simp
      then obtain m where "ml (m_Raw msg) = Inr m" "m_RunID msg = ir_RunID r" "m_ReceiverType msg = ImapReceiverType"
        "field_of (m_Fields msg) ''subject'' = ml_Subject m"
        "field_of (m_Fields msg) ''body'' = first_filled (part_texts ''text/plain'' (ml_Parts m))"
        "field_of (m_Fields msg) ''html_body'' = first_filled (part_texts ''text/html'' (ml_Parts m))"
        by (rule hit_parsed)
      with c h out x Inr show ?thesis by (auto simp: ImapReceiverType_def)
    qed
  next
    assume "fst (o1, w') = None \<and> (\<exists>d. ctx = Some d \<and> d \<le> clock (snd (o1, w')))"
    with out show ?thesis by auto
  qed
qed

theorem mail_collected_witness:
  "\<exists>msg w'. imap_Collect (example_imap True) (\<lambda>raw. Inr example_mail) mailbox_receiver None mailbox_world = Some (Inr msg, w')
     \<and> m_RunID msg = ''r'' \<and> field_of (m_Fields msg) ''body'' = ''code'' \<and> field_of (m_Fields msg) ''html_body'' = []"
proof -
  let ?w = "mailbox_world\<lparr>clock := 2 * second\<rparr>"
  obtain msg w2 where a: "imap_attempt (example_imap True) (\<lambda>raw. Inr example_mail) () ''r'' ?w = (Some (Inr msg), w2)"
    by (auto simp: imap_attempt_def SearchByRunID_def searchIn_def example_imap_def ParseMessage_def time_Now_def
        draw_def mailbox_world_def Let_def)
  have "poll_ticks (2 * second) None (imap_attempt (example_imap True) (\<lambda>raw. Inr example_mail) () ''r'') (2 * second) mailbox_world
      = Some (Some (Inr msg), w2)"
    using a poll_ticks_first [of mailbox_world "2 * second" None
        "imap_attempt (example_imap True) (\<lambda>raw. Inr example_mail) () ''r''" "Inr msg" w2 "2 * second"]
    by (simp add: mailbox_world_def second_def)
  then have c: "imap_Collect (example_imap True) (\<lambda>raw. Inr example_mail) mailbox_receiver None mailbox_world = Some (Inr msg, w2)"
    by (simp add: imap_Collect_def mailbox_receiver_def start_ticker_def) (simp add: mailbox_world_def)
  have t: "TrimSpace ''code'' = ''code''" by (simp add: TrimSpace_graph is_graph_def)
  from mail_collected [OF c] have "m_RunID msg = ''r''" "field_of (m_Fields msg) ''body'' = ''code''"
    "field_of (m_Fields msg) ''html_body'' = []"
    by (auto simp: mailbox_receiver_def example_mail_def part_texts_def first_filled_def map_filter_simps t)
  with c show ?thesis by blast
qed

text \<open>A receiver whose login or choice of a mailbox is refused fails to start,
  and the connection that it opened is never closed: it forgets the connection, so stopping it does
  nothing.\<close>

theorem refused_login_leaks:
  assumes "NewIMAPReceiver options = Inr r" and "gc_useTLS (ir_Client r) = False"
    and "il_Dial il (gc_host (ir_Client r) @ '':'' @ FormatInt (gc_port (ir_Client r))) w = (Inr conn, w1)"
    and "fst (il_Login il conn (gc_username (ir_Client r)) (gc_password (ir_Client r)) w1) = Some err"
  shows "\<exists>x r' w'. imap_Start il runID r w = ((Some x, r'), w') \<and> errors_Is x ErrInternal
     \<and> w' = snd (il_Login il conn (gc_username (ir_Client r)) (gc_password (ir_Client r)) w1)
     \<and> (\<forall>w''. imap_Stop il r' w'' = (None, w''))"
proof -
  from assms(1) have "gc_conn (ir_Client r) = None"
    by (auto simp: NewIMAPReceiver_def NewGoIMAPClient_def Let_def split: if_splits option.splits)
  with assms show ?thesis
    by (auto simp: imap_Start_def imap_Connect_def imap_Stop_def imap_Disconnect_def split_beta Let_def)
qed

theorem refused_login_leaks_witness:
  "\<exists>r x r' w'. NewIMAPReceiver mailbox_options = Inr (r :: unit IMAPReceiver)
     \<and> imap_Start (example_imap False) ''r'' r mailbox_world = ((Some x, r'), w') \<and> outside w' = 1
     \<and> outside (snd (imap_Stop (example_imap False) r' w')) = 1"
proof -
  have p: "ParseInt64 ''143'' = Some 143"
    by (simp add: ParseInt64_def Let_def is_digit_def digits_val_def digit_val_def)
  have b: "ParseBool [] = False" by (simp add: ParseBool_def)
  obtain r :: "unit IMAPReceiver" where r: "NewIMAPReceiver mailbox_options = Inr r" "gc_useTLS (ir_Client r) = False"
    by (simp add: NewIMAPReceiver_def mailbox_options_def option_of_def p b NewGoIMAPClient_def Let_def)
  have "il_Dial (example_imap False) (gc_host (ir_Client r) @ '':'' @ FormatInt (gc_port (ir_Client r))) mailbox_world =
      (Inr (), mailbox_world\<lparr>outside := 1\<rparr>)"
    and l: "il_Login (example_imap False) () (gc_username (ir_Client r)) (gc_password (ir_Client r))
      (mailbox_world\<lparr>outside := 1\<rparr>) = (Some ''NO'', mailbox_world\<lparr>outside := 1\<rparr>)"
    by (simp_all add: example_imap_def mailbox_world_def)
  from refused_login_leaks [OF r this(1), of "''NO''" "''r''"] l obtain x r' w' where
    s: "imap_Start (example_imap False) ''r'' r mailbox_world = ((Some x, r'), w')" "w' = mailbox_world\<lparr>outside := 1\<rparr>"
    "\<forall>w''. imap_Stop (example_imap False) r' w'' = (None, w'')" by auto
  then have "outside w' = 1" "outside (snd (imap_Stop (example_imap False) r' w')) = 1" by simp_all
  with r s(1) show ?thesis by blast
qed

end
