(* ===== verification/Notifier.thy ===== *)
theory Notifier
  imports Http_Trigger
begin

section \<open>The failure notifier: \<open>internal/adapters/secondary/notifier\<close>\<close>

text \<open>
  After a run that failed, the notifier makes the calls of \<open>on_failure\<close>. They share one map of
  variables, which the counters of their templates change. As for the trigger, the outermost
  \<open>option\<close> is the panic of a template, and the log lines (with the two readings of the clock that
  only they use) have no model.
\<close>

definition defaultCallTimeout :: int where "defaultCallTimeout = 15 * 10 ^ 9"

definition MethodPost :: string where "MethodPost = ''POST''"

text \<open>The client is the only field that matters (\<open>NewHTTPNotifier\<close> makes a plain one).\<close>

type_synonym 'x HTTPNotifier = "'x HttpDo"

definition unresolvedReason :: "string \<Rightarrow> strmap option \<Rightarrow> string \<Rightarrow> entropy \<Rightarrow> string \<times> entropy" where
  "unresolvedReason url headers body e =
     (if HasUnresolved url then (''unresolved variable in url '' @ Quote url, e)
      else (let (hs, e) = range_headers headers e in
        case List.find (\<lambda>(k, v). HasUnresolved v) hs of
          Some (k, v) \<Rightarrow> (''unresolved variable in header '' @ Quote k @ '' ('' @ Quote v @ '')'', e)
        | None \<Rightarrow>
            if HasUnresolved body then (''unresolved variable in body '' @ Quote body, e)
            else ([], e)))"

definition call_body :: "lib \<Rightarrow> gobody option \<Rightarrow> varmap \<Rightarrow> entropy \<Rightarrow> (string + string option) templated" where
  "call_body L body vars e =
     (case body of
        None \<Rightarrow> Some (Inr None, vars, e)
      | Some _ \<Rightarrow> do {
          (bodyMap, vars, e) \<leftarrow> ReplaceMap L body vars e;
          Some (case json_Marshal L (VMap (case bodyMap of None \<Rightarrow> [] | Some m \<Rightarrow> m)) of
                  Inl err \<Rightarrow> Inl err
                | Inr b \<Rightarrow> Inr (Some b), vars, e)
        })"

text \<open>The headers of the request: a body without a \<open>Content-Type\<close> is JSON.\<close>

definition call_headers :: "(string \<times> string) list \<Rightarrow> string option \<Rightarrow> strmap" where
  "call_headers hs body =
     (let hdr = set_headers hs in
      if (case map_of hdr ''Content-Type'' of None \<Rightarrow> [] | Some v \<Rightarrow> v) = [] \<and> body \<noteq> None
      then AList.update ''Content-Type'' ''application/json'' hdr else hdr)"

definition call_status_error :: "CallAction \<Rightarrow> HttpResponse \<Rightarrow> gerror option" where
  "call_status_error call resp =
     (if ca_ExpectedStatus call \<noteq> 0 \<and> hp_StatusCode resp \<noteq> ca_ExpectedStatus call
      then Some (errorf ErrInternal (''on_failure call returned status '' @ FormatInt (hp_StatusCode resp)
             @ '', expected '' @ FormatInt (ca_ExpectedStatus call)))
      else if 400 \<le> hp_StatusCode resp
      then Some (errorf ErrInternal (''on_failure call returned status '' @ FormatInt (hp_StatusCode resp)
             @ '': '' @ hp_Body resp))
      else None)"

text \<open>From the rendered request on.\<close>

definition send_call ::
  "lib \<Rightarrow> 'x HTTPNotifier \<Rightarrow> ctx \<Rightarrow> CallAction \<Rightarrow> string \<Rightarrow> strmap option \<Rightarrow> string option \<Rightarrow> 'x world
    \<Rightarrow> gerror option \<times> 'x world" where
  "send_call L n ctx call url headers body w =
     (let mthd = (if ca_Method call = [] then MethodPost else ca_Method call);
          timeout = (if ca_Timeout call = 0 then defaultCallTimeout else ca_Timeout call);
          (now, w) = time_Now w;
          reqCtx = WithTimeout ctx now timeout
      in case lib_new_request L mthd url of
           Some err \<Rightarrow> (Some (errorf ErrInternal (''failed to create on_failure request: '' @ err)), w)
         | None \<Rightarrow>
             (let (hs, e) = range_headers headers (draws w);
                  req = \<lparr>hq_Method = mthd, hq_URL = url, hq_Header = call_headers hs body,
                         hq_Body = (case body of None \<Rightarrow> [] | Some b \<Rightarrow> b)\<rparr>;
                  (result, w) = n reqCtx req (w\<lparr>draws := e\<rparr>)
              in case result of
                   Inl err \<Rightarrow> (Some (errorf ErrInternal (''on_failure HTTP request failed: '' @ err)), w)
                 | Inr resp \<Rightarrow> (call_status_error call resp, w)))"

definition executeCall ::
  "lib \<Rightarrow> 'x HTTPNotifier \<Rightarrow> ctx \<Rightarrow> CallAction \<Rightarrow> varmap \<Rightarrow> 'x world
    \<Rightarrow> (gerror option \<times> varmap \<times> 'x world) option" where
  "executeCall L n ctx call vars w = do {
     let w = (if 0 < ca_DelayBefore call then time_Sleep (ca_DelayBefore call) w else w);
     (resolvedURL, vars, e) \<leftarrow> ReplaceString L (ca_URL call) vars (draws w);
     (resolvedHeaders, vars, e) \<leftarrow> ReplaceHeaders L (ca_Headers call) vars e;
     (body, vars, e) \<leftarrow> call_body L (ca_Body call) vars e;
     case body of
       Inl err \<Rightarrow>
         Some (Some (errorf ErrInternal (''failed to serialize on_failure body: '' @ err)), vars, w\<lparr>draws := e\<rparr>)
     | Inr bodyBytes \<Rightarrow>
         (let (reason, e) = unresolvedReason resolvedURL resolvedHeaders
                (case bodyBytes of None \<Rightarrow> [] | Some b \<Rightarrow> b) e;
              w = w\<lparr>draws := e\<rparr>
          in if reason \<noteq> [] then Some (None, vars, w)
             else (let (err, w) = send_call L n ctx call resolvedURL resolvedHeaders bodyBytes w
                   in Some (err, vars, w)))
   }"

text \<open>The loop goes on after a call that failed.\<close>

fun notify_loop ::
  "lib \<Rightarrow> 'x HTTPNotifier \<Rightarrow> ctx \<Rightarrow> CallAction list \<Rightarrow> varmap \<Rightarrow> 'x world \<Rightarrow> (gerror list \<times> 'x world) option" where
  "notify_loop L n ctx [] vars w = Some ([], w)"
| "notify_loop L n ctx (call # calls) vars w = do {
     (err, vars, w) \<leftarrow> executeCall L n ctx call vars w;
     (errs, w) \<leftarrow> notify_loop L n ctx calls vars w;
     Some (case err of None \<Rightarrow> errs | Some x \<Rightarrow> x # errs, w)
   }"

text \<open>\<open>errors.Join\<close>: no error if there is none, else the texts line by line.\<close>

definition errors_Join :: "gerror list \<Rightarrow> gerror option" where
  "errors_Join errs =
     (if errs = [] then None
      else Some (GErr (concat (map echain errs)) (Join (map etext errs) [CHR 0x0A])))"

definition notify_vars :: "TestResult \<Rightarrow> varmap" where
  "notify_vars result =
     go_copy [(''run_id'', tr_RunID result), (''test_id'', tr_TestID result), (''error'', tr_Error result)]
       (tr_TriggerVars result)"

definition Notify ::
  "lib \<Rightarrow> 'x HTTPNotifier \<Rightarrow> ctx \<Rightarrow> OnFailureConfig \<Rightarrow> TestResult \<Rightarrow> 'x world \<Rightarrow> (gerror option \<times> 'x world) option" where
  "Notify L n ctx cfg result w =
     (if tr_Status result = StatusPassed \<or> tr_Status result = StatusSkipped then Some (None, w)
      else if of_Calls cfg = [] then Some (None, w)
      else do {
        (errs, w) \<leftarrow> notify_loop L n ctx (of_Calls cfg) (notify_vars result) w;
        Some (errors_Join errs, w)
      })"

text \<open>\<open>notifyFailure\<close>, the goroutine that a failed run starts: the error is only logged.\<close>

definition notifyFailure :: "lib \<Rightarrow> 'x HTTPNotifier \<Rightarrow> OnFailureConfig \<times> TestResult \<Rightarrow> 'x world \<Rightarrow> 'x world option" where
  "notifyFailure L n nt w = map_option snd (Notify L n None (fst nt) (snd nt) w)"

subsection \<open>A call\<close>

lemma outside_range_headers [simp]: "outside (w\<lparr>draws := e\<rparr>) = outside w" "clock (w\<lparr>draws := e\<rparr>) = clock w"
  by simp_all

lemma call_status_error_None:
  "call_status_error call resp = None \<longleftrightarrow>
     hp_StatusCode resp < 400 \<and> (ca_ExpectedStatus call = 0 \<or> hp_StatusCode resp = ca_ExpectedStatus call)"
  by (auto simp: call_status_error_def)

lemma call_status_error_chain: "call_status_error call resp = Some err \<Longrightarrow> echain err = [ErrInternal]"
  by (auto simp: call_status_error_def errorf_def split: if_splits)

text \<open>A rendered call: refused by \<open>http.NewRequest\<close>, or one request to the client.\<close>

lemma send_call_cases:
  assumes "send_call L n ctx call url headers body w = (err, w')"
  obtains
    (refused) x where "err = Some (errorf ErrInternal x)" "outside w' = outside w"
      "lib_new_request L (if ca_Method call = [] then MethodPost else ca_Method call) url \<noteq> None"
  | (called) reqCtx req w1 result where
      "lib_new_request L (if ca_Method call = [] then MethodPost else ca_Method call) url = None"
      "hq_Method req = (if ca_Method call = [] then MethodPost else ca_Method call)"
      "hq_URL req = url" "hq_Body req = (case body of None \<Rightarrow> [] | Some b \<Rightarrow> b)"
      "hq_Header req = call_headers (fst (range_headers headers (draws (snd (time_Now w))))) body"
      "outside w1 = outside w" "n reqCtx req w1 = (result, w')"
      "err = (case result of
         Inl x \<Rightarrow> Some (errorf ErrInternal (''on_failure HTTP request failed: '' @ x))
       | Inr resp \<Rightarrow> call_status_error call resp)"
proof -
  let ?m = "if ca_Method call = [] then MethodPost else ca_Method call"
  obtain now w1 where t: "time_Now w = (now, w1)" by fastforce
  then have o1: "outside w1 = outside w" using outside_time_Now [of w] by simp
  show thesis
  proof (cases "lib_new_request L ?m url")
    case (Some x)
    with assms t o1 show thesis
      by (intro refused [of "''failed to create on_failure request: '' @ x"]) (auto simp: send_call_def)
  next
    case None
    obtain hs e where h: "range_headers headers (draws w1) = (hs, e)" by fastforce
    let ?req = "\<lparr>hq_Method = ?m, hq_URL = url, hq_Header = call_headers hs body,
                 hq_Body = (case body of None \<Rightarrow> [] | Some b \<Rightarrow> b)\<rparr>"
    let ?ctx = "WithTimeout ctx now (if ca_Timeout call = 0 then defaultCallTimeout else ca_Timeout call)"
    obtain result w2 where r: "n ?ctx ?req (w1\<lparr>draws := e\<rparr>) = (result, w2)" by fastforce
    have s: "send_call L n ctx call url headers body w =
       (case result of
          Inl x \<Rightarrow> (Some (errorf ErrInternal (''on_failure HTTP request failed: '' @ x)), w2)
        | Inr resp \<Rightarrow> (call_status_error call resp, w2))"
      using t None h r by (simp add: send_call_def Let_def)
    show thesis
      by (rule called [of ?req "w1\<lparr>draws := e\<rparr>" ?ctx result])
        (use s assms None h r o1 t in \<open>auto split: sum.splits\<close>)
  qed
qed

text \<open>The ways through \<open>executeCall\<close>.\<close>

lemma executeCall_cases:
  assumes "executeCall L n ctx call vars w = Some (err, vars', w')"
  obtains
    (serialize) x where "err = Some (errorf ErrInternal x)" "outside w' = outside w"
  | (skipped) "err = None" "outside w' = outside w"
  | (sent) url headers body vars1 e1 vars2 e2 e3 w1 where
      "ReplaceString L (ca_URL call) vars (draws w) = Some (url, vars1, e1)"
      "ReplaceHeaders L (ca_Headers call) vars1 e1 = Some (headers, vars2, e2)"
      "call_body L (ca_Body call) vars2 e2 = Some (Inr body, vars', e3)"
      "\<not> HasUnresolved url"
      "outside w1 = outside w"
      "send_call L n ctx call url headers body w1 = (err, w')"
proof -
  let ?w = "if 0 < ca_DelayBefore call then time_Sleep (ca_DelayBefore call) w else w"
  have w: "draws ?w = draws w" "outside ?w = outside w" by (simp_all add: time_Sleep_def)
  from assms obtain url vars1 e1 headers vars2 e2 body vars3 e3 where
    u: "ReplaceString L (ca_URL call) vars (draws w) = Some (url, vars1, e1)"
    and h: "ReplaceHeaders L (ca_Headers call) vars1 e1 = Some (headers, vars2, e2)"
    and b: "call_body L (ca_Body call) vars2 e2 = Some (body, vars3, e3)"
    by (auto simp: executeCall_def w Let_def split: Option.bind_split_asm)
  have e: "executeCall L n ctx call vars w =
     (case body of
        Inl err \<Rightarrow> Some (Some (errorf ErrInternal (''failed to serialize on_failure body: '' @ err)), vars3, ?w\<lparr>draws := e3\<rparr>)
      | Inr bodyBytes \<Rightarrow>
          (let (reason, e) = unresolvedReason url headers (case bodyBytes of None \<Rightarrow> [] | Some b \<Rightarrow> b) e3;
               w = ?w\<lparr>draws := e\<rparr>
           in if reason \<noteq> [] then Some (None, vars3, w)
              else (let (err, w) = send_call L n ctx call url headers bodyBytes w in Some (err, vars3, w))))"
    using u h b by (simp add: executeCall_def w Let_def cong: sum.case_cong)
  show thesis
  proof (cases body)
    case (Inl x)
    with e assms w show thesis
      by (intro serialize [of "''failed to serialize on_failure body: '' @ x"]) auto
  next
    case (Inr bs)
    obtain reason e4 where r: "unresolvedReason url headers (case bs of None \<Rightarrow> [] | Some b \<Rightarrow> b) e3 = (reason, e4)"
      by fastforce
    show thesis
    proof (cases "reason = []")
      case False
      with e assms Inr r w show thesis by (intro skipped) auto
    next
      case True
      have nu: "\<not> HasUnresolved url"
        using r True by (auto simp: unresolvedReason_def split: if_splits)
      obtain x w2 where s: "send_call L n ctx call url headers bs (?w\<lparr>draws := e4\<rparr>) = (x, w2)" by fastforce
      have "x = err" "vars3 = vars'" "w2 = w'" using e assms Inr r True s by (simp_all add: Let_def)
      with u h b Inr nu s show thesis
        by (intro sent [of url vars1 e1 headers vars2 e2 bs e3 "?w\<lparr>draws := e4\<rparr>"]) (simp_all add: w)
    qed
  qed
qed

lemma executeCall_error:
  assumes "executeCall L n ctx call vars w = Some (Some err, vars', w')"
  shows "echain err = [ErrInternal]"
  using assms
proof (rule executeCall_cases)
  fix url headers body w1
  assume "send_call L n ctx call url headers body w1 = (Some err, w')"
  then show ?thesis
    by (rule send_call_cases) (auto simp: errorf_def split: sum.splits dest: call_status_error_chain [OF sym])
qed (auto simp: errorf_def)

lemma notify_loop_errors:
  "notify_loop L n ctx calls vars w = Some (errs, w') \<Longrightarrow> err \<in> set errs \<Longrightarrow> echain err = [ErrInternal]"
proof (induction calls arbitrary: vars w errs)
  case (Cons call calls)
  then show ?case
    by (auto split: Option.bind_split_asm option.splits) (drule executeCall_error, assumption)
qed simp

lemma errors_Join_Is: "errors_Join errs = Some err \<Longrightarrow> errors_Is err s \<longleftrightarrow> (\<exists>x \<in> set errs. errors_Is x s)"
  by (auto simp: errors_Join_def errors_Is_def split: if_splits)

subsection \<open>Calls without placeholders\<close>

text \<open>A client that answers by the request and records it.\<close>

definition answering :: "(HttpRequest \<Rightarrow> string + HttpResponse) \<Rightarrow> HttpRequest list HTTPNotifier" where
  "answering reply ctx req w = (reply req, w\<lparr>outside := outside w @ [req]\<rparr>)"

definition literal_call :: "lib \<Rightarrow> CallAction \<Rightarrow> bool" where
  "literal_call L call \<longleftrightarrow> CHR ''{'' \<notin> set (ca_URL call) \<and> ca_Headers call = None \<and> ca_Body call = None
     \<and> lib_new_request L (if ca_Method call = [] then MethodPost else ca_Method call) (ca_URL call) = None"

definition literal_request :: "CallAction \<Rightarrow> HttpRequest" where
  "literal_request call =
     \<lparr>hq_Method = (if ca_Method call = [] then MethodPost else ca_Method call), hq_URL = ca_URL call,
      hq_Header = [], hq_Body = []\<rparr>"

definition answer_error :: "CallAction \<Rightarrow> string + HttpResponse \<Rightarrow> gerror option" where
  "answer_error call result =
     (case result of
        Inl x \<Rightarrow> Some (errorf ErrInternal (''on_failure HTTP request failed: '' @ x))
      | Inr resp \<Rightarrow> call_status_error call resp)"

lemma no_brace_resolved: "CHR ''{'' \<notin> set s \<Longrightarrow> \<not> HasUnresolved s"
  by (induction s) (auto simp: placeholderRegex_def lbraces_def HasPrefix_def)

lemma literal_call_sent:
  assumes "literal_call L call"
  shows "\<exists>w'. executeCall L (answering reply) ctx call vars w =
       Some (answer_error call (reply (literal_request call)), vars, w')
     \<and> outside w' = outside w @ [literal_request call]"
proof -
  let ?w = "if 0 < ca_DelayBefore call then time_Sleep (ca_DelayBefore call) w else w"
  let ?e = "snd (go_range vars (draws w))"
  have w: "draws ?w = draws w" "outside ?w = outside w" by (simp_all add: time_Sleep_def)
  have u: "ReplaceString L (ca_URL call) vars (draws w) = Some (ca_URL call, vars, ?e)"
    using assms by (simp add: literal_call_def ReplaceString_text)
  obtain hs e4 where r: "range_headers None ?e = (hs, e4)" by fastforce
  then have hs: "hs = []" by (simp add: range_headers_def)
  have reason: "unresolvedReason (ca_URL call) None [] ?e = ([], e4)"
    using assms r hs by (simp add: unresolvedReason_def literal_call_def no_brace_resolved)
  obtain err w' where s: "send_call L (answering reply) ctx call (ca_URL call) None None (?w\<lparr>draws := e4\<rparr>) = (err, w')"
    by fastforce
  from s have "err = answer_error call (reply (literal_request call)) \<and> outside w' = outside w @ [literal_request call]"
  proof (rule send_call_cases)
    fix reqCtx and req :: HttpRequest and w1 result
    assume "hq_Method req = (if ca_Method call = [] then MethodPost else ca_Method call)"
      "hq_URL req = ca_URL call" "hq_Body req = (case None of None \<Rightarrow> [] | Some b \<Rightarrow> b)"
      "hq_Header req = call_headers (fst (range_headers None (draws (snd (time_Now (?w\<lparr>draws := e4\<rparr>)))))) None"
    then have req: "req = literal_request call"
      by (simp add: literal_request_def range_headers_def call_headers_def set_headers_def Let_def)
    assume "outside w1 = outside (?w\<lparr>draws := e4\<rparr>)" "answering reply reqCtx req w1 = (result, w')"
      "err = (case result of
         Inl x \<Rightarrow> Some (errorf ErrInternal (''on_failure HTTP request failed: '' @ x))
       | Inr resp \<Rightarrow> call_status_error call resp)"
    with req show ?thesis
      by (auto simp: answering_def answer_error_def w)
  qed (use assms in \<open>simp_all add: literal_call_def\<close>)
  with s u reason assms show ?thesis
    by (auto simp: executeCall_def Let_def w ReplaceHeaders_def call_body_def literal_call_def
        simp del: if_split intro!: exI [of _ w'])
qed

lemma literal_calls_sent:
  assumes "list_all (literal_call L) calls"
  shows "\<exists>w'. notify_loop L (answering reply) ctx calls vars w =
       Some (List.map_filter (\<lambda>call. answer_error call (reply (literal_request call))) calls, w')
     \<and> outside w' = outside w @ map literal_request calls"
  using assms
proof (induction calls arbitrary: w)
  case Nil
  then show ?case by (simp add: map_filter_simps)
next
  case (Cons call calls)
  then obtain w1 where c: "executeCall L (answering reply) ctx call vars w =
       Some (answer_error call (reply (literal_request call)), vars, w1)"
    and o: "outside w1 = outside w @ [literal_request call]"
    using literal_call_sent [of L call reply ctx vars w] by auto
  from Cons obtain w' where
    "notify_loop L (answering reply) ctx calls vars w1 =
       Some (List.map_filter (\<lambda>call. answer_error call (reply (literal_request call))) calls, w')"
    "outside w' = outside w1 @ map literal_request calls"
    by fastforce
  with c o show ?case by (auto simp: map_filter_simps split: option.splits)
qed

subsection \<open>Values that mention placeholders\<close>

text \<open>Replacing a placeholder by a text that is a template itself.\<close>

definition expand :: "string \<Rightarrow> segment list \<Rightarrow> segment list \<Rightarrow> segment list" where
  "expand k vs segs = concat (map (\<lambda>g. if g = Hole k then vs else [g]) segs)"

lemma template_append: "template (xs @ ys) = template xs @ template ys"
  by (simp add: template_def)

lemma expand_simps [simp]:
  "expand k vs [] = []"
  "expand k vs (g # segs) = (if g = Hole k then vs else [g]) @ expand k vs segs"
  by (simp_all add: expand_def)

lemma ReplaceAll_expand:
  assumes "list_all plain segs" and "brace_free k"
  shows "ReplaceAll (template segs) (''{{'' @ k @ ''}}'') (template vs) = template (expand k vs segs)"
  using assms(1)
proof (induction segs)
  case Nil
  then show ?case by simp
next
  case (Cons g segs)
  show ?case
  proof (cases g)
    case (Text tx)
    with Cons show ?thesis using ReplaceAll_skip [of tx _ k "template vs"] by (simp add: brace_free_def)
  next
    case (Hole h)
    show ?thesis
    proof (cases "h = k")
      case True
      with Hole Cons show ?thesis
        using ReplaceAll_at [of "''{{'' @ k @ ''}}''" "template segs" "template vs"]
        by (simp add: template_append del: append.simps)
    next
      case False
      have "brace_free h" using Hole Cons.prems by simp
      from ReplaceAll_other_hole [OF this assms(2) False] Hole False Cons show ?thesis
        by (simp del: append.simps) (simp only: append.simps template_simps)
    qed
  qed
qed

lemma plain_expand: "list_all plain segs \<Longrightarrow> list_all plain vs \<Longrightarrow> list_all plain (expand k vs segs)"
  by (induction segs) auto

lemma Hole_expand: "Hole h \<in> set segs \<Longrightarrow> h \<noteq> k \<Longrightarrow> Hole h \<in> set (expand k vs segs)"
  "Hole k \<in> set segs \<Longrightarrow> set vs \<subseteq> set (expand k vs segs)"
  by (induction segs) auto

definition plain_value :: "string \<Rightarrow> bool" where
  "plain_value v \<longleftrightarrow> (\<exists>vs. list_all plain vs \<and> v = template vs)"

lemma brace_free_plain_value: "brace_free v \<Longrightarrow> plain_value v"
  unfolding plain_value_def by (rule exI [of _ "[Text v]"]) simp

text \<open>A placeholder that no variable defines survives the substitution, whatever its order, when the
  text mentions a variable whose value has it.\<close>

definition mentions :: "string \<Rightarrow> strmap \<Rightarrow> segment list \<Rightarrow> bool" where
  "mentions h ord segs \<longleftrightarrow> Hole h \<in> set segs
     \<or> (\<exists>k vs. Hole k \<in> set segs \<and> map_of ord k = Some (template vs) \<and> list_all plain vs \<and> Hole h \<in> set vs)"

text \<open>A value can be a template in more than one way; one that has the placeholder is taken where there is one.\<close>

lemma best_template:
  assumes "plain_value v"
  obtains vs where "list_all plain vs" "v = template vs"
    "\<And>vs'. list_all plain vs' \<Longrightarrow> v = template vs' \<Longrightarrow> Hole h \<in> set vs' \<Longrightarrow> Hole h \<in> set vs"
proof (cases "\<exists>vs. list_all plain vs \<and> v = template vs \<and> Hole h \<in> set vs")
  case True
  with that show thesis by blast
next
  case False
  from assms obtain vs where "list_all plain vs" "v = template vs" by (auto simp: plain_value_def)
  with False that [of vs] show thesis by blast
qed

lemma mentions_expand:
  assumes "mentions h ((k, v) # ord) segs" and "k \<noteq> h"
    and "\<And>vs'. list_all plain vs' \<Longrightarrow> v = template vs' \<Longrightarrow> Hole h \<in> set vs' \<Longrightarrow> Hole h \<in> set vs"
  shows "mentions h ord (expand k vs segs)"
  using assms(1) unfolding mentions_def
proof (elim disjE exE conjE)
  assume "Hole h \<in> set segs"
  from Hole_expand(1) [OF this assms(2) [symmetric]]
  show "Hole h \<in> set (expand k vs segs) \<or> (\<exists>k' vs'. Hole k' \<in> set (expand k vs segs) \<and> map_of ord k' = Some (template vs')
      \<and> list_all plain vs' \<and> Hole h \<in> set vs')" ..
next
  fix k' vs'
  assume m: "Hole k' \<in> set segs" "map_of ((k, v) # ord) k' = Some (template vs')" "list_all plain vs'" "Hole h \<in> set vs'"
  show "Hole h \<in> set (expand k vs segs) \<or> (\<exists>k' vs'. Hole k' \<in> set (expand k vs segs) \<and> map_of ord k' = Some (template vs')
      \<and> list_all plain vs' \<and> Hole h \<in> set vs')"
  proof (cases "k' = k")
    case True
    with m(2) assms(3) [OF m(3) _ m(4)] have "Hole h \<in> set vs" by simp
    with m(1) True Hole_expand(2) [of k segs vs] show ?thesis by auto
  next
    case False
    with m Hole_expand(1) [OF m(1) False, of vs] show ?thesis by auto
  qed
qed

lemma substitute_survives:
  assumes "list_all plain segs" and "\<forall>(k, v) \<in> set ord. brace_free k \<and> k \<noteq> h \<and> plain_value v" and "mentions h ord segs"
  shows "\<exists>segs'. substitute ord (template segs) = template segs' \<and> list_all plain segs' \<and> Hole h \<in> set segs'"
  using assms
proof (induction ord arbitrary: segs)
  case Nil
  then show ?case by (auto simp: mentions_def)
next
  case (Cons kv ord)
  obtain k v where kv: "kv = (k, v)" by fastforce
  with Cons.prems have k: "brace_free k" "k \<noteq> h" "plain_value v" by auto
  from best_template [OF k(3), of h] obtain vs where vs: "list_all plain vs" "v = template vs"
    "\<And>vs'. list_all plain vs' \<Longrightarrow> v = template vs' \<Longrightarrow> Hole h \<in> set vs' \<Longrightarrow> Hole h \<in> set vs" by blast
  have step: "substitute (kv # ord) (template segs) = substitute ord (template (expand k vs segs))"
    using ReplaceAll_expand [OF Cons.prems(1) k(1), of vs] kv vs(2)
    by (simp add: lbraces_def rbraces_def del: append.simps)
  from Cons.IH [OF plain_expand [OF Cons.prems(1) vs(1)] _ mentions_expand [OF Cons.prems(3)[unfolded kv] k(2) vs(3)]]
    Cons.prems(2) show ?case unfolding step by simp
qed

lemma ReplaceString_survives:
  assumes "list_all plain segs" and "Hole k \<in> set segs"
    and "go_wf vars" and "\<forall>(k, v) \<in> set vars. brace_free k \<and> plain_value v"
    and "map_of vars k = Some (template vs)" and "list_all plain vs" and "Hole h \<in> set vs"
    and "map_of vars h = None"
  shows "\<exists>s e'. ReplaceString L (template segs) vars e = Some (s, vars, e') \<and> HasUnresolved s"
proof -
  let ?ord = "fst (go_range vars e)"
  have ord: "go_wf ?ord" "set ?ord = set vars" "map_of ?ord = map_of vars"
    using assms(3) by (simp_all add: distinct_keys_go_range map_of_go_range)
  have "k' \<noteq> h" if "(k', v) \<in> set ?ord" for k' v
    using that assms(8) ord(2) by (auto simp: map_of_eq_None_iff image_iff)
  moreover have "mentions h ?ord segs" using assms(2,5-7) ord(3) by (auto simp: mentions_def)
  ultimately obtain segs' where s: "substitute ?ord (template segs) = template segs'"
      "list_all plain segs'" "Hole h \<in> set segs'"
    using substitute_survives [OF assms(1), of ?ord h] assms(4) ord(2) by fastforce
  have "resolveIncrements (template segs) vars = Some (template segs, vars)"
    using no_call_no_tokens [OF template_nowhere_call [OF assms(1)]]
    by (simp add: resolveIncrements_def replaceIncrements_def)
  moreover have "resolveGenerators L (template segs') e' = Some (template segs', e')" for e'
    using no_call_no_tokens [OF template_nowhere_call [OF s(2)]] by (simp add: resolveGenerators_def)
  ultimately show ?thesis
    using s HasUnresolved_template [OF s(2)] by (auto simp: ReplaceString_def split_beta)
qed

text \<open>A call whose URL keeps a placeholder is skipped, and reported as done.\<close>

lemma executeCall_unresolved:
  assumes "\<And>e. \<exists>s e'. ReplaceString L (ca_URL call) vars e = Some (s, vars, e') \<and> HasUnresolved s"
    and "ca_Headers call = None" and "ca_Body call = None"
  shows "\<exists>w'. executeCall L n ctx call vars w = Some (None, vars, w') \<and> outside w' = outside w"
proof -
  let ?w = "if 0 < ca_DelayBefore call then time_Sleep (ca_DelayBefore call) w else w"
  have w: "outside ?w = outside w" by (simp add: time_Sleep_def)
  from assms(1) [of "draws ?w"] obtain s e' where
    "ReplaceString L (ca_URL call) vars (draws ?w) = Some (s, vars, e')" "HasUnresolved s" by blast
  with assms(2,3) w show ?thesis
    by (auto simp: executeCall_def Let_def ReplaceHeaders_def call_body_def unresolvedReason_def
        simp del: if_split intro!: exI [of _ "?w\<lparr>draws := e'\<rparr>"])
qed

subsection \<open>Properties\<close>

definition alert :: "string \<Rightarrow> int \<Rightarrow> CallAction" where
  "alert url expected = \<lparr>ca_Method = [], ca_URL = url, ca_Timeout = 0, ca_DelayBefore = 0, ca_Headers = None,
     ca_Body = None, ca_ExpectedStatus = expected\<rparr>"

definition failed_result :: "string \<Rightarrow> TestResult" where
  "failed_result err = \<lparr>tr_TestID = ''t'', tr_RunID = ''r'', tr_Status = StatusError, tr_Attempts = 1,
     tr_DurationMs = 0, tr_Receivers = [], tr_Error = err, tr_StartedAt = 0, tr_FinishedAt = 0, tr_TriggerVars = []\<rparr>"

definition quiet_world :: "HttpRequest list world" where
  "quiet_world = \<lparr>draws = (\<lambda>_. 0), clock = 0, outside = []\<rparr>"

text \<open>An error of an alert call is an internal error. Success means that the
  call was skipped without touching anything, or that the client answered the rendered request, with the
  default method \<open>POST\<close>, with the expected status and below 400: so a call that expects a status of
  400 or more never succeeds once it is sent.\<close>

theorem alert_call_outcome:
  assumes "executeCall L n ctx call vars w = Some (err, vars', w')"
  shows "case err of
      Some x \<Rightarrow> \<forall>s. errors_Is x s \<longleftrightarrow> s = ErrInternal
    | None \<Rightarrow> outside w' = outside w
       \<or> (\<exists>reqCtx req w1 resp. n reqCtx req w1 = (Inr resp, w') \<and> outside w1 = outside w
            \<and> hq_Method req = (if ca_Method call = [] then MethodPost else ca_Method call)
            \<and> \<not> HasUnresolved (hq_URL req)
            \<and> hp_StatusCode resp < 400
            \<and> (ca_ExpectedStatus call \<noteq> 0 \<longrightarrow> hp_StatusCode resp = ca_ExpectedStatus call \<and> ca_ExpectedStatus call < 400))"
proof (cases err)
  case (Some x)
  with assms have "echain x = [ErrInternal]" by (auto dest: executeCall_error)
  with Some show ?thesis by (auto simp: errors_Is_def)
next
  case None
  from assms show ?thesis
  proof (rule executeCall_cases)
    fix url headers body w1
    assume nu: "\<not> HasUnresolved url" and o: "outside w1 = outside w"
      and "send_call L n ctx call url headers body w1 = (err, w')"
    from this(3) show ?thesis
    proof (rule send_call_cases)
      fix reqCtx and req :: HttpRequest and w2 result
      assume "hq_Method req = (if ca_Method call = [] then MethodPost else ca_Method call)"
        "hq_URL req = url" "outside w2 = outside w1" "n reqCtx req w2 = (result, w')"
        "err = (case result of
           Inl x \<Rightarrow> Some (errorf ErrInternal (''on_failure HTTP request failed: '' @ x))
         | Inr resp \<Rightarrow> call_status_error call resp)"
      moreover from this None obtain resp where "result = Inr resp" "call_status_error call resp = None"
        by (auto split: sum.splits)
      ultimately show ?thesis
        using None nu o by (auto simp: call_status_error_None intro!: exI [of _ reqCtx] exI [of _ req] exI [of _ w2] exI [of _ resp])
    qed (use None in simp_all)
  qed (use None in simp_all)
qed

theorem alert_call_outcome_witness:
  "\<exists>err vars' w'. executeCall example_lib (answering (\<lambda>_. Inr example_response)) None (alert ''http://x/'' 0) [] quiet_world
       = Some (err, vars', w') \<and> err = None \<and> outside w' = [literal_request (alert ''http://x/'' 0)]
     \<and> (outside w' = outside quiet_world \<or> (\<exists>reqCtx req w1 resp.
            answering (\<lambda>_. Inr example_response) reqCtx req w1 = (Inr resp, w') \<and> hp_StatusCode resp < 400))"
proof -
  have "literal_call example_lib (alert ''http://x/'' 0)"
    by (simp add: literal_call_def alert_def example_lib_def)
  from literal_call_sent [OF this, of "\<lambda>_. Inr example_response" None "[]" quiet_world] obtain w' where
    c: "executeCall example_lib (answering (\<lambda>_. Inr example_response)) None (alert ''http://x/'' 0) [] quiet_world
       = Some (None, [], w')" "outside w' = [literal_request (alert ''http://x/'' 0)]"
    by (auto simp: answer_error_def example_response_def call_status_error_def alert_def quiet_world_def)
  with alert_call_outcome [OF c(1)] show ?thesis by auto
qed



text \<open>A call whose URL mentions \<open>{{error}}\<close> is silently dropped when the error of
  the run mentions a placeholder that no variable defines, as the errors about unresolved placeholders do:
  nothing is sent and \<open>Notify\<close> reports success.\<close>

theorem alert_lost:
  assumes "of_Calls cfg = [call]" and "ca_URL call = template segs" and "list_all plain segs"
    and "Hole ''error'' \<in> set segs" and "ca_Headers call = None" and "ca_Body call = None"
    and "tr_Error result = template vs" and "list_all plain vs" and "Hole h \<in> set vs"
    and "h \<notin> {''run_id'', ''test_id'', ''error''}" and "tr_TriggerVars result = []"
    and "brace_free (tr_RunID result)" and "brace_free (tr_TestID result)"
  shows "\<exists>w'. Notify L n ctx cfg result w = Some (None, w') \<and> outside w' = outside w"
proof -
  let ?vars = "notify_vars result"
  have v: "?vars = [(''run_id'', tr_RunID result), (''test_id'', tr_TestID result), (''error'', tr_Error result)]"
    using assms(11) by (simp add: notify_vars_def)
  have "plain_value (tr_Error result)" using assms(7,8) by (auto simp: plain_value_def)
  then have pv: "\<forall>(k, v) \<in> set ?vars. brace_free k \<and> plain_value v"
    using assms(12,13) by (simp add: v brace_free_plain_value)
  have vars: "go_wf ?vars" "map_of ?vars ''error'' = Some (template vs)" "map_of ?vars h = None"
    using assms(7,10) by (simp_all add: v)
  have "\<exists>s e'. ReplaceString L (ca_URL call) ?vars e = Some (s, ?vars, e') \<and> HasUnresolved s" for e
    unfolding assms(2) by (rule ReplaceString_survives [OF assms(3,4) vars(1) pv vars(2) assms(8,9) vars(3)])
  from executeCall_unresolved [OF this assms(5,6), of n ctx w] obtain w' where
    "executeCall L n ctx call ?vars w = Some (None, ?vars, w')" "outside w' = outside w" by blast
  then show ?thesis using assms(1) by (simp add: Notify_def errors_Join_def)
qed

theorem alert_lost_witness:
  "\<exists>w'. Notify example_lib (answering (\<lambda>_. Inr example_response)) None \<lparr>of_Calls = [alert ''http://x/?e={{error}}'' 0]\<rparr>
       (failed_result ''trigger url http://y/{{token}} contains an unresolved template placeholder'') quiet_world
     = Some (None, w') \<and> outside w' = []"
proof -
  let ?cfg = "\<lparr>of_Calls = [alert ''http://x/?e={{error}}'' 0]\<rparr>"
  let ?res = "failed_result ''trigger url http://y/{{token}} contains an unresolved template placeholder''"
  have p: "list_all plain [Text ''http://x/?e='', Hole ''error'']"
    "list_all plain [Text ''trigger url http://y/'', Hole ''token'', Text '' contains an unresolved template placeholder'']"
    by (simp_all add: brace_free_def)
  have "\<exists>w'. Notify example_lib (answering (\<lambda>_. Inr example_response)) None ?cfg ?res quiet_world = Some (None, w')
     \<and> outside w' = outside quiet_world"
    by (rule alert_lost [OF _ _ p(1) _ _ _ _ p(2), where h = "''token''"
        and call = "alert ''http://x/?e={{error}}'' 0"])
      (simp_all add: alert_def failed_result_def brace_free_def)
  then show ?thesis by (simp add: quiet_world_def)
qed

end
