(* ===== verification/Service.thy ===== *)
theory Service
  imports Scheduler Imap_Receiver Webhook_Server Notifier Log_Events
begin

section \<open>The service: \<open>internal/adapters/secondary/receiver/registry.go\<close> and \<open>cmd/server/main.go\<close>\<close>

text \<open>
  The registry of the receivers, and the way \<open>main\<close> puts the components together. A \<open>Fatal\<close> log line
  ends the process: the left side of a sum, with its message and the error. What \<open>main\<close> takes from
  outside (files, environment, decoders, clients) is one record.
\<close>

subsection \<open>The receiver registry\<close>

type_synonym 'r ReceiverFactory = "ReceiverConfig \<Rightarrow> gerror + 'r"
type_synonym 'r ReceiverRegistry = "(string, 'r ReceiverFactory) gomap"

definition NewReceiverRegistry :: "'r ReceiverRegistry" where "NewReceiverRegistry = []"

definition ReceiverRegistry_Register :: "string \<Rightarrow> 'r ReceiverFactory \<Rightarrow> 'r ReceiverRegistry \<Rightarrow> 'r ReceiverRegistry" where
  "ReceiverRegistry_Register typeName factory r = AList.update typeName factory r"

definition ReceiverRegistry_Create :: "'r ReceiverRegistry \<Rightarrow> ReceiverConfig \<Rightarrow> gerror + 'r" where
  "ReceiverRegistry_Create r cfg =
     (case map_of r (rc_Type cfg) of
        Some factory \<Rightarrow> factory cfg
      | None \<Rightarrow> Inl (errorf ErrConfiguration (''unknown receiver type: '' @ Quote (rc_Type cfg))))"

subsection \<open>The receivers of the service\<close>

text \<open>The implementations of \<open>ports.Receiver\<close>, and their methods by the type of the value.\<close>

datatype ('c, 'x) AnyReceiver =
    WebhookInstance WebhookReceiver
  | ImapInstance "'c IMAPReceiver"
  | ApiInstance "'x APIPollingReceiver"

record ('c, 'x) Outer =
  ou_lib :: lib
  ou_ReadFile :: "string \<Rightarrow> string + string"
  ou_WalkDir :: "string \<Rightarrow> WalkEntry list"
  ou_getenv :: "string \<Rightarrow> string"
  ou_yaml_config :: "string \<Rightarrow> string + Config"
  ou_yaml_test :: "string \<Rightarrow> string + TestDefinition"
  ou_codec :: codec
  ou_redis :: "RedisStoreConfig \<Rightarrow> gerror + 'x Store"
  ou_postgres :: "PostgresStoreConfig \<Rightarrow> gerror + 'x Store"
  ou_memory :: "int \<Rightarrow> 'x Store"
  ou_client :: "'x HttpDo"
  ou_notify_client :: "'x HttpDo"
  ou_imap :: "('c, 'x) ImapLib"
  ou_mail :: MailLib
  ou_cron :: "string \<Rightarrow> string option"

definition main_receiver_registry ::
  "AssertionRegistry \<Rightarrow> 'x HttpDo \<Rightarrow> ('c, 'x) AnyReceiver ReceiverRegistry" where
  "main_receiver_registry reg client =
     ReceiverRegistry_Register APIReceiverType
       (\<lambda>cfg. map_sum id ApiInstance (NewAPIPollingReceiver cfg (Some reg) (Some client)))
     (ReceiverRegistry_Register ImapReceiverType
       (\<lambda>cfg. map_sum id ImapInstance (NewIMAPReceiver (rc_Options cfg)))
     (ReceiverRegistry_Register WebhookReceiverType
       (\<lambda>cfg. Inr (WebhookInstance NewWebhookReceiver))
     NewReceiverRegistry))"

text \<open>What Go's dynamic dispatch does. The API receiver shares the variables of the run.\<close>

fun any_Start :: "('c, 'x) ImapLib \<Rightarrow> ('c, 'x) AnyReceiver \<Rightarrow> ctx \<Rightarrow> string \<Rightarrow> varmap \<Rightarrow> 'x world
    \<Rightarrow> gerror option \<times> ('c, 'x) AnyReceiver \<times> 'x world" where
  "any_Start il (WebhookInstance r) ctx runID vars w =
     (let (err, r, w) = webhook_Start runID r w in (err, WebhookInstance r, w))"
| "any_Start il (ImapInstance r) ctx runID vars w =
     (let ((err, r), w) = imap_Start il runID r w in (err, ImapInstance r, w))"
| "any_Start il (ApiInstance r) ctx runID vars w = (None, ApiInstance (api_Start runID r), w)"

fun any_Collect :: "lib \<Rightarrow> 'x Store \<Rightarrow> ('c, 'x) ImapLib \<Rightarrow> MailLib \<Rightarrow> ('c, 'x) AnyReceiver \<Rightarrow> ctx \<Rightarrow> varmap \<Rightarrow> 'x world
    \<Rightarrow> ((gerror + Message) \<times> varmap \<times> 'x world) option" where
  "any_Collect L st il ml (WebhookInstance r) ctx vars w =
     map_option (\<lambda>(out, w). (out, vars, w)) (webhook_Collect st r ctx w)"
| "any_Collect L st il ml (ImapInstance r) ctx vars w =
     map_option (\<lambda>(out, w). (out, vars, w)) (imap_Collect il ml r ctx w)"
| "any_Collect L st il ml (ApiInstance r) ctx vars w = api_Collect L r ctx vars w"

fun any_Stop :: "('c, 'x) ImapLib \<Rightarrow> ('c, 'x) AnyReceiver \<Rightarrow> 'x world \<Rightarrow> gerror option \<times> 'x world" where
  "any_Stop il (WebhookInstance r) w = webhook_Stop r w"
| "any_Stop il (ImapInstance r) w = imap_Stop il r w"
| "any_Stop il (ApiInstance r) w = (None, w)"

definition main_receivers :: "('c, 'x) Outer \<Rightarrow> 'x Store \<Rightarrow> AssertionRegistry \<Rightarrow> (('c, 'x) AnyReceiver, 'x) Receivers" where
  "main_receivers ou st reg =
     \<lparr>rv_Create = ReceiverRegistry_Create (main_receiver_registry reg (ou_client ou)),
      rv_Start = any_Start (ou_imap ou),
      rv_Collect = any_Collect (ou_lib ou) st (ou_imap ou) (ou_mail ou),
      rv_Stop = any_Stop (ou_imap ou)\<rparr>"

subsection \<open>\<open>main\<close>\<close>

definition main_trigger_registry :: "lib \<Rightarrow> AssertionRegistry \<Rightarrow> 'x HttpDo \<Rightarrow> 'x Trigger TriggerRegistry" where
  "main_trigger_registry L reg client =
     TriggerRegistry_Register HTTPTriggerType
       (\<lambda>options. map_sum id (Execute L) (NewHTTPTrigger (Some reg) (Some client))) []"

definition main_store_registry :: "('c, 'x) Outer \<Rightarrow> (StoreConfig, 'x Store) StoreRegistry" where
  "main_store_registry ou =
     StoreRegistry_Register ''disabled'' (\<lambda>cfg. Inr disabled_port)
     (StoreRegistry_Register ''memory'' (\<lambda>cfg. Inr (ou_memory ou (mm_TTL (sc_Memory cfg))))
     (StoreRegistry_Register ''postgres'' (\<lambda>cfg. ou_postgres ou (sc_Postgres cfg))
     (StoreRegistry_Register ''redis'' (\<lambda>cfg. ou_redis ou (sc_Redis cfg)) [])))"

record ('c, 'x) Service =
  sv_log :: log_config
  sv_orchestrator :: "(('c, 'x) AnyReceiver, 'x) Orchestrator"
  sv_api :: ApiServer
  sv_ingestor :: "'x Store"
  sv_extractors :: "'x extractors"
  sv_scheduler :: Scheduler

text \<open>The first half: the configuration, the logger, the tests and the store.\<close>

definition main_load :: "('c, 'x) Outer \<Rightarrow>
    (string \<times> gerror) + (Config \<times> log_config \<times> (string, TestDefinition) gomap \<times> 'x Store)" where
  "main_load ou =
     (let cfgPath = (if ou_getenv ou ''CONFIG_PATH'' = [] then ''configs/config.yaml'' else ou_getenv ou ''CONFIG_PATH'') in
      case LoadConfig (ou_ReadFile ou) (ou_getenv ou) (ou_yaml_config ou) cfgPath of
        Inl err \<Rightarrow> Inl (''failed to load configuration'', err)
      | Inr cfg \<Rightarrow>
      case Configure (lg_Level (cf_Logging cfg)) (lg_Format (cf_Logging cfg)) of
        Inl err \<Rightarrow> Inl (''failed to configure logging'', err)
      | Inr lc \<Rightarrow>
      let testsPath = (if cf_TestsPath cfg = [] then ''tests'' else cf_TestsPath cfg) in
      case LoadTestDefinitions (ou_WalkDir ou) (ou_ReadFile ou) (ou_getenv ou) (ou_yaml_test ou) testsPath of
        Inl err \<Rightarrow> Inl (''failed to load test definitions'', err)
      | Inr tests \<Rightarrow>
      case StoreRegistry_Create sc_Type (main_store_registry ou) (cf_Store cfg) of
        Inl err \<Rightarrow> Inl (''failed to create store'', err)
      | Inr st \<Rightarrow> Inr (cfg, lc, tests, st))"

text \<open>The second half: the registries, the orchestrator and the servers on top of them.\<close>

definition main_assemble :: "('c, 'x) Outer \<Rightarrow> Config \<Rightarrow> log_config \<Rightarrow> (string, TestDefinition) gomap \<Rightarrow> 'x Store
    \<Rightarrow> entropy \<Rightarrow> (string \<times> gerror) + ('c, 'x) Service" where
  "main_assemble ou cfg lc tests st e =
     (let reg = NewDefaultRegistry (ou_lib ou);
          orc = \<lparr>or_lib = ou_lib ou, or_triggers = main_trigger_registry (ou_lib ou) reg (ou_client ou), or_store = st,
                 or_receivers = main_receivers ou st reg, or_assertions = reg\<rparr>;
          (err, e) = ValidateTestGroups (cf_TestGroups cfg) tests e
      in case err of
        Some err \<Rightarrow> Inl (''invalid test groups configuration'', err)
      | None \<Rightarrow>
      let apiServer = NewServer (cf_AuthEnabled cfg) (cf_JWTSecret cfg) (Some (NewGroupResolver (cf_TestGroups cfg))) tests in
      case NewIngestor (Some st) of
        Inl err \<Rightarrow> Inl (''failed to create ingestor'', err)
      | Inr ing \<Rightarrow>
      case NewWebhookServer (Some ing) of
        Inl err \<Rightarrow> Inl (''failed to create webhook server'', err)
      | Inr (ing, exts) \<Rightarrow>
      let exts = RegisterExtractor ''generic'' (generic_Extract (ou_lib ou))
                   (RegisterExtractor ''meta'' (meta_Extract (ou_lib ou))
                   (RegisterExtractor ''twilio'' (twilio_Extract (ou_lib ou)) exts));
          sched = register_all (ou_cron ou) (map snd (fst (go_range tests e))) NewScheduler
      in Inr \<lparr>sv_log = lc, sv_orchestrator = orc, sv_api = apiServer, sv_ingestor = ing, sv_extractors = exts,
              sv_scheduler = Scheduler_Start sched\<rparr>)"

definition main :: "('c, 'x) Outer \<Rightarrow> entropy \<Rightarrow> (string \<times> gerror) + ('c, 'x) Service" where
  "main ou e =
     (case main_load ou of
        Inl err \<Rightarrow> Inl err
      | Inr (cfg, lc, tests, st) \<Rightarrow> main_assemble ou cfg lc tests st e)"

lemmas main_defs = main_def main_load_def main_assemble_def

subsection \<open>Starting up\<close>

lemma main_cases:
  assumes "main ou e = Inr svc"
  obtains cfg cfgPath testsPath tests st e1 where
    "LoadConfig (ou_ReadFile ou) (ou_getenv ou) (ou_yaml_config ou) cfgPath = Inr cfg"
    "Configure (lg_Level (cf_Logging cfg)) (lg_Format (cf_Logging cfg)) = Inr (sv_log svc)"
    "LoadTestDefinitions (ou_WalkDir ou) (ou_ReadFile ou) (ou_getenv ou) (ou_yaml_test ou) testsPath = Inr tests"
    "StoreRegistry_Create sc_Type (main_store_registry ou) (cf_Store cfg) = Inr st"
    "ValidateTestGroups (cf_TestGroups cfg) tests e = (None, e1)"
    "sv_api svc = NewServer (cf_AuthEnabled cfg) (cf_JWTSecret cfg) (Some (NewGroupResolver (cf_TestGroups cfg))) tests"
    "or_store (sv_orchestrator svc) = st" "sv_ingestor svc = st"
    "or_receivers (sv_orchestrator svc) = main_receivers ou st (NewDefaultRegistry (ou_lib ou))"
    "sv_extractors svc = main_extractors (ou_lib ou)"
    "sv_scheduler svc = Scheduler_Start (register_all (ou_cron ou) (map snd (fst (go_range tests e1))) NewScheduler)"
proof -
  let ?path = "if ou_getenv ou ''CONFIG_PATH'' = [] then ''configs/config.yaml'' else ou_getenv ou ''CONFIG_PATH''"
  obtain cfg where c: "LoadConfig (ou_ReadFile ou) (ou_getenv ou) (ou_yaml_config ou) ?path = Inr cfg"
    using assms by (auto simp: main_defs Let_def split: sum.splits)
  obtain lc where l: "Configure (lg_Level (cf_Logging cfg)) (lg_Format (cf_Logging cfg)) = Inr lc"
    using loaded_config_accepted [OF c] by blast
  let ?tests = "if cf_TestsPath cfg = [] then ''tests'' else cf_TestsPath cfg"
  obtain tests where t: "LoadTestDefinitions (ou_WalkDir ou) (ou_ReadFile ou) (ou_getenv ou) (ou_yaml_test ou) ?tests = Inr tests"
    using assms c l by (auto simp: main_defs Let_def split: sum.splits)
  obtain st where s: "StoreRegistry_Create sc_Type (main_store_registry ou) (cf_Store cfg) = Inr st"
    using assms c l t by (auto simp: main_defs Let_def split: sum.splits)
  obtain err e1 where v: "ValidateTestGroups (cf_TestGroups cfg) tests e = (err, e1)" by fastforce
  have err: "err = None" using assms c l t s v by (auto simp: main_defs Let_def split: option.splits)
  show thesis
    by (rule that [OF c _ t s v[unfolded err]])
      (use assms c l t s v err in \<open>auto simp: main_defs NewIngestor_def NewWebhookServer_def main_extractors_def Let_def\<close>)
qed

lemma store_types:
  assumes "StoreRegistry_Create sc_Type (main_store_registry ou) cfg = Inr st"
  shows "sc_Type cfg \<in> {''redis'', ''postgres'', ''memory'', ''disabled''}"
  using assms
  by (auto simp: StoreRegistry_Create_def main_store_registry_def StoreRegistry_Register_def
      split: if_splits option.splits)

lemma LoadTestDefinitions_wf:
  assumes "LoadTestDefinitions WalkDir ReadFile getenv yaml dir = Inr tests"
  shows "go_wf tests"
proof -
  have "walk_loop (load_file ReadFile getenv yaml) ds ts = Inr tests' \<Longrightarrow> go_wf ts \<Longrightarrow> go_wf tests'" for ds ts tests'
  proof (induction ds arbitrary: ts)
    case (Cons d ds)
    from Cons.prems(1) obtain t1 where t: "load_file ReadFile getenv yaml d ts = Inr t1"
      "walk_loop (load_file ReadFile getenv yaml) ds t1 = Inr tests'" by (auto split: sum.splits)
    have "go_wf t1" using load_file_ok [OF t(1)] Cons.prems(2) by (auto split: if_splits)
    from Cons.IH [OF t(2) this] show ?case .
  qed simp
  with assms show ?thesis by (auto simp: LoadTestDefinitions_def split: sum.splits)
qed

text \<open>The kind of receiver for a configuration.\<close>

fun kind_of :: "('c, 'x) AnyReceiver \<Rightarrow> string" where
  "kind_of (WebhookInstance r) = ''webhook''"
| "kind_of (ImapInstance r) = ''imap''"
| "kind_of (ApiInstance r) = ''api''"

lemma main_registry_types:
  "map_of (main_receiver_registry reg client) typ =
     (if typ = ''api'' then Some (\<lambda>cfg. map_sum id ApiInstance (NewAPIPollingReceiver cfg (Some reg) (Some client)))
      else if typ = ''imap'' then Some (\<lambda>cfg. map_sum id ImapInstance (NewIMAPReceiver (rc_Options cfg)))
      else if typ = ''webhook'' then Some (\<lambda>cfg. Inr (WebhookInstance NewWebhookReceiver))
      else None)"
  by (simp add: main_receiver_registry_def ReceiverRegistry_Register_def NewReceiverRegistry_def
      APIReceiverType_def ImapReceiverType_def WebhookReceiverType_def)

lemma ReceiverRegistry_Create_main:
  "case ReceiverRegistry_Create (main_receiver_registry reg client) cfg of
     Inl err \<Rightarrow> errors_Is err s \<longleftrightarrow> s = ErrConfiguration
   | Inr inst \<Rightarrow> kind_of inst = rc_Type cfg"
proof -
  have "NewIMAPReceiver opts = Inl err \<Longrightarrow> errors_Is err s \<longleftrightarrow> s = ErrConfiguration" for opts err
    by (auto simp: NewIMAPReceiver_def Let_def split: if_splits option.splits)
  moreover have "NewAPIPollingReceiver cfg (Some reg) (Some client) = Inl err \<Longrightarrow> errors_Is err s \<longleftrightarrow> s = ErrConfiguration" for err
    by (auto simp: NewAPIPollingReceiver_def split: if_splits)
  ultimately show ?thesis
    by (cases "NewIMAPReceiver (rc_Options cfg) :: gerror + 'a IMAPReceiver";
        cases "NewAPIPollingReceiver cfg (Some reg) (Some client)")
      (auto simp: ReceiverRegistry_Create_def main_registry_types)
qed

subsection \<open>Properties\<close>

text \<open>C35 (service_is_consistent): a service that starts is consistent: every group names tests, and only tests
  that the API knows; the webhooks go to the store from which the receivers of the orchestrator claim, which
  is of one of the four types; and the scheduler is running with one entry for every known test that is
  enabled with a schedule that parses.\<close>

theorem service_is_consistent:
  assumes "main ou e = Inr svc"
  shows "\<exists>groups cfg.
       as_Resolver (sv_api svc) = Some groups
     \<and> (\<forall>name g. GroupResolver_Resolve groups name = Some g \<longrightarrow>
           tg_Tests g \<noteq> [] \<and> (\<forall>i \<in> set (tg_Tests g). map_of (as_tests (sv_api svc)) i \<noteq> None))
     \<and> or_store (sv_orchestrator svc) = sv_ingestor svc
     \<and> rv_Collect (or_receivers (sv_orchestrator svc)) =
         any_Collect (ou_lib ou) (sv_ingestor svc) (ou_imap ou) (ou_mail ou)
     \<and> sc_Type cfg \<in> {''redis'', ''postgres'', ''memory'', ''disabled''}
     \<and> StoreRegistry_Create sc_Type (main_store_registry ou) cfg = Inr (sv_ingestor svc)
     \<and> sd_running (sv_scheduler svc)
     \<and> mset (map ce_def (sd_entries (sv_scheduler svc))) =
         mset (filter (schedulable (ou_cron ou)) (map snd (as_tests (sv_api svc))))"
  using assms
proof (rule main_cases)
  fix cfg cfgPath testsPath tests st e1
  assume st: "StoreRegistry_Create sc_Type (main_store_registry ou) (cf_Store cfg) = Inr st"
    and v: "ValidateTestGroups (cf_TestGroups cfg) tests e = (None, e1)"
    and api: "sv_api svc = NewServer (cf_AuthEnabled cfg) (cf_JWTSecret cfg) (Some (NewGroupResolver (cf_TestGroups cfg))) tests"
    and o: "or_store (sv_orchestrator svc) = st" "sv_ingestor svc = st"
      "or_receivers (sv_orchestrator svc) = main_receivers ou st (NewDefaultRegistry (ou_lib ou))"
    and sch: "sv_scheduler svc = Scheduler_Start (register_all (ou_cron ou) (map snd (fst (go_range tests e1))) NewScheduler)"
  have groups: "tg_Tests g \<noteq> [] \<and> (\<forall>i \<in> set (tg_Tests g). map_of tests i \<noteq> None)"
    if "GroupResolver_Resolve (NewGroupResolver (cf_TestGroups cfg)) name = Some g" for name g
  proof -
    from that obtain gc where gc: "map_of (cf_TestGroups cfg) name = Some gc" "tg_Tests g = gc_Tests gc"
      by (auto simp: GroupResolver_Resolve_def map_of_NewGroupResolver group_of_def split: option.splits)
    have "\<forall>(name, g) \<in> set (cf_TestGroups cfg). gc_Tests g \<noteq> [] \<and> (\<forall>i \<in> set (gc_Tests g). map_of tests i \<noteq> None)"
      using v ValidateTestGroups_None [of "cf_TestGroups cfg" tests e] by simp
    with map_of_SomeD [OF gc(1)] gc(2) show ?thesis by fastforce
  qed
  let ?ord = "fst (go_range tests e1)"
  have "map ce_def (sd_entries (sv_scheduler svc)) = filter (schedulable (ou_cron ou)) (map snd ?ord)"
    by (simp add: sch Scheduler_Start_def register_all_entries NewScheduler_def comp_def)
  moreover have "mset (filter (schedulable (ou_cron ou)) (map snd ?ord)) =
      mset (filter (schedulable (ou_cron ou)) (map snd tests))"
    by (simp add: mset_go_range)
  moreover have "sd_running (sv_scheduler svc)" by (simp add: sch Scheduler_Start_def)
  ultimately show ?thesis
    using groups o store_types [OF st] st
    by (intro exI [of _ "NewGroupResolver (cf_TestGroups cfg)"] exI [of _ "cf_Store cfg"])
      (auto simp: api NewServer_def main_receivers_def)
qed

definition example_outer :: "(unit, nat) Outer" where
  "example_outer =
     \<lparr>ou_lib = example_lib, ou_ReadFile = (\<lambda>p. Inr []), ou_WalkDir = (\<lambda>_. two_files),
      ou_getenv = (\<lambda>k. if k = ''STORE_TYPE'' then ''disabled'' else []),
      ou_yaml_config = (\<lambda>_. Inr (empty_config\<lparr>cf_TestGroups := [(''ci'', ci_group)]\<rparr>)),
      ou_yaml_test = (\<lambda>_. Inr nightly),
      ou_codec = \<lparr>marshal_message = (\<lambda>_. Inl []), unmarshal_message = (\<lambda>_. Inl [])\<rparr>,
      ou_redis = (\<lambda>_. Inl (plain_error [])), ou_postgres = (\<lambda>_. Inl (plain_error [])), ou_memory = (\<lambda>_. disabled_port),
      ou_client = (\<lambda>ctx req w. (Inl [], w)), ou_notify_client = (\<lambda>ctx req w. (Inl [], w)),
      ou_imap = example_imap True, ou_mail = (\<lambda>_. Inr example_mail), ou_cron = (\<lambda>_. None)\<rparr>"

lemma example_outer_starts: "\<exists>svc. main example_outer (\<lambda>_. 0) = Inr svc \<and> as_tests (sv_api svc) = [(''t'', nightly)]"
proof -
  let ?cfg = "config_defaults (ou_getenv example_outer) (empty_config\<lparr>cf_TestGroups := [(''ci'', ci_group)]\<rparr>)"
  have r: "resolve_env g [] = []" for g by (simp add: resolve_env_def)
  have c: "LoadConfig (ou_ReadFile example_outer) (ou_getenv example_outer) (ou_yaml_config example_outer) ''configs/config.yaml'' = Inr ?cfg"
    by (simp add: LoadConfig_def example_outer_def r config_defaults_def validateLogging_def empty_config_def Let_def)
  have cfg: "sc_Type (cf_Store ?cfg) = ''disabled''" "cf_TestGroups ?cfg = [(''ci'', ci_group)]" "cf_TestsPath ?cfg = []"
    by (simp_all add: config_defaults_def example_outer_def empty_config_def Let_def)
  obtain lc where l: "Configure (lg_Level (cf_Logging ?cfg)) (lg_Format (cf_Logging ?cfg)) = Inr lc"
    using loaded_config_accepted [OF c] by blast
  have x: "filepath_Ext ''a.yaml'' = ''.yaml''" "filepath_Ext ''b.yaml'' = ''.yaml''" "filepath_Ext ''c.yml'' = ''.yml''"
    by (simp_all add: filepath_Ext_def)
  have t: "LoadTestDefinitions (ou_WalkDir example_outer) (ou_ReadFile example_outer) (ou_getenv example_outer)
      (ou_yaml_test example_outer) ''tests'' = Inr [(''t'', nightly)]"
    by (simp add: LoadTestDefinitions_def example_outer_def two_files_def load_file_def r x nightly_def example_definition_def)
  have s: "StoreRegistry_Create sc_Type (main_store_registry example_outer) (cf_Store ?cfg) = Inr disabled_port"
    by (simp add: StoreRegistry_Create_def main_store_registry_def StoreRegistry_Register_def cfg)
  have v: "fst (ValidateTestGroups (cf_TestGroups ?cfg) [(''t'', nightly)] (\<lambda>_. 0)) = None"
    unfolding ValidateTestGroups_None cfg(2) by (simp add: ci_group_def)
  have g: "ou_getenv example_outer ''CONFIG_PATH'' = []" by (simp add: example_outer_def)
  show ?thesis
    using c l t s v cfg g
    by (auto simp: main_defs NewIngestor_def NewWebhookServer_def NewServer_def Let_def split_beta split: option.splits)
qed

theorem service_is_consistent_witness:
  "\<exists>svc. main example_outer (\<lambda>_. 0) = Inr svc \<and> sd_running (sv_scheduler svc)
     \<and> map ce_def (sd_entries (sv_scheduler svc)) = [nightly]"
proof -
  obtain svc where m: "main example_outer (\<lambda>_. 0) = Inr svc" and t: "as_tests (sv_api svc) = [(''t'', nightly)]"
    using example_outer_starts by blast
  have "schedulable (ou_cron example_outer) nightly"
    by (simp add: schedulable_def example_outer_def nightly_def example_definition_def)
  moreover obtain "sd_running (sv_scheduler svc)" "mset (map ce_def (sd_entries (sv_scheduler svc))) =
      mset (filter (schedulable (ou_cron example_outer)) (map snd (as_tests (sv_api svc))))"
    using service_is_consistent [OF m] by (elim exE conjE) (rule that)
  ultimately have "sd_running (sv_scheduler svc)" "mset (map ce_def (sd_entries (sv_scheduler svc))) = {#nightly#}"
    unfolding t by simp_all
  with m show ?thesis unfolding mset_single_iff by (intro exI conjI)
qed

text \<open>The service creates the receiver that the type of a configuration names, for the
  three types it knows, and every refusal is a configuration error.\<close>

theorem receiver_kinds:
  "case rv_Create (main_receivers ou st reg) cfg of
     Inl err \<Rightarrow> \<forall>s. errors_Is err s \<longleftrightarrow> s = ErrConfiguration
   | Inr inst \<Rightarrow> kind_of inst = rc_Type cfg \<and> rc_Type cfg \<in> {''webhook'', ''imap'', ''api''}"
proof -
  have k: "kind_of inst \<in> {''webhook'', ''imap'', ''api''}" for inst :: "('a, 'b) AnyReceiver" by (cases inst) simp_all
  show ?thesis
  proof (cases "rv_Create (main_receivers ou st reg) cfg")
    case (Inl err)
    then have "errors_Is err s \<longleftrightarrow> s = ErrConfiguration" for s
      using ReceiverRegistry_Create_main [where reg = reg and client = "ou_client ou" and cfg = cfg and s = s and ?'a = 'a]
      by (simp add: main_receivers_def)
    with Inl show ?thesis by simp
  next
    case (Inr inst)
    then have "kind_of inst = rc_Type cfg"
      using ReceiverRegistry_Create_main [where reg = reg and client = "ou_client ou" and cfg = cfg and ?'a = 'a]
      by (simp add: main_receivers_def)
    with Inr k [of inst] show ?thesis by simp
  qed
qed

end
