(* ===== verification/Lifecycle.thy ===== *)
theory Lifecycle
  imports Service
begin

section \<open>The life of the service: the end of \<open>cmd/server/main.go\<close>\<close>

text \<open>
  After start-up \<open>main\<close> runs three goroutines in an error group: one serves the port, one waits for the
  context of the group to shut the server down, one to stop the scheduler. The context ends with a signal or with
  the first error of the group. When all three have returned, \<open>main\<close> logs how it went, closes the store and
  returns. The state of a goroutine is where it stands in its body; each line of theirs that others can notice is one
  step, and the steps interleave freely.

  \<open>net/http\<close>: \<open>ListenAndServe\<close> returns \<open>ErrServerClosed\<close> as soon as \<open>Shutdown\<close> was called; \<open>Shutdown\<close> returns once
  no connection is active, or with the error of its context. The requests and the runs under way are counted.
\<close>

subsection \<open>The state\<close>

datatype group_error = ErrServerClosed | DeadlineExceeded | OtherError string

datatype serving = Serving | StartReturned group_error

datatype stopping = Waiting | ShutdownCalled int | StopReturned "group_error option"

record 'x Life =
  lf_scheduler :: Scheduler
  lf_start :: serving
  lf_stop :: stopping
  lf_sched_done :: bool
  lf_ctx_done :: bool
  lf_err :: "group_error option"
  lf_requests :: nat
  lf_runs :: nat
  lf_world :: "'x world"
  lf_log :: "(int \<times> string) list"
  lf_closed :: nat
  lf_exited :: bool

definition running :: "('c, 'x) Service \<Rightarrow> 'x world \<Rightarrow> 'x Life" where
  "running svc w =
     \<lparr>lf_scheduler = sv_scheduler svc, lf_start = Serving, lf_stop = Waiting, lf_sched_done = False,
      lf_ctx_done = False, lf_err = None, lf_requests = 0, lf_runs = 0, lf_world = w,
      lf_log = [], lf_closed = 0, lf_exited = False\<rparr>"

subsection \<open>The operations\<close>

text \<open>What the group does when a goroutine returns: the first error is kept and ends the context.\<close>

definition group_return :: "group_error option \<Rightarrow> 'x Life \<Rightarrow> 'x Life" where
  "group_return r s =
     (case r of
        None \<Rightarrow> s
      | Some e \<Rightarrow> if lf_err s = None then s\<lparr>lf_err := Some e, lf_ctx_done := True\<rparr> else s)"

text \<open>\<open>Stop\<close> of the API server gives \<open>Shutdown\<close> a context of five seconds.\<close>

definition stop_timeout :: int where "stop_timeout = 5 * second"

definition api_server_Stop :: "'x Life \<Rightarrow> 'x Life" where
  "api_server_Stop s =
     (let (now, w) = time_Now (lf_world s)
      in s\<lparr>lf_stop := ShutdownCalled (now + stop_timeout), lf_world := w\<rparr>)"

definition stop_scheduler :: "'x Life \<Rightarrow> 'x Life" where
  "stop_scheduler s = s\<lparr>lf_scheduler := Scheduler_Stop (lf_scheduler s), lf_sched_done := True\<rparr>"

text \<open>The closing line after \<open>g.Wait\<close>, and the deferred closing of the store with its own line.\<close>

definition wait_line :: "group_error option \<Rightarrow> int \<times> string" where
  "wait_line err =
     (if err \<noteq> None \<and> err \<noteq> Some ErrServerClosed then (LevelError, ''service stopped with error'')
      else (LevelInfo, ''service stopped cleanly''))"

definition close_store :: "'x Store \<Rightarrow> 'x Life \<Rightarrow> 'x Life" where
  "close_store st s =
     (let (err, w) = st_Close st (lf_world s);
          line = (case err of
            Some e \<Rightarrow> (LevelWarn, ''failed to close store'')
          | None \<Rightarrow> (LevelDebug, ''store closed''))
      in s\<lparr>lf_world := w, lf_closed := Suc (lf_closed s), lf_log := lf_log s @ [line]\<rparr>)"

definition main_return :: "'x Store \<Rightarrow> 'x Life \<Rightarrow> 'x Life" where
  "main_return st s =
     (close_store st (s\<lparr>lf_log := lf_log s @ [wait_line (lf_err s)]\<rparr>))\<lparr>lf_exited := True\<rparr>"

definition all_returned :: "'x Life \<Rightarrow> bool" where
  "all_returned s \<longleftrightarrow> lf_start s \<noteq> Serving \<and> (\<exists>r. lf_stop s = StopReturned r) \<and> lf_sched_done s"

subsection \<open>The steps\<close>

text \<open>What clients, the scheduler and the operating system do.\<close>

inductive outside_step :: "'x Life \<Rightarrow> 'x Life \<Rightarrow> bool" where
  signal: "\<not> lf_exited s \<Longrightarrow> outside_step s (s\<lparr>lf_ctx_done := True\<rparr>)"
| request: "\<not> lf_exited s \<Longrightarrow> lf_start s = Serving \<Longrightarrow> lf_stop s = Waiting \<Longrightarrow> outside_step s (s\<lparr>lf_requests := Suc (lf_requests s)\<rparr>)"
| answer: "\<not> lf_exited s \<Longrightarrow> lf_requests s = Suc n \<Longrightarrow> outside_step s (s\<lparr>lf_requests := n\<rparr>)"
| run_async: "\<not> lf_exited s \<Longrightarrow> 0 < lf_requests s \<Longrightarrow> outside_step s (s\<lparr>lf_runs := Suc (lf_runs s)\<rparr>)"
| run_scheduled: "\<not> lf_exited s \<Longrightarrow> sd_running (lf_scheduler s) \<Longrightarrow> outside_step s (s\<lparr>lf_runs := Suc (lf_runs s)\<rparr>)"
| run_ends: "\<not> lf_exited s \<Longrightarrow> lf_runs s = Suc n \<Longrightarrow> outside_step s (s\<lparr>lf_runs := n\<rparr>)"
| world: "\<not> lf_exited s \<Longrightarrow> clock (lf_world s) \<le> clock w \<Longrightarrow> outside_step s (s\<lparr>lf_world := w\<rparr>)"
| listen_fails: "\<not> lf_exited s \<Longrightarrow> lf_start s = Serving \<Longrightarrow> lf_stop s = Waiting \<Longrightarrow> e \<noteq> ErrServerClosed
    \<Longrightarrow> outside_step s (group_return (Some e) (s\<lparr>lf_start := StartReturned e\<rparr>))"

text \<open>What the goroutines and \<open>main\<close> do to end the service.\<close>

inductive ending_step :: "'x Store \<Rightarrow> 'x Life \<Rightarrow> 'x Life \<Rightarrow> bool" for st where
  stop_calls: "\<not> lf_exited s \<Longrightarrow> lf_ctx_done s \<Longrightarrow> lf_stop s = Waiting \<Longrightarrow> ending_step st s (api_server_Stop s)"
| start_returns: "\<not> lf_exited s \<Longrightarrow> lf_start s = Serving \<Longrightarrow> lf_stop s \<noteq> Waiting
    \<Longrightarrow> ending_step st s (group_return (Some ErrServerClosed) (s\<lparr>lf_start := StartReturned ErrServerClosed\<rparr>))"
| stop_drained: "\<not> lf_exited s \<Longrightarrow> lf_stop s = ShutdownCalled d \<Longrightarrow> lf_requests s = 0
    \<Longrightarrow> ending_step st s (s\<lparr>lf_stop := StopReturned None\<rparr>)"
| stop_expires: "\<not> lf_exited s \<Longrightarrow> lf_stop s = ShutdownCalled d \<Longrightarrow> d \<le> clock (lf_world s) \<Longrightarrow> 0 < lf_requests s
    \<Longrightarrow> ending_step st s (group_return (Some DeadlineExceeded) (s\<lparr>lf_stop := StopReturned (Some DeadlineExceeded)\<rparr>))"
| scheduler_stops: "\<not> lf_exited s \<Longrightarrow> lf_ctx_done s \<Longrightarrow> \<not> lf_sched_done s \<Longrightarrow> ending_step st s (stop_scheduler s)"
| main_returns: "\<not> lf_exited s \<Longrightarrow> all_returned s \<Longrightarrow> ending_step st s (main_return st s)"

inductive life :: "'x Store \<Rightarrow> 'x Life \<Rightarrow> 'x Life \<Rightarrow> bool" for st s0 where
  start: "life st s0 s0"
| outside: "life st s0 s \<Longrightarrow> outside_step s s' \<Longrightarrow> life st s0 s'"
| ending: "life st s0 s \<Longrightarrow> ending_step st s s' \<Longrightarrow> life st s0 s'"

lemmas life_ops = group_return_def api_server_Stop_def stop_scheduler_def main_return_def close_store_def

subsection \<open>The invariant\<close>

text \<open>How far the service has come: the order in which its parts may have ended.\<close>

definition life_inv :: "'x Life \<Rightarrow> bool" where
  "life_inv s \<longleftrightarrow>
     (lf_stop s \<noteq> Waiting \<longrightarrow> lf_ctx_done s)
   \<and> (lf_sched_done s \<longrightarrow> lf_ctx_done s \<and> \<not> sd_running (lf_scheduler s))
   \<and> (\<forall>e. lf_start s = StartReturned e \<longrightarrow> lf_ctx_done s \<and> lf_err s \<noteq> None \<and> (e = ErrServerClosed \<longrightarrow> lf_stop s \<noteq> Waiting))
   \<and> (\<forall>e. lf_err s = Some e \<longrightarrow> lf_start s = StartReturned e \<or> lf_stop s = StopReturned (Some e))
   \<and> (\<forall>r. lf_stop s = StopReturned (Some r) \<longrightarrow> r = DeadlineExceeded \<and> lf_err s \<noteq> None)
   \<and> (if lf_exited s then all_returned s \<and> lf_closed s = 1 \<and> length (lf_log s) = 2 \<and> hd (lf_log s) = wait_line (lf_err s)
      else lf_closed s = 0 \<and> lf_log s = [])"

lemma life_inv_running: "life_inv (running svc w)"
  by (simp add: life_inv_def running_def)

lemma life_inv_outside: "outside_step s s' \<Longrightarrow> life_inv s \<Longrightarrow> life_inv s'"
  by (induction rule: outside_step.induct) (auto simp: life_inv_def life_ops split: if_splits)

lemma life_inv_ending: "ending_step st s s' \<Longrightarrow> life_inv s \<Longrightarrow> life_inv s'"
  by (induction rule: ending_step.induct)
    (auto simp: life_inv_def life_ops all_returned_def Scheduler_Stop_def split_beta Let_def split: if_splits option.splits)

lemma life_invariant: "life st s0 s \<Longrightarrow> life_inv s0 \<Longrightarrow> life_inv s"
  by (induction rule: life.induct) (auto intro: life_inv_outside life_inv_ending)

text \<open>The work that is left to end the service.\<close>

definition to_do :: "'x Life \<Rightarrow> nat" where
  "to_do s =
     (case lf_stop s of Waiting \<Rightarrow> 2 | ShutdownCalled d \<Rightarrow> 1 | StopReturned r \<Rightarrow> 0)
     + (if lf_start s = Serving then 1 else 0) + (if lf_sched_done s then 0 else 1) + (if lf_exited s then 0 else 1)"

lemma ending_to_do: "ending_step st s s' \<Longrightarrow> to_do s' < to_do s"
  by (induction rule: ending_step.induct) (simp_all add: to_do_def life_ops split_beta Let_def)

lemma outside_to_do: "outside_step s s' \<Longrightarrow> to_do s' \<le> to_do s \<and> (lf_ctx_done s \<longrightarrow> lf_ctx_done s')"
  by (induction rule: outside_step.induct) (simp_all add: to_do_def life_ops)

lemma ending_enabled:
  assumes "life_inv s" and "lf_ctx_done s" and "\<not> lf_exited s"
    and "\<And>d. lf_stop s = ShutdownCalled d \<Longrightarrow> lf_requests s = 0 \<or> d \<le> clock (lf_world s)"
  shows "\<exists>s'. ending_step st s s'"
proof (cases "lf_stop s")
  case Waiting
  with assms show ?thesis by (blast intro: stop_calls)
next
  case (ShutdownCalled d)
  with assms(3) assms(4) [of d] show ?thesis
    by (cases "lf_requests s = 0") (blast intro: stop_drained stop_expires)+
next
  case (StopReturned r)
  show ?thesis
  proof (cases "all_returned s")
    case True
    with assms(3) show ?thesis by (blast intro: main_returns)
  next
    case False
    have "lf_stop s \<noteq> Waiting" using StopReturned by simp
    moreover have "lf_start s = Serving \<or> \<not> lf_sched_done s" using False StopReturned by (simp add: all_returned_def)
    ultimately show ?thesis using assms(2,3) by (blast intro: start_returns scheduler_stops)
  qed
qed

text \<open>The way to the end without any request.\<close>

lemma graceful_end: "\<exists>s. life st (running svc w) s \<and> lf_exited s \<and> lf_stop s = StopReturned None"
proof -
  let ?s0 = "running svc w"
  let ?s1 = "?s0\<lparr>lf_ctx_done := True\<rparr>"
  let ?s2 = "api_server_Stop ?s1"
  obtain d where d: "lf_stop ?s2 = ShutdownCalled d" by (simp add: api_server_Stop_def split_beta Let_def)
  have f: "lf_start ?s2 = Serving" "lf_ctx_done ?s2" "\<not> lf_exited ?s2" "\<not> lf_sched_done ?s2" "lf_requests ?s2 = 0"
    by (simp_all add: api_server_Stop_def running_def split_beta Let_def)
  let ?s3 = "group_return (Some ErrServerClosed) (?s2\<lparr>lf_start := StartReturned ErrServerClosed\<rparr>)"
  let ?s4 = "?s3\<lparr>lf_stop := StopReturned None\<rparr>"
  have "life st ?s0 ?s1" using outside [OF start signal, of ?s0 st] by (simp add: running_def)
  then have "life st ?s0 ?s2" using ending [OF _ stop_calls, of st ?s0 ?s1] by (simp add: running_def)
  then have "life st ?s0 ?s3" by (rule ending [OF _ start_returns]) (simp_all add: f d)
  then have "life st ?s0 ?s4" by (rule ending [OF _ stop_drained [where d = d]]) (simp_all add: f d group_return_def)
  then have "life st ?s0 (stop_scheduler ?s4)" by (rule ending [OF _ scheduler_stops]) (simp_all add: f group_return_def)
  then have "life st ?s0 (main_return st (stop_scheduler ?s4))"
    by (rule ending [OF _ main_returns]) (simp_all add: f all_returned_def stop_scheduler_def group_return_def)
  moreover have "lf_exited (main_return st (stop_scheduler ?s4)) \<and> lf_stop (main_return st (stop_scheduler ?s4)) = StopReturned None"
    by (simp add: main_return_def close_store_def stop_scheduler_def split_beta Let_def)
  ultimately show ?thesis by blast
qed

subsection \<open>Properties\<close>

text \<open>C36 (orderly_end): when the process has ended, the port was shut down and the scheduler stopped before, so that
  no test fires any more; the store was closed exactly once, after both; nothing happens afterwards; and the closing line
  reports an error exactly when the first error of the group was not that of a closed server.\<close>

theorem orderly_end:
  assumes "life st (running svc w) s" and "lf_exited s"
  shows "lf_start s \<noteq> Serving \<and> (\<exists>r. lf_stop s = StopReturned r)
     \<and> \<not> fires orc (lf_scheduler s) w1 result nt w2
     \<and> lf_closed s = 1
     \<and> (\<forall>s'. \<not> outside_step s s' \<and> \<not> ending_step st s s')
     \<and> (\<exists>line. lf_log s = [if lf_err s \<in> {None, Some ErrServerClosed} then (LevelInfo, ''service stopped cleanly'')
            else (LevelError, ''service stopped with error''), line])"
proof -
  have inv: "life_inv s" using life_invariant [OF assms(1) life_inv_running] .
  then have log: "length (lf_log s) = 2" "hd (lf_log s) = wait_line (lf_err s)"
    and all: "all_returned s" "lf_closed s = 1" "\<not> sd_running (lf_scheduler s)"
    using assms(2) by (auto simp: life_inv_def all_returned_def)
  from log obtain line where "lf_log s = [wait_line (lf_err s), line]"
    by (auto simp: length_Suc_conv numeral_2_eq_2)
  then have "\<exists>line. lf_log s = [if lf_err s \<in> {None, Some ErrServerClosed} then (LevelInfo, ''service stopped cleanly'')
            else (LevelError, ''service stopped with error''), line]" by (auto simp: wait_line_def)
  moreover have "\<not> outside_step s s' \<and> \<not> ending_step st s s'" for s'
    using assms(2) by (auto elim: outside_step.cases ending_step.cases)
  moreover have "\<not> fires orc (lf_scheduler s) w1 result nt w2" using all(3) by (auto elim: firesE)
  ultimately show ?thesis using all by (auto simp: all_returned_def)
qed

theorem orderly_end_witness:
  "\<exists>svc s. main example_outer (\<lambda>_. 0) = Inr svc
     \<and> life disabled_port (running svc \<lparr>draws = \<lambda>_. 0, clock = 0, outside = 0\<rparr>) s \<and> lf_closed s = 1"
proof -
  obtain svc where m: "main example_outer (\<lambda>_. 0) = Inr svc" using example_outer_starts by blast
  obtain s where "life disabled_port (running svc \<lparr>draws = \<lambda>_. 0, clock = 0, outside = 0 :: nat\<rparr>) s" "lf_exited s"
    using graceful_end by blast
  with orderly_end [OF this] m show ?thesis by blast
qed

text \<open>C37 (shutdown_completes): once a signal or an error has ended the context, the service comes to its end. At most
  five steps of its own are left, each brings it nearer and no one else can add to them; one of them is always possible but
  while requests are still under way within the five seconds that the shutdown gives them.\<close>

theorem shutdown_completes:
  assumes "life st (running svc w) s" and "lf_ctx_done s"
  shows "to_do s \<le> 5
     \<and> (\<forall>s'. ending_step st s s' \<longrightarrow> to_do s' < to_do s)
     \<and> (\<forall>s'. outside_step s s' \<longrightarrow> to_do s' \<le> to_do s \<and> lf_ctx_done s')
     \<and> (to_do s = 0 \<longrightarrow> lf_exited s)
     \<and> (lf_exited s \<or> (\<exists>s'. ending_step st s s')
         \<or> (\<exists>d. lf_stop s = ShutdownCalled d \<and> 0 < lf_requests s \<and> clock (lf_world s) < d))"
proof -
  have inv: "life_inv s" using life_invariant [OF assms(1) life_inv_running] .
  have "lf_exited s \<or> (\<exists>s'. ending_step st s s')
         \<or> (\<exists>d. lf_stop s = ShutdownCalled d \<and> 0 < lf_requests s \<and> clock (lf_world s) < d)"
    using ending_enabled [OF inv assms(2), of st] by (metis gr0I not_le_imp_less)
  then show ?thesis
    using ending_to_do [of st s] outside_to_do [of s] assms(2) by (auto simp: to_do_def split: stopping.splits)
qed

theorem shutdown_completes_witness:
  "\<exists>svc s. main example_outer (\<lambda>_. 0) = Inr svc
     \<and> life disabled_port (running svc \<lparr>draws = \<lambda>_. 0, clock = 0, outside = 0\<rparr>) s
     \<and> (\<exists>s'. ending_step disabled_port s s')"
proof -
  obtain svc where m: "main example_outer (\<lambda>_. 0) = Inr svc" using example_outer_starts by blast
  let ?s0 = "running svc \<lparr>draws = \<lambda>_. 0, clock = 0, outside = 0 :: nat\<rparr>"
  have l: "life disabled_port ?s0 (?s0\<lparr>lf_ctx_done := True\<rparr>)"
    using outside [OF start signal, of ?s0 disabled_port] by (simp add: running_def)
  have c: "lf_ctx_done (?s0\<lparr>lf_ctx_done := True\<rparr>)" by simp
  have "\<not> lf_exited (?s0\<lparr>lf_ctx_done := True\<rparr>)" "lf_stop (?s0\<lparr>lf_ctx_done := True\<rparr>) = Waiting"
    by (simp_all add: running_def)
  with shutdown_completes [OF l c] have "\<exists>s'. ending_step disabled_port (?s0\<lparr>lf_ctx_done := True\<rparr>) s'" by simp
  with m l show ?thesis by blast
qed

text \<open>Whatever the service, there is a way to its end in which a request was cut off after the
  five seconds and a run was still under way, and which is reported as clean: the port gives \<open>ErrServerClosed\<close> as soon as
  the shutdown begins, and the error of a shutdown that did not finish comes too late to be the first; and nobody waits
  for runs in the background before the store is closed.\<close>

theorem interrupted_work_ends_cleanly:
  "\<exists>s. life st (running svc w) s \<and> lf_exited s \<and> 0 < lf_requests s \<and> 0 < lf_runs s
     \<and> lf_stop s = StopReturned (Some DeadlineExceeded)
     \<and> hd (lf_log s) = (LevelInfo, ''service stopped cleanly'')"
proof -
  let ?s0 = "running svc w"
  let ?s1 = "?s0\<lparr>lf_requests := Suc 0\<rparr>"
  let ?s2 = "?s1\<lparr>lf_runs := Suc 0\<rparr>"
  let ?s3 = "?s2\<lparr>lf_ctx_done := True\<rparr>"
  let ?s4 = "api_server_Stop ?s3"
  obtain d where d: "lf_stop ?s4 = ShutdownCalled d" by (simp add: api_server_Stop_def split_beta Let_def)
  let ?s5 = "?s4\<lparr>lf_start := StartReturned ErrServerClosed, lf_err := Some ErrServerClosed\<rparr>"
  let ?s6 = "?s5\<lparr>lf_world := (lf_world ?s4)\<lparr>clock := max d (clock (lf_world ?s4))\<rparr>\<rparr>"
  let ?s7 = "?s6\<lparr>lf_stop := StopReturned (Some DeadlineExceeded)\<rparr>"
  let ?s8 = "stop_scheduler ?s7"
  let ?s9 = "main_return st ?s8"
  have f: "lf_start ?s4 = Serving" "lf_err ?s4 = None" "lf_ctx_done ?s4" "\<not> lf_exited ?s4" "\<not> lf_sched_done ?s4"
    "lf_requests ?s4 = Suc 0" "lf_runs ?s4 = Suc 0" "lf_log ?s4 = []"
    by (simp_all add: api_server_Stop_def running_def split_beta Let_def)
  have "life st ?s0 ?s1" using outside [OF start request, of ?s0 st] by (simp add: running_def)
  then have "life st ?s0 ?s2" using outside [OF _ run_async, of st ?s0 ?s1] by (simp add: running_def)
  then have "life st ?s0 ?s3" using outside [OF _ signal, of st ?s0 ?s2] by (simp add: running_def)
  then have "life st ?s0 ?s4" using ending [OF _ stop_calls, of st ?s0 ?s3] by (simp add: running_def)
  then have "life st ?s0 (group_return (Some ErrServerClosed) (?s4\<lparr>lf_start := StartReturned ErrServerClosed\<rparr>))"
    by (rule ending [OF _ start_returns]) (simp_all add: f d)
  moreover have "group_return (Some ErrServerClosed) (?s4\<lparr>lf_start := StartReturned ErrServerClosed\<rparr>) = ?s5"
    using f(3) by (simp add: group_return_def f)
  ultimately have "life st ?s0 ?s5" by simp
  then have "life st ?s0 ?s6" by (rule outside [OF _ world]) (simp_all add: f)
  then have "life st ?s0 (group_return (Some DeadlineExceeded) ?s7)"
    by (rule ending [OF _ stop_expires [where d = d]]) (simp_all add: f d)
  then have "life st ?s0 ?s7" by (simp add: group_return_def)
  then have "life st ?s0 ?s8" by (rule ending [OF _ scheduler_stops]) (simp_all add: f)
  then have "life st ?s0 ?s9"
    by (rule ending [OF _ main_returns]) (simp_all add: f all_returned_def stop_scheduler_def)
  moreover have "lf_exited ?s9 \<and> 0 < lf_requests ?s9 \<and> 0 < lf_runs ?s9 \<and> lf_stop ?s9 = StopReturned (Some DeadlineExceeded)
     \<and> hd (lf_log ?s9) = (LevelInfo, ''service stopped cleanly'')"
    by (simp add: main_return_def close_store_def stop_scheduler_def wait_line_def f split_beta Let_def)
  ultimately show ?thesis by blast
qed

end
