(* ===== verification/End_To_End.thy ===== *)
theory End_To_End
  imports Service "HOL-Library.Countable"
begin

section \<open>A test from its trigger to its result\<close>

text \<open>
  The components in a row: \<open>main\<close> starts a service on the memory store, the API gets a request to run a test, the
  orchestrator fires the trigger, the system under test calls the webhook endpoint back with the id of the
  run, the ingestor stores the message, the webhook receiver claims it, the assertions are checked on
  it, and the result is in the cache of the API. Nothing between the two requests from outside is a
  parameter; the HTTP client is the system under test.
\<close>

subsection \<open>Time\<close>

text \<open>All readings of the clock that the stream decides are less than a second apart, now and after any of the
  draws of an operation.\<close>

definition calm :: "entropy \<Rightarrow> bool" where "calm e \<longleftrightarrow> (\<forall>n. int (e n) < second)"

lemma quick_calm: "quick w \<longleftrightarrow> calm (draws w)"
  by (simp add: quick_def calm_def)

lemma quick_outside [simp]: "quick (w\<lparr>outside := x\<rparr>) = quick w"
  by (simp add: quick_def)

lemma calm_go_range: "calm e \<Longrightarrow> calm (snd (go_range xs e))"
proof (induction xs e rule: go_range.induct)
  case (2 x xs e)
  have "calm (\<lambda>n. e (Suc n))" using "2.prems" by (simp add: calm_def)
  with "2.IH" [OF refl] show ?case by (simp add: go_range.simps(2) [of x xs e] split_beta Let_def)
qed simp

lemma calm_flatten:
  "calm e \<Longrightarrow> calm (snd (flattenMap L pre m e))"
  "calm e \<Longrightarrow> calm (snd (flattenEntries L pre kvs result e))"
  "calm e \<Longrightarrow> calm (snd (flattenElems L key i elems result e))"
proof (induction L pre m e and L pre kvs result e and L key i elems result e rule: flattenMap_flattenEntries_flattenElems.induct)
  case (1 L pre m e)
  then show ?case using calm_go_range [of e m] by simp
next
  case (2 L pre result e)
  then show ?case by simp
next
  case (3 L pre k v kvs result e)
  let ?key = "if pre \<noteq> [] then pre @ ''.'' @ ToLower k else ToLower k"
  show ?case
  proof (cases v)
    case (VMap val)
    from 3(7) [OF refl VMap refl prod.collapse 3(6) [OF refl VMap 3(11)]]
    show ?thesis by (simp add: VMap Let_def split_beta)
  next
    case (VList val)
    from 3(10) [OF refl VList refl prod.collapse 3(9) [OF refl VList 3(11)]]
    show ?thesis by (simp add: VList Let_def split_beta)
  qed (use 3 in \<open>simp_all add: Let_def\<close>)
next
  case (4 L key i result e)
  then show ?case by simp
next
  case (5 L key i elem elems result e)
  show ?case
  proof (cases elem)
    case (VMap ev)
    from 5(7) [OF refl VMap refl prod.collapse 5(6) [OF refl VMap 5(10)]]
    show ?thesis by (simp add: VMap Let_def split_beta)
  qed (use 5 in \<open>simp_all add: Let_def\<close>)
qed

lemma calm_generic_body: "calm e \<Longrightarrow> calm (snd (generic_body L req e))"
  by (auto simp: generic_body_def ExtractFields_def extractJSON_def extractForm_def calm_go_range calm_flatten split_beta Let_def
      split: sum.splits option.splits)

lemma calm_generic_fields: "calm e \<Longrightarrow> calm (snd (generic_fields req flds e))"
  by (simp add: generic_fields_def calm_go_range split_beta Let_def)

text \<open>An operation that takes at most \<open>n\<close> seconds.\<close>

definition within :: "nat \<Rightarrow> 'x world \<Rightarrow> 'y world \<Rightarrow> bool" where
  "within n w w' \<longleftrightarrow> quick w' \<and> clock w \<le> clock w' \<and> clock w' \<le> clock w + int n * second"

lemma within_refl: "quick w \<Longrightarrow> within n w w"
  by (simp add: within_def second_def)

lemma within_trans: "within n w1 w2 \<Longrightarrow> within m w2 w3 \<Longrightarrow> within (n + m) w1 w3"
  by (auto simp: within_def algebra_simps)

lemma within_more: "within n w w' \<Longrightarrow> n \<le> m \<Longrightarrow> within m w w'"
  by (auto simp: within_def second_def)

lemma within_now: "quick w \<Longrightarrow> within 1 w (snd (time_Now w))"
  using quick_time_Now [of w] clock_time_Now(2) [of w] by (simp add: within_def)

lemma within_draws: "calm e \<Longrightarrow> within n w (w\<lparr>draws := e\<rparr>)"
  by (simp add: within_def quick_calm second_def)

subsection \<open>The system under test\<close>

text \<open>It answers every request with 200, after it has called the webhook endpoint; \<open>callback\<close> says with which
  request.\<close>

definition calling_back :: "'x extractors \<Rightarrow> 'x Store \<Rightarrow> (string \<Rightarrow> WebhookRequest) \<Rightarrow> 'x HttpDo" where
  "calling_back exts ingestor callback ctx req w =
     (let (reply, w) = handleWebhook exts ingestor (callback (hq_URL req)) w
      in (Inr \<lparr>hp_StatusCode = 200, hp_Header = [], hp_Body = [], hp_ReadError = None\<rparr>, w))"

text \<open>A request that the generic provider reads, with the id of the run in its query.\<close>

definition reports :: "lib \<Rightarrow> string \<Rightarrow> WebhookRequest \<Rightarrow> bool" where
  "reports L runID req \<longleftrightarrow>
     provider_of req = ''generic'' \<and> values_Get (url_Query req) ''run_id'' = runID
     \<and> (\<forall>e. \<exists>body. fst (generic_body L req e) = Inr body)"

text \<open>Messages survive the codec of the store.\<close>

definition faithful :: "codec \<Rightarrow> bool" where
  "faithful cod \<longleftrightarrow> (\<forall>m. \<exists>data. marshal_message cod m = Inr data \<and> unmarshal_message cod data = Inr m)"

text \<open>The id of a run as the orchestrator makes it can be rendered, and the ingestor accepts it.\<close>

definition run_id_ok :: "string \<Rightarrow> bool" where
  "run_id_ok runID \<longleftrightarrow> brace_free runID \<and> TrimSpace runID \<noteq> [] \<and> runID \<noteq> ''unknown''"

lemma run_id_of_test:
  assumes "brace_free tid" and "tid = [] \<or> is_graph (hd tid)"
  shows "run_id_ok (tid @ ''-'' @ FormatInt now)"
proof -
  let ?r = "tid @ ''-'' @ FormatInt now"
  have "brace_free (FormatInt now)"
    using FormatInt_only_digits [of "CHR ''{''" now] FormatInt_only_digits [of "CHR ''}''" now]
    by (simp add: brace_free_def is_digit_def)
  with assms(1) have "brace_free ?r" by (simp add: brace_free_def)
  moreover have "is_graph (hd ?r)" using assms(2) by (cases tid) (auto simp: is_graph_def)
  moreover have "is_graph (last ?r)"
    by (simp add: FormatInt_def nat_digits_last is_digit_graph)
  ultimately have "TrimSpace ?r = ?r" by (intro TrimSpace_graph) simp_all
  moreover have "?r \<noteq> ''unknown''"
  proof
    assume u: "?r = ''unknown''"
    have "CHR ''-'' \<in> set ?r" by simp
    then show False unfolding u by simp
  qed
  ultimately show ?thesis using \<open>brace_free ?r\<close> by (simp add: run_id_ok_def)
qed

text \<open>The endpoint takes the message of such a request: from then on it can be claimed for the run.\<close>

lemma report_stored:
  fixes w :: "MemoryStore world"
  assumes "reports L runID req" and "run_id_ok runID" and "faithful cod" and "quick w"
  obtains m w1 w' where "generic_Extract L req w = (Inr m, w1)" "m_RunID m = runID"
    "handleWebhook (main_extractors L) (memory_port cod id (\<lambda>s _. s)) req w = (NoContent, w')" "within 3 w w'"
    "\<And>now. now \<le> clock w + ms_ttl (outside w) \<Longrightarrow>
       \<exists>at. mem_Claim cod runID WebhookReceiverType now (outside w') = Inr (Some (m\<lparr>m_ReceivedAt := at\<rparr>))"
proof -
  let ?ing = "memory_port cod id (\<lambda>s _. s)"
  from assms(1) obtain flds raw e1 where b: "generic_body L req (draws w) = (Inr (flds, raw), e1)"
    by (metis reports_def prod.collapse)
  obtain flds2 e2 where f: "generic_fields req flds e1 = (flds2, e2)" by fastforce
  have calm2: "calm e2"
    using calm_generic_fields [of e1 req flds] calm_generic_body [of "draws w" L req] b f assms(4) by (simp add: quick_calm)
  have id: "generic_run_id req flds2 = runID"
    using assms(1,2) by (auto simp: reports_def generic_run_id_def run_id_ok_def Let_def)
  obtain m w1 where m: "provider_message req runID flds2 raw (w\<lparr>draws := e2\<rparr>) = (m, w1)" by fastforce
  then have x: "generic_Extract L req w = (Inr m, w1)" using b f id by (simp add: generic_Extract_def)
  have mp: "m_RunID m = runID" "m_ReceiverType m = WebhookReceiverType" "outside w1 = outside w" "w1 = snd (time_Now (w\<lparr>draws := e2\<rparr>))"
    using m by (auto simp: provider_message_def split_beta Let_def)
  have q1: "within 1 w w1" using within_trans [OF within_draws [OF calm2, of 0 w] within_now] calm2 mp(4) by (simp add: quick_calm)
  obtain m2 w2 where m2: "(if IsZero (m_ReceivedAt m) then let (now, w) = time_Now w1 in (m\<lparr>m_ReceivedAt := now\<rparr>, w) else (m, w1)) = (m2, w2)"
    by fastforce
  have q2: "within 1 w1 w2" "outside w2 = outside w" "m2 = m\<lparr>m_ReceivedAt := m_ReceivedAt m2\<rparr>"
    using m2 within_now [of w1] within_refl [of w1 1] q1 mp(3) outside_time_Now [of w1]
    by (auto simp: within_def split_beta Let_def split: if_splits)
  obtain data where d: "marshal_message cod m2 = Inr data" "unmarshal_message cod data = Inr m2"
    using assms(3) by (auto simp: faithful_def)
  let ?w3 = "snd (st_Deposit ?ing m2 w2)"
  have dep: "fst (st_Deposit ?ing m2 w2) = None"
    using d by (simp add: memory_port_def mem_Deposit_def split_beta Let_def)
  have q3: "within 1 w2 ?w3"
    using within_now [of w2] q2(1) by (simp add: memory_port_def within_def split_beta Let_def)
  have ok: "TrimSpace (m_RunID m) \<noteq> []" "m_RunID m \<noteq> ''unknown''" using mp(1) assms(2) by (simp_all add: run_id_ok_def)
  have ing: "Ingest ?ing (Some m) w1 = (None, ?w3)"
    using ok m2 dep by (simp add: Ingest_def prod_eq_iff split_beta)
  have h: "handleWebhook (main_extractors L) ?ing req w = (NoContent, ?w3)"
    using assms(1) x ing by (simp add: handleWebhook_def reports_def main_extractors_lookup)
  have "\<exists>at. mem_Claim cod runID WebhookReceiverType now (outside ?w3) = Inr (Some (m\<lparr>m_ReceivedAt := at\<rparr>))"
    if now: "now \<le> clock w + ms_ttl (outside w)" for now
  proof -
    have "clock w \<le> clock w1" using q1 by (simp add: within_def)
    with now have now1: "now \<le> clock w1 + ms_ttl (outside w1)" by (simp add: mp(3))
    have cod: "\<forall>a data. marshal_message cod (m\<lparr>m_ReceivedAt := a\<rparr>) = Inr data \<longrightarrow> unmarshal_message cod data = Inr (m\<lparr>m_ReceivedAt := a\<rparr>)"
      using assms(3) by (metis faithful_def sum.inject(2))
    from Ingest_memory [OF ing cod] now1 mp show ?thesis by metis
  qed
  moreover have "within 3 w ?w3" using within_trans [OF within_trans [OF q1 q2(1)] q3] by (simp add: eval_nat_numeral)
  ultimately show thesis using x mp(1) h that by blast
qed

subsection \<open>The test\<close>

text \<open>A test with one step that waits for one webhook: its trigger calls a URL that ends in the id of the run.\<close>

definition round_trip_step :: "string \<Rightarrow> ReceiverConfig \<Rightarrow> TriggerConfig \<Rightarrow> bool" where
  "round_trip_step base rcfg step \<longleftrightarrow>
     EffectiveType step = HTTPTriggerType \<and> tc_URL step = base @ ''{{run_id}}'' \<and> brace_free base
     \<and> tc_Headers step = None \<and> tc_Body step = None \<and> tc_Extract step = [] \<and> tc_ResponseAssertions step = []
     \<and> tc_ExpectedStatus step \<in> {0, 200} \<and> tc_WaitForReceivers step \<and> tc_Receivers step = [rcfg]
     \<and> rc_Type rcfg = WebhookReceiverType \<and> rc_Recipient rcfg = [] \<and> list_all no_braces (rc_Assertions rcfg)
     \<and> (rc_Timeout rcfg \<le> 0 \<or> second < rc_Timeout rcfg)"

definition round_trip :: "string \<Rightarrow> ReceiverConfig \<Rightarrow> TestDefinition \<Rightarrow> bool" where
  "round_trip base rcfg def \<longleftrightarrow>
     td_Enabled def \<and> \<not> td_Async def \<and> \<not> rt_Enabled (td_Retry def) \<and> td_Variables def = []
     \<and> brace_free (td_ID def) \<and> (td_ID def = [] \<or> is_graph (hd (td_ID def)))
     \<and> (case td_Triggers def of [step] \<Rightarrow> round_trip_step base rcfg step | _ \<Rightarrow> False)"

lemma main_orchestrator:
  assumes "main ou e = Inr svc"
  shows "sv_orchestrator svc =
     \<lparr>or_lib = ou_lib ou,
      or_triggers = main_trigger_registry (ou_lib ou) (NewDefaultRegistry (ou_lib ou)) (ou_client ou),
      or_store = sv_ingestor svc,
      or_receivers = main_receivers ou (sv_ingestor svc) (NewDefaultRegistry (ou_lib ou)),
      or_assertions = NewDefaultRegistry (ou_lib ou)\<rparr>"
  using assms
  by (auto simp: main_def main_assemble_def NewIngestor_def NewWebhookServer_def Let_def split_beta
      split: sum.splits option.splits prod.splits)

subsection \<open>The trigger\<close>

lemma rendered_url:
  assumes "brace_free base" and "brace_free runID"
  shows "ReplaceString L (base @ ''{{run_id}}'') [(''run_id'', runID)] e = Some (base @ runID, [(''run_id'', runID)], \<lambda>n. e (Suc n))"
    and "\<not> HasUnresolved (base @ runID)"
proof -
  have p: "list_all plain [Text base, Hole ''run_id'']" "plain_vars [(''run_id'', runID)]"
    using assms by (simp_all add: plain_vars_def)
  from ReplaceString_render [OF p, of L e]
  show "ReplaceString L (base @ ''{{run_id}}'') [(''run_id'', runID)] e = Some (base @ runID, [(''run_id'', runID)], \<lambda>n. e (Suc n))"
    by simp
  have "list_all plain [Text (base @ runID)]" using assms by (simp add: brace_free_def)
  from HasUnresolved_template [OF this] show "\<not> HasUnresolved (base @ runID)" by simp
qed

lemma trigger_fires:
  assumes "round_trip_step base rcfg step" and "brace_free runID"
    and "lib_new_request L (if tc_Method step = [] then MethodGet else tc_Method step) (base @ runID) = None"
    and "quick w"
  obtains w1 where "within 1 w w1" "outside w1 = outside w"
    "\<And>reply w2. handleWebhook exts ing (callback (base @ runID)) w1 = (reply, w2) \<Longrightarrow>
       Execute L \<lparr>ht_client = calling_back exts ing callback, ht_assertions = reg\<rparr> None step runID [(''run_id'', runID)] w
         = Some (Inr [], [(''run_id'', runID)], w2)"
proof -
  let ?vars = "[(''run_id'', runID)]" and ?e = "\<lambda>n. draws w (Suc n)"
  let ?w = "w\<lparr>draws := ?e\<rparr>"
  have calm: "calm ?e" using assms(4) by (simp add: quick_def calm_def)
  have nu: "\<not> HasUnresolved []" using HasUnresolved_template [of "[]"] by simp
  obtain ctx w1 where c: "(if 0 < tc_Timeout step
      then let (now, w) = time_Now ?w in (WithTimeout None now (tc_Timeout step), w) else (None, ?w)) = (ctx, w1)"
    by (metis surj_pair)
  have near: "within 1 w w1" "outside w1 = outside w"
    using c within_trans [OF within_draws [OF calm, of 0 w] within_now [of ?w]] within_draws [OF calm, of 1 w] calm
    by (auto simp: quick_calm split_beta Let_def split: if_splits)
  have "Execute L \<lparr>ht_client = calling_back exts ing callback, ht_assertions = reg\<rparr> None step runID ?vars w
         = Some (Inr [], ?vars, w2)" if h: "handleWebhook exts ing (callback (base @ runID)) w1 = (reply, w2)" for reply w2
  proof -
    have send: "send L \<lparr>ht_client = calling_back exts ing callback, ht_assertions = reg\<rparr> None step (base @ runID) None [] ?vars ?w
        = Some (Inr [], ?vars, w2)"
      using assms(1,3) c h
      by (auto simp: send_def range_headers_def calling_back_def status_error_def evaluate_response_def round_trip_step_def Let_def
          split: if_splits)
    have upd: "AList.update ''run_id'' runID ?vars = ?vars" by simp
    show ?thesis
      using send rendered_url [OF _ assms(2), of base] nu assms(1)
      by (simp add: Execute_def upd round_trip_step_def ReplaceHeaders_def bodyText_def unresolvedTriggerReason_def
          range_headers_def unresolved_header_def)
  qed
  with near that show thesis by blast
qed

subsection \<open>The receiver\<close>

lemma assert_loop_checks:
  assumes "list_all no_braces acfgs"
  shows "\<exists>status tx e'. assert_loop L r acfgs msg vars e = Some ((status, tx), vars, e')
     \<and> status \<in> {StatusPassed, StatusFailed, StatusError}
     \<and> (status = StatusPassed \<longleftrightarrow> (\<forall>cfg \<in> set acfgs. check L r cfg msg = None))"
  using assms
proof (induction acfgs arbitrary: e)
  case (Cons cfg acfgs)
  then have nb: "CHR ''{'' \<notin> set (ac_Field cfg)" "CHR ''{'' \<notin> set (ac_Value cfg)" by (simp_all add: no_braces_def)
  show ?case
  proof (cases "check L r cfg msg")
    case None
    then obtain a where a: "Create r cfg = Inr a" "Assert L a msg = None" by (auto simp: check_def split: sum.splits)
    let ?e = "snd (go_range vars (snd (go_range vars e)))"
    have "list_all no_braces acfgs" using Cons.prems by simp
    from Cons.IH [OF this, of ?e] obtain status tx e' where l: "assert_loop L r acfgs msg vars ?e = Some ((status, tx), vars, e')"
      and s: "status \<in> {StatusPassed, StatusFailed, StatusError}"
        "status = StatusPassed \<longleftrightarrow> (\<forall>cfg \<in> set acfgs. check L r cfg msg = None)" by blast
    have "assert_loop L r (cfg # acfgs) msg vars e = Some ((status, tx), vars, e')"
      using a l by (simp add: ReplaceString_text nb)
    with s None show ?thesis by (intro exI [of _ status] exI [of _ tx] exI [of _ e']) simp
  next
    case (Some err)
    then show ?thesis
      by (cases "Create r cfg") (simp_all add: check_def ReplaceString_text nb)
  qed
qed simp

text \<open>A message that can be claimed is collected at the first tick and checked.\<close>

lemma message_collected:
  fixes w :: "MemoryStore world"
  assumes "or_receivers orc = main_receivers ou (or_store orc) reg" and "or_store orc = memory_port cod id (\<lambda>s _. s)"
    and "list_all no_braces (rc_Assertions rcfg)" and "rc_Timeout rcfg \<le> 0 \<or> second < rc_Timeout rcfg"
    and "wr_runID r = runID" and "runID \<noteq> []" and "quick w"
    and "\<And>now. now \<le> clock w + 3 * second \<Longrightarrow>
       \<exists>at. mem_Claim cod runID WebhookReceiverType now (outside w) = Inr (Some (m\<lparr>m_ReceivedAt := at\<rparr>))"
  shows "\<exists>res w' at. collectAndAssert orc None runID rcfg (WebhookInstance r) vars w = Some (res, vars, w')
     \<and> rr_Message res = Some (m\<lparr>m_ReceivedAt := at\<rparr>) \<and> rr_Status res \<in> {StatusPassed, StatusFailed, StatusError}
     \<and> (rr_Status res = StatusPassed \<longleftrightarrow>
          (\<forall>cfg \<in> set (rc_Assertions rcfg). check (or_lib orc) (or_assertions orc) cfg (m\<lparr>m_ReceivedAt := at\<rparr>) = None))"
proof -
  let ?st = "memory_port cod id (\<lambda>s _. s)"
  obtain ctx w1 where c: "(if 0 < rc_Timeout rcfg
      then let (now, w) = time_Now w in (WithTimeout None now (rc_Timeout rcfg), w) else (None, w)) = (ctx, w1)"
    by (metis surj_pair)
  have w1: "within 1 w w1" "outside w1 = outside w" "ctx = None \<or> (\<exists>d. ctx = Some d \<and> clock w1 + second < d)"
    using c within_now [OF assms(7)] within_refl [OF assms(7), of 1] assms(4)
    by (auto simp: WithTimeout_def clock_time_Now(1) split_beta Let_def split: if_splits)
  let ?tick = "w1\<lparr>clock := clock w1 + second\<rparr>"
  have q: "quick ?tick" using w1(1) by (simp add: within_def)
  have "fst (time_Now ?tick) \<le> clock w + 3 * second"
    using quick_time_Now(2) [OF q] w1(1) by (simp add: clock_time_Now(1) within_def)
  from assms(8) [OF this] obtain at where
    at: "mem_Claim cod runID WebhookReceiverType (fst (time_Now ?tick)) (outside w) = Inr (Some (m\<lparr>m_ReceivedAt := at\<rparr>))" ..
  let ?msg = "m\<lparr>m_ReceivedAt := at\<rparr>" and ?w2 = "snd (time_Now ?tick)"
  have "webhook_attempt ?st runID ?tick = (Some (Inr ?msg), ?w2)"
    using at w1(2) by (simp add: webhook_attempt_def memory_port_def split_beta Let_def)
  then have "poll_ticks second ctx (webhook_attempt ?st runID) (clock w1 + second) w1 = Some (Some (Inr ?msg), ?w2)"
    by (intro poll_ticks_first) (use w1(3) in \<open>auto simp: second_def\<close>)
  then have "webhook_Collect ?st r ctx w1 = Some (Inr ?msg, ?w2)"
    using assms(5,6) by (simp add: webhook_Collect_started)
  then have col: "rv_Collect (or_receivers orc) (WebhookInstance r) ctx vars w1 = Some (Inr ?msg, vars, ?w2)"
    by (simp add: assms(1,2) main_receivers_def)
  let ?w3 = "snd (st_Delete (or_store orc) runID (rc_Type rcfg) ?w2)"
  from assert_loop_checks [OF assms(3), of "or_lib orc" "or_assertions orc" ?msg vars "draws ?w3"]
  obtain status tx e' where a: "assert_loop (or_lib orc) (or_assertions orc) (rc_Assertions rcfg) ?msg vars (draws ?w3)
      = Some ((status, tx), vars, e')"
    "status \<in> {StatusPassed, StatusFailed, StatusError}"
    "status = StatusPassed \<longleftrightarrow> (\<forall>cfg \<in> set (rc_Assertions rcfg). check (or_lib orc) (or_assertions orc) cfg ?msg = None)"
    by blast
  let ?res = "\<lparr>rr_Type = rc_Type rcfg, rr_TriggerIndex = 0, rr_Status = status, rr_DurationMs = 0,
                 rr_Error = tx, rr_Message = Some ?msg\<rparr>"
  have "collectAndAssert orc None runID rcfg (WebhookInstance r) vars w = Some (?res, vars, ?w3\<lparr>draws := e'\<rparr>)"
    using c col a(1) by (simp add: collectAndAssert_def split_beta)
  with a(2,3) show ?thesis by (intro exI [of _ ?res] exI [of _ "?w3\<lparr>draws := e'\<rparr>"] exI [of _ at]) simp
qed

subsection \<open>The run\<close>

text \<open>The orchestrator that \<open>main\<close> makes where the store is the memory store.\<close>

definition loop_orchestrator :: "('c, MemoryStore) Outer \<Rightarrow> codec \<Rightarrow> (('c, MemoryStore) AnyReceiver, MemoryStore) Orchestrator" where
  "loop_orchestrator ou cod =
     \<lparr>or_lib = ou_lib ou,
      or_triggers = main_trigger_registry (ou_lib ou) (NewDefaultRegistry (ou_lib ou)) (ou_client ou),
      or_store = memory_port cod id (\<lambda>s _. s),
      or_receivers = main_receivers ou (memory_port cod id (\<lambda>s _. s)) (NewDefaultRegistry (ou_lib ou)),
      or_assertions = NewDefaultRegistry (ou_lib ou)\<rparr>"

text \<open>The outside of the service: the system under test calls back, and what it sends is read.\<close>

definition closed_loop :: "('c, MemoryStore) Outer \<Rightarrow> codec \<Rightarrow> string \<Rightarrow> (string \<Rightarrow> WebhookRequest) \<Rightarrow> bool" where
  "closed_loop ou cod base callback \<longleftrightarrow>
     faithful cod
     \<and> ou_client ou = calling_back (main_extractors (ou_lib ou)) (memory_port cod id (\<lambda>s _. s)) callback
     \<and> (\<forall>runID. reports (ou_lib ou) runID (callback (base @ runID)))
     \<and> (\<forall>method runID. lib_new_request (ou_lib ou) method (base @ runID) = None)"

text \<open>What the receiver of the run reports: a message that the generic provider made of the callback, and a status that
  says whether it passes all assertions.\<close>

definition reported :: "lib \<Rightarrow> string \<Rightarrow> WebhookRequest \<Rightarrow> AssertionConfig list \<Rightarrow> ReceiverResult \<Rightarrow> bool" where
  "reported L runID req asserts res \<longleftrightarrow>
     (\<exists>m at (wx :: MemoryStore world) wy. generic_Extract L req wx = (Inr m, wy) \<and> m_RunID m = runID \<and> rr_Message res = Some (m\<lparr>m_ReceivedAt := at\<rparr>)
        \<and> rr_Status res \<in> {StatusPassed, StatusFailed, StatusError}
        \<and> (rr_Status res = StatusPassed \<longleftrightarrow>
             (\<forall>cfg \<in> set asserts. check L (NewDefaultRegistry L) cfg (m\<lparr>m_ReceivedAt := at\<rparr>) = None)))"

lemma collect_one:
  assumes "receiver_goroutine orc ctx runID ti r vars (w\<lparr>draws := \<lambda>n. draws w (Suc n)\<rparr>) = Some (res, vars', w')"
  shows "collectAndAssertAll orc ctx runID [r] vars result ti w =
     Some (if tr_Error (merge_result res result) = [] \<and> tr_Status (merge_result res result) \<noteq> StatusPassed
           then (merge_result res result)\<lparr>tr_Error := summarizeReceiverErrors (tr_Receivers (merge_result res result))\<rparr>
           else merge_result res result, vars', w'\<lparr>clock := max (clock w) (clock w')\<rparr>)"
proof -
  have "w\<lparr>draws := e, clock := clock w\<rparr> = w\<lparr>draws := e\<rparr>" for e by simp
  with assms show ?thesis by (simp add: collectAndAssertAll_def)
qed

lemma one_attempt:
  assumes "trig ctx step runID vars w = Some (Inr [], vars1, w2)" and "tc_WaitForReceivers step" and "tc_Receivers step = [rcfg]"
    and "startReceivers orc ctx [rcfg] runID vars1 w2 = ((active, None), w3)"
    and "collectAndAssertAll orc ctx runID active vars1 (result\<lparr>tr_Attempts := tr_Attempts result + 1\<rparr>) (int i) w3 = Some (result', vars2, w4)"
  shows "attempt_loop orc ctx rt runID trig step i (Suc 0) None vars result w =
     Some ((tr_Status result' = StatusPassed, None), result', vars2, stopReceivers orc active w4)"
  using assms by (simp add: Let_def)

text \<open>From the callback on: the receiver of the step starts and collects the message.\<close>

lemma step_collects:
  fixes w :: "MemoryStore world" and ou :: "('c, MemoryStore) Outer"
  assumes "round_trip_step base rcfg step" and "runID \<noteq> []" and "quick w"
    and "tr_Status result = StatusPassed" and "tr_Error result = []"
    and claim: "\<forall>now \<le> clock w + 5 * second.
       \<exists>at. mem_Claim cod runID WebhookReceiverType now (outside w) = Inr (Some (m\<lparr>m_ReceivedAt := at\<rparr>))"
  defines "orc \<equiv> loop_orchestrator ou cod" and "L \<equiv> ou_lib ou"
  shows "\<exists>active w1 result' w2 res at. startReceivers orc None [rcfg] runID vars w = ((active, None), w1)
     \<and> collectAndAssertAll orc None runID active vars result ti w1 = Some (result', vars, w2)
     \<and> tr_Receivers result' = tr_Receivers result @ [res] \<and> tr_Status result' = rr_Status res
     \<and> tr_RunID result' = tr_RunID result \<and> tr_TestID result' = tr_TestID result
     \<and> rr_Message res = Some (m\<lparr>m_ReceivedAt := at\<rparr>) \<and> rr_Status res \<in> {StatusPassed, StatusFailed, StatusError}
     \<and> (rr_Status res = StatusPassed \<longleftrightarrow>
          (\<forall>cfg \<in> set (rc_Assertions rcfg). check L (NewDefaultRegistry L) cfg (m\<lparr>m_ReceivedAt := at\<rparr>) = None))"
proof -
  let ?w1 = "snd (time_Now w)" and ?r = "\<lparr>wr_runID = runID, wr_startedAt = fst (time_Now w)\<rparr>"
  let ?ar = "\<lparr>ar_cfg = rcfg, ar_instance = WebhookInstance ?r\<rparr>"
  let ?w2 = "?w1\<lparr>draws := \<lambda>n. draws ?w1 (Suc n)\<rparr>" and ?w3 = "snd (time_Now (?w1\<lparr>draws := \<lambda>n. draws ?w1 (Suc n)\<rparr>))"
  note w1 = within_now [OF assms(3)]
  have w2: "within 0 ?w1 ?w2" using w1 by (intro within_draws) (simp add: within_def quick_def calm_def)
  have w3: "within 1 ?w2 ?w3" using w2 by (intro within_now) (simp add: within_def)
  have near: "within 2 w ?w3" "quick ?w3"
    using within_trans [OF within_trans [OF w1 w2] w3] w3 by (simp_all add: eval_nat_numeral within_def)
  have step: "list_all no_braces (rc_Assertions rcfg)" "rc_Timeout rcfg \<le> 0 \<or> second < rc_Timeout rcfg"
    "rc_Type rcfg = WebhookReceiverType" using assms(1) by (simp_all add: round_trip_step_def)
  have rs: "or_receivers orc = main_receivers ou (or_store orc) (NewDefaultRegistry L)" "or_store orc = memory_port cod id (\<lambda>s _. s)"
    "or_lib orc = L" "or_assertions orc = NewDefaultRegistry L"
    by (simp_all add: orc_def loop_orchestrator_def L_def)
  have out: "outside ?w3 = outside w" by simp
  have cl: "\<exists>at. mem_Claim cod runID WebhookReceiverType now (outside ?w3) = Inr (Some (m\<lparr>m_ReceivedAt := at\<rparr>))"
    if "now \<le> clock ?w3 + 3 * second" for now
    unfolding out by (rule claim [rule_format]) (use that near(1) in \<open>simp add: within_def\<close>)
  from message_collected [OF rs(1,2) step(1,2) _ assms(2) near(2) cl, of ?r vars] obtain res w4 at where
    c: "collectAndAssert orc None runID rcfg (WebhookInstance ?r) vars ?w3 = Some (res, vars, w4)"
      "rr_Message res = Some (m\<lparr>m_ReceivedAt := at\<rparr>)" "rr_Status res \<in> {StatusPassed, StatusFailed, StatusError}"
      "rr_Status res = StatusPassed \<longleftrightarrow> (\<forall>cfg \<in> set (rc_Assertions rcfg). check L (NewDefaultRegistry L) cfg (m\<lparr>m_ReceivedAt := at\<rparr>) = None)"
    unfolding rs(3,4) by auto
  let ?res = "res\<lparr>rr_DurationMs := Milliseconds (fst (time_Now w4) - fst (time_Now ?w2)), rr_TriggerIndex := ti\<rparr>"
  have started: "startReceivers orc None [rcfg] runID vars w = (([?ar], None), ?w1)"
    by (simp add: startReceivers_def rs(1) main_receivers_def ReceiverRegistry_Create_def main_registry_types step(3)
        WebhookReceiverType_def webhook_Start_def NewWebhookReceiver_def split_beta Let_def)
  have "receiver_goroutine orc None runID ti ?ar vars ?w2 = Some (?res, vars, snd (time_Now w4))"
    using c(1) by (simp add: receiver_goroutine_def split_beta Let_def)
  note all = collect_one [OF this, of result]
  show ?thesis
    by (rule exI, rule exI, rule exI, rule exI, rule exI [of _ ?res], rule exI [of _ at],
        rule conjI [OF started], rule conjI [OF all])
      (use c(2-4) assms(4,5) in \<open>auto simp: merge_result_def merge_status_def\<close>)
qed

lemma round_trip_collects:
  fixes w :: "MemoryStore world"
  assumes "closed_loop ou cod base callback" and "round_trip_step base rcfg step" and "run_id_ok runID"
    and "quick w" and "10 * second \<le> ms_ttl (outside w)"
    and "tr_Status result = StatusPassed" and "tr_Error result = []"
  defines "orc \<equiv> loop_orchestrator ou cod" and "L \<equiv> ou_lib ou"
  defines "trig \<equiv> Execute L \<lparr>ht_client = ou_client ou, ht_assertions = NewDefaultRegistry L\<rparr>"
  shows "\<exists>p result' w' res. attempt_loop orc None rt runID trig step i (Suc 0) None [(''run_id'', runID)] result w
       = Some ((p, None), result', [(''run_id'', runID)], w')
     \<and> tr_Receivers result' = tr_Receivers result @ [res] \<and> reported L runID (callback (base @ runID)) (rc_Assertions rcfg) res
     \<and> tr_Status result' = rr_Status res \<and> (p \<longleftrightarrow> rr_Status res = StatusPassed)
     \<and> tr_RunID result' = tr_RunID result \<and> tr_TestID result' = tr_TestID result"
proof -
  let ?st = "memory_port cod id (\<lambda>s _. s)" and ?vars = "[(''run_id'', runID)]" and ?req = "callback (base @ runID)"
  let ?result1 = "result\<lparr>tr_Attempts := tr_Attempts result + 1\<rparr>"
  have loop: "faithful cod" "ou_client ou = calling_back (main_extractors L) ?st callback" "reports L runID ?req"
    "\<And>method. lib_new_request L method (base @ runID) = None"
    using assms(1) by (simp_all add: closed_loop_def L_def)
  have bf: "brace_free runID" "runID \<noteq> []" using assms(3) TrimSpace_Nil by (auto simp: run_id_ok_def)
  obtain w1 where w1: "within 1 w w1" "outside w1 = outside w"
    and fire: "\<And>reply w2. handleWebhook (main_extractors L) ?st ?req w1 = (reply, w2) \<Longrightarrow> trig None step runID ?vars w = Some (Inr [], ?vars, w2)"
    using trigger_fires [OF assms(2) bf(1) loop(4) assms(4), of "main_extractors L" ?st callback "NewDefaultRegistry L"]
    unfolding trig_def loop(2) by blast
  have q1: "quick w1" using w1(1) by (simp add: within_def)
  obtain m wy w2 where x: "generic_Extract L ?req w1 = (Inr m, wy)" "m_RunID m = runID"
    and h: "handleWebhook (main_extractors L) ?st ?req w1 = (NoContent, w2)" and w2: "within 3 w1 w2"
    and claim: "\<And>now. now \<le> clock w1 + ms_ttl (outside w1) \<Longrightarrow>
       \<exists>at. mem_Claim cod runID WebhookReceiverType now (outside w2) = Inr (Some (m\<lparr>m_ReceivedAt := at\<rparr>))"
    using report_stored [OF loop(3) assms(3) loop(1) q1] by metis
  have cl: "\<forall>now \<le> clock w2 + 5 * second. \<exists>at. mem_Claim cod runID WebhookReceiverType now (outside w2) = Inr (Some (m\<lparr>m_ReceivedAt := at\<rparr>))"
    by (intro allI impI claim) (use w2 w1(2) assms(5) in \<open>simp add: within_def second_def\<close>)
  have q2: "quick w2" using w2 by (simp add: within_def)
  have r1: "tr_Status ?result1 = StatusPassed" "tr_Error ?result1 = []" using assms(6,7) by simp_all
  from step_collects [OF assms(2) bf(2) q2 r1 cl, of ou ?vars "int i"] obtain active w3 result' w4 res at where
    s: "startReceivers orc None [rcfg] runID ?vars w2 = ((active, None), w3)"
      "collectAndAssertAll orc None runID active ?vars ?result1 (int i) w3 = Some (result', ?vars, w4)"
    and r: "tr_Receivers result' = tr_Receivers ?result1 @ [res]" "tr_Status result' = rr_Status res"
      "tr_RunID result' = tr_RunID ?result1" "tr_TestID result' = tr_TestID ?result1"
      "rr_Message res = Some (m\<lparr>m_ReceivedAt := at\<rparr>)" "rr_Status res \<in> {StatusPassed, StatusFailed, StatusError}"
      "rr_Status res = StatusPassed \<longleftrightarrow> (\<forall>cfg \<in> set (rc_Assertions rcfg). check L (NewDefaultRegistry L) cfg (m\<lparr>m_ReceivedAt := at\<rparr>) = None)"
    unfolding orc_def L_def by - (elim exE conjE, blast)
  have rep: "reported L runID ?req (rc_Assertions rcfg) res"
    using x r(5-7) unfolding reported_def by blast
  have step: "tc_WaitForReceivers step" "tc_Receivers step = [rcfg]" using assms(2) by (simp_all add: round_trip_step_def)
  note a = one_attempt [where trig = trig and result = result and i = i, OF fire [OF h] step s, of rt]
  show ?thesis
    by (rule exI, rule exI, rule exI, rule exI [of _ res], rule conjI [OF a]) (simp add: r(1-4) rep)
qed

lemma round_trip_run:
  fixes w :: "MemoryStore world"
  assumes "closed_loop ou cod base callback" and "round_trip base rcfg def"
    and "quick w" and "10 * second \<le> ms_ttl (outside w)"
  shows "\<exists>runID result nt w' res. RunTest (loop_orchestrator ou cod) None def w = Some (runID, result, nt, w')
     \<and> tr_RunID result = runID \<and> tr_TestID result = td_ID def
     \<and> tr_Receivers result = [res] \<and> reported (ou_lib ou) runID (callback (base @ runID)) (rc_Assertions rcfg) res
     \<and> tr_Status result = rr_Status res"
proof -
  let ?orc = "loop_orchestrator ou cod" and ?L = "ou_lib ou"
  let ?trig = "Execute ?L \<lparr>ht_client = ou_client ou, ht_assertions = NewDefaultRegistry ?L\<rparr>"
  let ?w1 = "snd (time_Now w)"
  let ?runID = "td_ID def @ ''-'' @ FormatInt (fst (time_Now w))"
  let ?vars = "[(''run_id'', ?runID)]"
  let ?w2 = "snd (time_Now ?w1)"
  from assms(2) obtain step where triggers: "td_Triggers def = [step]" and step: "round_trip_step base rcfg step"
    and ok: "run_id_ok ?runID" and d: "td_Enabled def" "\<not> rt_Enabled (td_Retry def)" "td_Variables def = []"
    using run_id_of_test [of "td_ID def" "fst (time_Now w)"] by (auto simp: round_trip_def split: list.splits)
  let ?w3 = "if 0 < tc_DelayBefore step then time_Sleep (tc_DelayBefore step) ?w2 else ?w2"
  let ?w4 = "snd (time_Now ?w3)"
  let ?result = "\<lparr>tr_TestID = td_ID def, tr_RunID = ?runID, tr_Status = StatusPassed, tr_Attempts = 0,
      tr_DurationMs = 0, tr_Receivers = [], tr_Error = [], tr_StartedAt = fst (time_Now ?w1),
      tr_FinishedAt = zero_time, tr_TriggerVars = []\<rparr>"
  have "quick ?w2" using quick_time_Now(1) [OF quick_time_Now(1) [OF assms(3)]] .
  then have "quick ?w3" by (simp add: time_Sleep_def)
  then have q: "quick ?w4" by (rule quick_time_Now)
  have t: "10 * second \<le> ms_ttl (outside ?w4)" using assms(4) by simp
  have r: "tr_Status ?result = StatusPassed" "tr_Error ?result = []" by simp_all
  from round_trip_collects [OF assms(1) step ok q t r, of "td_Retry def" 0] obtain p result' w5 res where
    a: "attempt_loop ?orc None (td_Retry def) ?runID ?trig step 0 (Suc 0) None ?vars ?result ?w4 = Some ((p, None), result', ?vars, w5)"
    and r': "tr_Receivers result' = [res]" "reported ?L ?runID (callback (base @ ?runID)) (rc_Assertions rcfg) res"
      "tr_Status result' = rr_Status res" "p \<longleftrightarrow> rr_Status res = StatusPassed" "tr_RunID result' = ?runID" "tr_TestID result' = td_ID def"
    by auto
  have create: "TriggerRegistry_Create (or_triggers ?orc) (EffectiveType step) (tc_Options step) = Inr ?trig"
    using step by (simp add: loop_orchestrator_def main_trigger_registry_def TriggerRegistry_Create_def TriggerRegistry_Register_def
        NewHTTPTrigger_def round_trip_step_def)
  have reserve: "reserveRecipients ?orc (tc_Receivers step) ?runID ?w3 = (([], None), ?w3)"
    using step by (simp add: reserveRecipients_def round_trip_step_def)
  have max1: "stepMaxAttempts (td_Retry def) = Suc 0" using d(2) by (simp add: stepMaxAttempts_def)
  have "\<exists>result2 w6 defers. steps_loop ?orc None (td_Retry def) ?runID [step] 0 [] ?vars ?result ?w2 = Some (result2, defers, w6)
     \<and> tr_Receivers result2 = [res] \<and> tr_Status result2 = rr_Status res \<and> tr_RunID result2 = ?runID \<and> tr_TestID result2 = td_ID def"
    using create reserve max1 a r' by (cases p) (simp_all add: run_step_def Let_def del: attempt_loop.simps)
  then obtain result2 w6 defers where s: "steps_loop ?orc None (td_Retry def) ?runID [step] 0 [] ?vars ?result ?w2 = Some (result2, defers, w6)"
    and r2: "tr_Receivers result2 = [res]" "tr_Status result2 = rr_Status res" "tr_RunID result2 = ?runID" "tr_TestID result2 = td_ID def"
    by blast
  have "?w2\<lparr>draws := draws ?w2\<rparr> = ?w2" by simp
  with s have "executeSequential ?orc None def ?runID ?result ?w2 = Some (result2, fold (releaseRecipients ?orc) defers w6)"
    by (simp add: executeSequential_def d(3) triggers del: steps_loop.simps)
  then have "\<exists>result nt w'. execute ?orc None def ?runID ?w1 = Some (result, nt, w')
     \<and> tr_Receivers result = [res] \<and> tr_Status result = rr_Status res \<and> tr_RunID result = ?runID \<and> tr_TestID result = td_ID def"
    using r2 d(1) by (simp add: execute_def finish_def split_beta Let_def)
  then obtain result nt w' where e: "execute ?orc None def ?runID ?w1 = Some (result, nt, w')"
    "tr_Receivers result = [res]" "tr_Status result = rr_Status res" "tr_RunID result = ?runID" "tr_TestID result = td_ID def"
    by blast
  then have "RunTest ?orc None def w = Some (?runID, result, nt, w')"
    by (simp add: RunTest_def split_beta Let_def)
  with e r'(2) show ?thesis by blast
qed

subsection \<open>Properties\<close>

text \<open>C2 (test_goes_around): a service on the memory store whose system under test answers its trigger by calling the webhook
  endpoint with the id of the run. In any state the server can reach, a request to run the test comes back with a result whose one
  receiver holds the message of this very callback; the run passes exactly if that message passes every
  assertion of the test; and the result can be looked up by the id of the run from then on. All the clock
  readings are less than a second apart and messages live for ten seconds at least.\<close>

theorem test_goes_around:
  assumes "main ou e = Inr svc" and "sv_ingestor svc = memory_port cod id (\<lambda>s _. s)"
    and "closed_loop ou cod base callback"
    and "api_reachable (sv_orchestrator svc) (sv_api svc) (s, w)"
    and "aq_Method r = MethodPost" and "map_of (as_tests s) (aq_Query r ''id'') = Some def" and "round_trip base rcfg def"
    and "quick w" and "10 * second \<le> ms_ttl (outside w)"
  shows "\<exists>result s' nts w' res m at wx wy.
       handleRun (sv_orchestrator svc) r s w = Some (JsonResult 200 result, s', nts, w')
     \<and> tr_TestID result = td_ID def \<and> tr_Receivers result = [res]
     \<and> generic_Extract (ou_lib ou) (callback (base @ tr_RunID result)) (wx :: MemoryStore world) = (Inr m, wy)
     \<and> m_RunID m = tr_RunID result \<and> rr_Message res = Some (m\<lparr>m_ReceivedAt := at\<rparr>)
     \<and> tr_Status result \<in> {StatusPassed, StatusFailed, StatusError}
     \<and> (tr_Status result = StatusPassed \<longleftrightarrow>
          (\<forall>cfg \<in> set (rc_Assertions rcfg).
             check (ou_lib ou) (NewDefaultRegistry (ou_lib ou)) cfg (m\<lparr>m_ReceivedAt := at\<rparr>) = None))
     \<and> handleResultByID (r\<lparr>aq_Path := ''/results/'' @ tr_RunID result\<rparr>) s' = JsonResult 200 result"
proof -
  have orc: "sv_orchestrator svc = loop_orchestrator ou cod"
    using main_orchestrator [OF assms(1)] assms(2) by (simp add: loop_orchestrator_def)
  from round_trip_run [OF assms(3,7,8,9)] obtain runID result nt w' res where
    run: "RunTest (loop_orchestrator ou cod) None def w = Some (runID, result, nt, w')"
    and res: "tr_RunID result = runID" "tr_TestID result = td_ID def" "tr_Receivers result = [res]"
      "reported (ou_lib ou) runID (callback (base @ runID)) (rc_Assertions rcfg) res" "tr_Status result = rr_Status res"
    by blast
  have "\<not> td_Async def" using assms(7) by (simp add: round_trip_def)
  then have h: "handleRun (sv_orchestrator svc) r s w = Some (JsonResult 200 result, storeResult result s, sent nt, w')"
    using run assms(5,6) by (simp add: handleRun_def orc)
  have "cache_ok (sv_api svc)" by (rule main_cases [OF assms(1)]) (simp add: cache_ok_NewServer)
  from api_reachable_cache [OF assms(4) this] have "cache_ok s" by simp
  from storeResult_lookup [OF this, of result] have look: "map_of (as_results (storeResult result s)) runID = Some result"
    by (simp add: res(1))
  have "runID \<noteq> []" using run by (auto simp: RunTest_def split_beta Let_def split: Option.bind_split_asm)
  moreover have "TrimPrefix (''/results/'' @ runID) ''/results/'' = runID" unfolding TrimPrefix_def strip_prefix_append by simp
  ultimately have "handleResultByID (r\<lparr>aq_Path := ''/results/'' @ runID\<rparr>) (storeResult result s) = JsonResult 200 result"
    using look by (simp add: handleResultByID_def del: append.simps)
  with h res show ?thesis unfolding reported_def by metis
qed

text \<open>A service that closes the loop: a codec for all messages (their code as a number, in unary), a system under test that
  calls back with the id of the run in the query, and a test that asserts the method of the callback.\<close>

definition string_nat :: "string \<Rightarrow> nat" where "string_nat s = list_encode (map of_char s)"
definition nat_string :: "nat \<Rightarrow> string" where "nat_string n = map char_of (list_decode n)"

definition map_nat :: "strmap \<Rightarrow> nat" where
  "map_nat m = list_encode (map (\<lambda>(k, v). prod_encode (string_nat k, string_nat v)) m)"
definition nat_map :: "nat \<Rightarrow> strmap" where
  "nat_map n = map (\<lambda>c. map_prod nat_string nat_string (prod_decode c)) (list_decode n)"

definition message_nat :: "Message \<Rightarrow> nat" where
  "message_nat m = list_encode [string_nat (m_RunID m), string_nat (m_ReceiverType m), int_encode (m_ReceivedAt m),
     map_nat (m_Headers m), map_nat (m_Fields m), string_nat (m_Raw m)]"
definition nat_message :: "nat \<Rightarrow> Message" where
  "nat_message n = (let c = list_decode n in
     \<lparr>m_RunID = nat_string (c ! 0), m_ReceiverType = nat_string (c ! 1), m_ReceivedAt = int_decode (c ! 2),
      m_Headers = nat_map (c ! 3), m_Fields = nat_map (c ! 4), m_Raw = nat_string (c ! 5)\<rparr>)"

definition unary_codec :: codec where
  "unary_codec = \<lparr>marshal_message = (\<lambda>m. Inr (replicate (message_nat m) CHR ''1'')),
     unmarshal_message = (\<lambda>s. Inr (nat_message (length s)))\<rparr>"

lemma faithful_unary: "faithful unary_codec"
proof -
  have s: "nat_string (string_nat s) = s" for s
    by (simp add: nat_string_def string_nat_def comp_def)
  have m: "nat_map (map_nat m) = m" for m
    by (induction m) (auto simp: nat_map_def map_nat_def s)
  have "nat_message (message_nat x) = x" for x
    by (simp add: nat_message_def message_nat_def s m Let_def eval_nat_numeral)
  then show ?thesis by (simp add: faithful_def unary_codec_def)
qed

definition sut_base :: string where "sut_base = ''http://sut/orders?ref=''"

definition sut_callback :: "string \<Rightarrow> WebhookRequest" where
  "sut_callback url = example_generic\<lparr>wq_RawQuery := form_piece (''run_id'', drop (length sut_base) url)\<rparr>"

lemma sut_reports: "reports example_lib runID (sut_callback (sut_base @ runID))"
proof -
  let ?req = "sut_callback (sut_base @ runID)"
  have p: "ParseQuery (form_piece (''run_id'', runID)) = ([(''run_id'', [runID])], None)"
    using ParseQuery_pieces [of "[(''run_id'', runID)]" "[]" None] by (simp add: ParseQuery_def values_Add_def)
  have q: "url_Query ?req = [(''run_id'', [runID])]" by (simp add: url_Query_def sut_callback_def p)
  have pf: "ParseForm ?req = ([(''run_id'', [runID])], None)"
    by (simp add: ParseForm_def parsePostForm_def copyValues_def sut_callback_def example_generic_def p)
  have c: "header_Get ?req ''Content-Type'' = []"
    by (simp add: header_Get_def values_Get_def sut_callback_def example_generic_def)
  have x: "\<exists>raw. ExtractFields example_lib ?req e = ((form_fields [(''run_id'', [runID])], raw, None), \<lambda>n. e (Suc n))" for e
    by (simp add: ExtractFields_def extractForm_def pf c ToLower_def Contains.simps Let_def)
  have "\<exists>body. fst (generic_body example_lib ?req e) = Inr body" for e
  proof -
    from x [of e] obtain raw where "ExtractFields example_lib ?req e = ((form_fields [(''run_id'', [runID])], raw, None), \<lambda>n. e (Suc n))" ..
    then show ?thesis by (simp add: generic_body_def)
  qed
  moreover have "provider_of ?req = ''generic''" by (simp add: provider_of_def sut_callback_def example_generic_def)
  ultimately show ?thesis by (simp add: reports_def q values_Get_def)
qed

definition loop_receiver :: ReceiverConfig where
  "loop_receiver = \<lparr>rc_Type = ''webhook'', rc_Timeout = 0, rc_Recipient = [], rc_Options = [], rc_Assertions = [],
     rc_Interval = 0, rc_Method = [], rc_URL = [], rc_Headers = None, rc_Body = None, rc_ExpectedStatus = 0,
     rc_ResponseAsserts = [], rc_Extract = []\<rparr>"

definition loop_step :: TriggerConfig where
  "loop_step = \<lparr>tc_Type = ''http'', tc_Options = [], tc_Method = ''POST'', tc_URL = sut_base @ ''{{run_id}}'', tc_Timeout = 0,
     tc_DelayBefore = 0, tc_Headers = None, tc_Body = None, tc_Extract = [], tc_ExpectedStatus = 200,
     tc_ResponseAssertions = [], tc_Receivers = [loop_receiver], tc_WaitForReceivers = True\<rparr>"

definition loop_test :: TestDefinition where
  "loop_test = (example_definition [loop_step])\<lparr>td_Retry := \<lparr>rt_Enabled = False, rt_Attempts = 0, rt_Delay = 0\<rparr>\<rparr>"

definition loop_outer :: "(unit, MemoryStore) Outer" where
  "loop_outer =
     \<lparr>ou_lib = example_lib, ou_ReadFile = (\<lambda>p. Inr []), ou_WalkDir = (\<lambda>_. two_files),
      ou_getenv = (\<lambda>k. if k = ''STORE_TYPE'' then ''memory'' else []),
      ou_yaml_config = (\<lambda>_. Inr (empty_config\<lparr>cf_TestGroups := [(''ci'', ci_group)]\<rparr>)),
      ou_yaml_test = (\<lambda>_. Inr loop_test),
      ou_codec = unary_codec,
      ou_redis = (\<lambda>_. Inl (plain_error [])), ou_postgres = (\<lambda>_. Inl (plain_error [])),
      ou_memory = (\<lambda>_. memory_port unary_codec id (\<lambda>s _. s)),
      ou_client = calling_back (main_extractors example_lib) (memory_port unary_codec id (\<lambda>s _. s)) sut_callback,
      ou_notify_client = (\<lambda>ctx req w. (Inl [], w)),
      ou_imap = \<lparr>il_DialTLS = (\<lambda>addr name w. (Inl [], w)), il_Dial = (\<lambda>addr w. (Inl [], w)),
        il_Login = (\<lambda>c u p w. (None, w)), il_Select = (\<lambda>c m w. (None, w)), il_Noop = (\<lambda>c w. (None, w)),
        il_Search = (\<lambda>c crit w. (Inr [], w)), il_Fetch = (\<lambda>c n w. (Inr [], w)), il_Logout = (\<lambda>c w. (None, w))\<rparr>,
      ou_mail = (\<lambda>_. Inr example_mail), ou_cron = (\<lambda>_. None)\<rparr>"

lemma loop_outer_starts:
  "\<exists>svc. main loop_outer (\<lambda>_. 0) = Inr svc \<and> as_tests (sv_api svc) = [(''t'', loop_test)]
     \<and> sv_ingestor svc = memory_port unary_codec id (\<lambda>s _. s)"
proof -
  let ?cfg = "config_defaults (ou_getenv loop_outer) (empty_config\<lparr>cf_TestGroups := [(''ci'', ci_group)]\<rparr>)"
  have r: "resolve_env g [] = []" for g by (simp add: resolve_env_def)
  have c: "LoadConfig (ou_ReadFile loop_outer) (ou_getenv loop_outer) (ou_yaml_config loop_outer) ''configs/config.yaml'' = Inr ?cfg"
    by (simp add: LoadConfig_def loop_outer_def r config_defaults_def validateLogging_def empty_config_def Let_def)
  have cfg: "sc_Type (cf_Store ?cfg) = ''memory''" "cf_TestGroups ?cfg = [(''ci'', ci_group)]" "cf_TestsPath ?cfg = []"
    by (simp_all add: config_defaults_def loop_outer_def empty_config_def Let_def)
  obtain lc where l: "Configure (lg_Level (cf_Logging ?cfg)) (lg_Format (cf_Logging ?cfg)) = Inr lc"
    using loaded_config_accepted [OF c] by blast
  have x: "filepath_Ext ''a.yaml'' = ''.yaml''" "filepath_Ext ''b.yaml'' = ''.yaml''" "filepath_Ext ''c.yml'' = ''.yml''"
    by (simp_all add: filepath_Ext_def)
  have t: "LoadTestDefinitions (ou_WalkDir loop_outer) (ou_ReadFile loop_outer) (ou_getenv loop_outer)
      (ou_yaml_test loop_outer) ''tests'' = Inr [(''t'', loop_test)]"
    by (simp add: LoadTestDefinitions_def loop_outer_def two_files_def load_file_def r x loop_test_def example_definition_def)
  have s: "StoreRegistry_Create sc_Type (main_store_registry loop_outer) (cf_Store ?cfg) = Inr (memory_port unary_codec id (\<lambda>s _. s))"
    by (simp add: StoreRegistry_Create_def main_store_registry_def StoreRegistry_Register_def cfg) (simp add: loop_outer_def)
  have v: "fst (ValidateTestGroups (cf_TestGroups ?cfg) [(''t'', loop_test)] (\<lambda>_. 0)) = None"
    unfolding ValidateTestGroups_None cfg(2) by (simp add: ci_group_def)
  have g: "ou_getenv loop_outer ''CONFIG_PATH'' = []" by (simp add: loop_outer_def)
  show ?thesis
    using c l t s v cfg g
    by (auto simp: main_defs NewIngestor_def NewWebhookServer_def NewServer_def Let_def split_beta split: option.splits)
qed

theorem test_goes_around_witness:
  "\<exists>svc result s' nts w'. main loop_outer (\<lambda>_. 0) = Inr svc
     \<and> handleRun (sv_orchestrator svc) example_request (sv_api svc)
          \<lparr>draws = \<lambda>_. 0, clock = 0, outside = NewMemoryStore (10 * second)\<rparr> = Some (JsonResult 200 result, s', nts, w')
     \<and> tr_Status result = StatusPassed"
proof -
  let ?w = "\<lparr>draws = \<lambda>_. 0, clock = 0, outside = NewMemoryStore (10 * second)\<rparr>"
  obtain svc where m: "main loop_outer (\<lambda>_. 0) = Inr svc" and t: "as_tests (sv_api svc) = [(''t'', loop_test)]"
    and st: "sv_ingestor svc = memory_port unary_codec id (\<lambda>s _. s)" using loop_outer_starts by blast
  have loop: "closed_loop loop_outer unary_codec sut_base sut_callback"
    using faithful_unary sut_reports
    by (simp add: closed_loop_def loop_outer_def example_lib_def [THEN arg_cong, of lib_new_request] sut_base_def)
  have "is_graph CHR ''t''" by (simp add: is_graph_def)
  then have trip: "round_trip sut_base loop_receiver loop_test"
    by (simp add: round_trip_def round_trip_step_def loop_test_def loop_step_def loop_receiver_def example_definition_def
        EffectiveType_def HTTPTriggerType_def WebhookReceiverType_def sut_base_def)
  have q: "quick ?w" by (simp add: quick_def second_def)
  have ttl: "10 * second \<le> ms_ttl (outside ?w)" by (simp add: NewMemoryStore_def)
  have p: "aq_Method example_request = MethodPost" "map_of (as_tests (sv_api svc)) (aq_Query example_request ''id'') = Some loop_test"
    by (simp_all add: example_request_def MethodPost_def t)
  from test_goes_around [OF m st loop api_reachable.start p trip q ttl] m show ?thesis
    by (auto simp: loop_receiver_def)
qed

end
