(* ===== verification/Spec2Isabelle.thy ===== *)
theory Spec2Isabelle
  imports Shared_Databases Connection_Log Gateway Lifecycle End_To_End
begin

text \<open>
  A verification of e2e-framework, a service that runs end-to-end tests: a test fires HTTP triggers,
  waits for what they cause (a webhook, a mail, a state that an API reports) and checks it with
  assertions. The theories follow the packages under \<open>src/internal\<close>; all names of files below
  are relative to it.

  \<^bold>\<open>The program.\<close> A run (\<open>core/services/orchestrator.go\<close>) takes the steps of a test in order. For each
  step it reserves the recipients of its receivers in the store, starts the receivers, executes the
  trigger, collects and asserts in one goroutine per receiver, merges their results into the result of
  the run, and retries the step as configured. Runs come from the HTTP API
  (\<open>adapters/primary/api\<close>), one by one or in sequences and groups, and from the cron scheduler
  (\<open>adapters/primary/cron\<close>). Messages come in through the webhook server
  (\<open>adapters/primary/webhook\<close>), whose extractors turn a request into a message that the ingestor deposits
  in the store (\<open>adapters/secondary/store\<close>); the webhook receiver claims it there. The other two receivers
  look into a mailbox and poll an API (\<open>adapters/secondary/receiver\<close>). A failed run ends with the alerts of the
  notifier (\<open>adapters/secondary/notifier\<close>). Placeholders, counters and generators in all
  requests are resolved by \<open>pkg/template\<close>. \<open>cmd/server/main.go\<close> loads the configuration and puts it all together.

  \<^bold>\<open>The theories.\<close>
  \<^item> Go: \<open>Go_Prelude\<close> (draws, the iteration order of maps, maps as association lists, errors with their
    sentinels), \<open>Go_Strings\<close>, \<open>Go_Strconv\<close> (numbers, quoting, the tokens of a regular expression).
  \<^item> \<open>Domain\<close>: \<open>core/domain\<close>, the world that the components thread, and the record \<open>lib\<close> of the libraries outside
    of the repository.
  \<^item> \<open>Generators\<close> and \<open>Template\<close>: \<open>pkg/template\<close>. \<open>Assertions\<close>: \<open>pkg/assertion\<close>. \<open>Httputil\<close> and \<open>Url_Forms\<close>:
    \<open>pkg/httputil\<close> with what it uses of \<open>net/url\<close> and \<open>net/http\<close>. \<open>Config\<close>: \<open>pkg/config\<close>. \<open>Log_Events\<close>:
    \<open>pkg/logger\<close>.
  \<^item> \<open>Http_Trigger\<close>: \<open>adapters/secondary/trigger\<close>. \<open>Notifier\<close>: \<open>adapters/secondary/notifier\<close>.
  \<^item> \<open>Store\<close>: the interface of the stores, the memory and the disabled store and the registry;
    \<open>Postgres_Store\<close> and \<open>Redis_Store\<close>: the other two.
  \<^item> \<open>Polling\<close> (tickers and selects), \<open>Webhook_Receiver\<close>, \<open>Api_Receiver\<close>, \<open>Imap_Receiver\<close>:
    \<open>adapters/secondary/receiver\<close>.
  \<^item> \<open>Orchestrator\<close> and \<open>Ingestor\<close>: \<open>core/services\<close>. \<open>Api_Server\<close>, \<open>Webhook_Server\<close> and \<open>Scheduler\<close>:
    \<open>adapters/primary\<close>, the first with \<open>core/services/group_resolver.go\<close>.
  \<^item> \<open>Gateway\<close>: the port with the mux that the API and the webhook endpoint share, and the access log.
  \<^item> \<open>Service\<close>: the registry of receivers and \<open>main\<close> up to the running service; \<open>Connection_Log\<close>: the line that says
    where the Redis store connects to; \<open>Lifecycle\<close>: from the running service to the end of the process, as a step relation.
  \<^item> Over all of them: \<open>Run_Frame\<close> (what a run may do to the world around it, as a locale),
    \<open>Reservations\<close> (the reservations of one run), \<open>Interleaving\<close> (the machine of runs that take turns on any store that
    keeps the contract), \<open>Concurrent_Runs\<close> (the refinement of the orchestrator to it, on the memory store),
    \<open>Shared_Databases\<close> (several instances of the service on one Postgres or Redis) and \<open>End_To_End\<close> (from the request to run a test to its result).

  \<^bold>\<open>How the model reads the code.\<close> A struct is a record, an enumeration a datatype, an error a value with the
  chain of its sentinels and its text; a function that may fail gives a sum, with every early return as a
  branch. A Go map is an association list on distinct keys; ranging over it takes the order from a stream of
  draws that stands for everything nondeterministic, so a theorem about all streams is about all orders.
  Integers that can wrap are words of 64 bits; durations and times are nanoseconds. The panic of a template
  ends the process: the outermost \<open>None\<close> of the operations that can panic. The same \<open>None\<close> stands for a loop
  that does not end in the polling receivers (\<open>partial_function\<close>), and there are theorems that say when
  they return; all other functions terminate by their definition, and no definition takes fuel.

  Time passes between readings of the clock by any amount that is not negative. A deadline is the time at which
  a context ends; a select between a tick and a deadline that are both due goes either way. The goroutines
  of a step are run in the order in which they complete, each from the clock at which they start; what others
  do to the store while a receiver waits is a history of stores over time (\<open>Webhook_Receiver\<close>), and the
  steps of several runs interleave freely in the machine of \<open>Interleaving\<close>. Asynchronous
  runs are delivered at any later point (\<open>deliver\<close> in \<open>Api_Server\<close>).

  HTTP clients, the JSON codec of messages, YAML, regular expressions, gjson, the cron library, the IMAP and
  mail libraries and the Redis client are parameters; where a theorem relies on one of them it says so in a
  hypothesis. The SQL of the Postgres store is part of the repository and modelled statement by statement.

  \<^bold>\<open>What is proved.\<close>
  \<^item> Runs: what a passing run has done, the status of every run and its single notification, the independence of
    the merged status from the order of completion, bounds on the attempts, the release of reservations;
    and where retries, errors and reservations do not behave as documented.
  \<^item> Stores: two locales state the contract of messages and of reservations. They are interpreted on the memory
    and on the Postgres store, and hold for a Redis as documented, so that each refines the same
    abstract slots; reservations exclude each other until they are released or expire. A third locale, over the exclusive
    half of the contract, carries the runs that take turns: they never hold the same recipient within the hour of a
    reservation, on one memory store as on a database whose statements or commands interleave. Every run of the orchestrator
    is a path of that machine, and after the hour a release can free what another run holds.
  \<^item> The line of the Redis connection: user and password do not influence it, if they are escaped.
  \<^item> From the outside to a receiver: every request to the webhook endpoint has the answer that fits its
    outcome, and one that is accepted is collected by the receivers of its run in time. Receivers with a
    deadline return, and what they return is what was asked for. The whole way is one theorem
    (\<open>test_goes_around\<close>): from \<open>main\<close> and a request to run a test through the trigger, the callback of the system under
    test, the store and the assertions to the result that the API keeps.
  \<^item> Templates, assertions, payloads, forms: functional correctness, a round trip of forms, and the cases in which
    the order of a map decides.
  \<^item> The API: the invariant of its cache in every reachable state, and the answers of its endpoints. The scheduler:
    exactly the schedulable tests run.
  \<^item> The port: which handler every path gets, and what a request without a token can do.
  \<^item> Start-up: a configuration that loads is complete, groups are valid, and the components share one store. The end: it
    is reached, in order, and what it reports.

  \<^bold>\<open>Not modelled.\<close> Log lines other than those of \<open>Log_Events\<close>, of \<open>Connection_Log\<close> and of the access log; sockets; the
  decoding of YAML nodes and the libraries named above; the generated mocks and documentation. Two receivers of one
  step are not interleaved inside of their collecting: they share a Go map without a lock, and what concurrent
  writes to it do is undefined in Go.
\<close>

end
